(* ===== verification/Prelude.thy ===== *)
theory Prelude
  imports Main "HOL-Library.Word" "HOL-Library.Multiset" "HOL-Library.Signed_Division"
begin

text \<open>
  What every theory of the development shares: the fact collections the component proofs
  extend, Go's \<open>int\<close> (64 bits, wrapping), decimal text (\<open>strconv.Itoa\<close>, \<open>strconv.Atoi\<close>,
  \<open>time.Duration.String\<close>), case folding of strings, answer tapes that stand for the
  replies of the outside world, and lemmas on descending sorts.
\<close>

section \<open>Fact collections\<close>

named_theorems codec_simps \<open>encoding and decoding of the JSON structs\<close>
named_theorems world_simps \<open>what an operation on the outside world changes and what it keeps\<close>
named_theorems sort_facts \<open>facts on sorted result lists\<close>

section \<open>Machine integers\<close>

text \<open>Go's \<open>int\<close> and \<open>time.Duration\<close> are 64 bits wide; instants are counted in nanoseconds.\<close>

type_synonym time = int
type_synonym duration = int

definition int64 :: "int \<Rightarrow> bool" where
  "int64 x \<longleftrightarrow> - (2 ^ 63) \<le> x \<and> x < 2 ^ 63"

definition wrap64 :: "int \<Rightarrow> int" where
  "wrap64 x = signed_take_bit 63 x"

lemma wrap64_id [simp]: "int64 x \<Longrightarrow> wrap64 x = x"
  by (simp add: wrap64_def int64_def signed_take_bit_int_eq_self)

lemma int64_wrap64: "int64 (wrap64 x)"
  using signed_take_bit_int_greater_eq_minus_exp [of 63 x] signed_take_bit_int_less_exp [of 63 x]
  by (simp add: wrap64_def int64_def)

lemma int64_between [intro]: "0 \<le> x \<Longrightarrow> x \<le> y \<Longrightarrow> int64 y \<Longrightarrow> int64 x"
  by (simp add: int64_def)

text \<open>\<open>time.Time.Sub\<close>: the difference of two instants, the nearest duration when it is out of range.\<close>

definition time_sub :: "time \<Rightarrow> time \<Rightarrow> duration" where
  "time_sub t u = max (- (2 ^ 63)) (min (2 ^ 63 - 1) (t - u))"

lemma time_sub_id: "int64 (t - u) \<Longrightarrow> time_sub t u = t - u"
  by (simp add: time_sub_def int64_def)

lemma int64_time_sub: "int64 (time_sub t u)"
  by (simp add: time_sub_def int64_def)

lemma int64_sdiv: "int64 x \<Longrightarrow> 1 < n \<Longrightarrow> int64 (x sdiv n)"
proof -
  assume x: "int64 x" and n: "1 < n"
  have "0 \<le> \<bar>x\<bar> div n" "\<bar>x\<bar> div n \<le> \<bar>x\<bar> div 2"
    using n by (simp_all add: pos_imp_zdiv_nonneg_iff zdiv_mono2)
  moreover have "\<bar>x\<bar> \<le> 2 ^ 63" using x unfolding int64_def by (intro abs_leI) simp_all
  then have "\<bar>x\<bar> div 2 < 2 ^ 63" by simp
  moreover have "x sdiv n = sgn x * (\<bar>x\<bar> div n)" using n by (simp add: signed_divide_int_def)
  ultimately show ?thesis by (cases "x < 0"; cases "x = 0") (auto simp: int64_def sgn_if)
qed

section \<open>Decimal text\<close>

definition digit_char :: "nat \<Rightarrow> char" where
  "digit_char d = char_of (48 + d)"

definition is_digit :: "char \<Rightarrow> bool" where
  "is_digit c \<longleftrightarrow> 48 \<le> (of_char c :: nat) \<and> (of_char c :: nat) \<le> 57"

definition digit_val :: "char \<Rightarrow> nat" where
  "digit_val c = of_char c - 48"

fun nat_text :: "nat \<Rightarrow> string" where
  "nat_text n = (if n < 10 then [digit_char n] else nat_text (n div 10) @ [digit_char (n mod 10)])"

declare nat_text.simps [simp del]

definition int_text :: "int \<Rightarrow> string" where
  "int_text i = (if i < 0 then ''-'' @ nat_text (nat (- i)) else nat_text (nat i))"

definition digits_val :: "string \<Rightarrow> nat" where
  "digits_val s = foldl (\<lambda>acc c. 10 * acc + digit_val c) 0 s"

text \<open>
  \<open>strconv.Atoi\<close>: an optional sign, then one or more decimal digits and nothing else; a value
  outside 64 bits is an error.
\<close>

definition unsigned_val :: "string \<Rightarrow> int option" where
  "unsigned_val s = (if s \<noteq> [] \<and> list_all is_digit s then Some (int (digits_val s)) else None)"

fun atoi :: "string \<Rightarrow> int option" where
  "atoi [] = None"
| "atoi (c # s) =
     (let v = (if c = CHR ''-'' then map_option uminus (unsigned_val s)
               else if c = CHR ''+'' then unsigned_val s
               else unsigned_val (c # s))
      in case v of None \<Rightarrow> None | Some n \<Rightarrow> (if int64 n then Some n else None))"

lemma of_char_digit [simp]: "d < 10 \<Longrightarrow> (of_char (digit_char d) :: nat) = 48 + d"
  by (simp add: digit_char_def)

lemma is_digit_digit_char [simp]: "d < 10 \<Longrightarrow> is_digit (digit_char d)"
  by (simp add: is_digit_def)

lemma digit_val_digit_char [simp]: "d < 10 \<Longrightarrow> digit_val (digit_char d) = d"
  by (simp add: digit_val_def)

lemma nat_text_digits: "list_all is_digit (nat_text n)"
proof (induction n rule: nat_text.induct)
  case (1 n)
  then show ?case by (cases "n < 10") (simp_all add: nat_text.simps [of n])
qed

lemma nat_text_nonempty [simp]: "nat_text n \<noteq> []"
  by (simp add: nat_text.simps)

lemma digits_val_nat_text [simp]: "digits_val (nat_text n) = n"
proof (induction n rule: nat_text.induct)
  case (1 n)
  then show ?case
    by (cases "n < 10") (simp_all add: nat_text.simps [of n] digits_val_def)
qed

lemma digits_val_inj: "nat_text m = nat_text n \<Longrightarrow> m = n"
  by (metis digits_val_nat_text)

lemma atoi_nat_text [simp]: "int64 (int n) \<Longrightarrow> atoi (nat_text n) = Some (int n)"
proof -
  assume n: "int64 (int n)"
  obtain c s where cs: "nat_text n = c # s" by (cases "nat_text n") auto
  have "is_digit c" using nat_text_digits [of n] cs by simp
  then have "c \<noteq> CHR ''-''" "c \<noteq> CHR ''+''" by (auto simp: is_digit_def)
  moreover have "unsigned_val (c # s) = Some (int n)"
    using nat_text_digits [of n] cs digits_val_nat_text [of n] by (simp add: unsigned_val_def)
  ultimately show ?thesis using n cs by simp
qed

lemma atoi_int64: "atoi s = Some v \<Longrightarrow> int64 v"
  by (cases s) (auto simp: Let_def split: option.splits if_splits)

subsection \<open>Durations as text\<close>

text \<open>\<open>fmtFrac\<close>: the fraction of \<open>v / 10 ^ prec\<close> without trailing zeros, and the integer part.\<close>

fun frac_digits :: "nat \<Rightarrow> nat \<Rightarrow> bool \<Rightarrow> string \<Rightarrow> string \<times> nat" where
  "frac_digits 0 v shown acc = ((if shown then ''.'' @ acc else acc), v)"
| "frac_digits (Suc prec) v shown acc =
     (let d = v mod 10; shown' = (shown \<or> d \<noteq> 0)
      in frac_digits prec (v div 10) shown' (if shown' then digit_char d # acc else acc))"

text \<open>\<open>time.Duration.String\<close>; the micro sign is two bytes of UTF-8.\<close>

definition duration_text :: "duration \<Rightarrow> string" where
  "duration_text d =
     (let u = nat \<bar>d\<bar>;
          body =
            (if u = 0 then ''0s''
             else if u < 1000 then nat_text u @ ''ns''
             else if u < 1000000 then
               (let (fr, v) = frac_digits 3 u False [] in nat_text v @ fr @ [CHR 0xC2, CHR 0xB5] @ ''s'')
             else if u < 1000000000 then
               (let (fr, v) = frac_digits 6 u False [] in nat_text v @ fr @ ''ms'')
             else
               (let (fr, v) = frac_digits 9 u False [];
                    mins = v div 60
                in (if mins = 0 then ''''
                    else (if mins div 60 = 0 then '''' else nat_text (mins div 60) @ ''h'')
                         @ nat_text (mins mod 60) @ ''m'')
                   @ nat_text (v mod 60) @ fr @ ''s''))
      in (if d < 0 then ''-'' else '''') @ body)"

section \<open>Case folding\<close>

definition lower_char :: "char \<Rightarrow> char" where
  "lower_char c =
     (let n = (of_char c :: nat) in if 65 \<le> n \<and> n \<le> 90 then char_of (n + 32) else c)"

text \<open>
  The folding \<open>strings.EqualFold\<close> and \<open>encoding/json\<close> use to compare with an ASCII name: ASCII
  letters, and the two runes outside ASCII that fold to an ASCII letter (U+017F to \<open>s\<close> and
  U+212A to \<open>k\<close>), written in UTF-8.
\<close>

fun fold_text :: "string \<Rightarrow> string" where
  "fold_text [] = []"
| "fold_text (c # s) =
     (if c = CHR 0xC5 \<and> take 1 s = [CHR 0xBF] then CHR ''s'' # fold_text (drop 1 s)
      else if c = CHR 0xE2 \<and> take 2 s = [CHR 0x84, CHR 0xAA] then CHR ''k'' # fold_text (drop 2 s)
      else lower_char c # fold_text s)"

definition equal_fold :: "string \<Rightarrow> string \<Rightarrow> bool" where
  "equal_fold s t \<longleftrightarrow> fold_text s = fold_text t"

section \<open>Answer tapes\<close>

text \<open>
  A reply of the outside world (a driver error, a broker acknowledgement, a fresh identifier)
  is read from a tape: an infinite sequence of answers and the position of the next one. A
  statement about every tape is a statement about every behaviour of that part of the world.
\<close>

datatype 'o tape = Tape (tape_fun: "nat \<Rightarrow> 'o") (tape_pos: nat)

definition tape_read :: "'o tape \<Rightarrow> 'o" where
  "tape_read t = tape_fun t (tape_pos t)"

definition tape_next :: "'o tape \<Rightarrow> 'o tape" where
  "tape_next t = Tape (tape_fun t) (Suc (tape_pos t))"

lemma tape_next_fun [simp]: "tape_fun (tape_next t) = tape_fun t"
  by (simp add: tape_next_def)

lemma tape_next_pos [simp]: "tape_pos (tape_next t) = Suc (tape_pos t)"
  by (simp add: tape_next_def)

lemma tape_read_Tape [simp]: "tape_read (Tape f n) = f n"
  by (simp add: tape_read_def)

lemma tape_next_Tape [simp]: "tape_next (Tape f n) = Tape f (Suc n)"
  by (simp add: tape_next_def)

text \<open>From now on every answer is as \<open>Q\<close> says; what was answered before does not matter.\<close>

definition steady :: "('o \<Rightarrow> bool) \<Rightarrow> 'o tape \<Rightarrow> bool" where
  "steady Q t \<longleftrightarrow> (\<forall>k \<ge> tape_pos t. Q (tape_fun t k))"

abbreviation constantly :: "'o \<Rightarrow> 'o tape \<Rightarrow> bool" where
  "constantly x \<equiv> steady (\<lambda>a. a = x)"

lemma steady_read: "steady Q t \<Longrightarrow> Q (tape_read t)"
  by (simp add: steady_def tape_read_def)

lemma constantly_read: "constantly x t \<Longrightarrow> tape_read t = x"
  by (rule steady_read)

lemma steady_next [simp, intro]: "steady Q t \<Longrightarrow> steady Q (tape_next t)"
  by (simp add: steady_def)

lemma steady_Tape [simp]: "steady Q (Tape f n) = (\<forall>k \<ge> n. Q (f k))"
  by (simp add: steady_def)

section \<open>Optional elements\<close>

text \<open>The elements that are present, in order: what a loop that skips nil entries collects.\<close>

fun somes :: "'a option list \<Rightarrow> 'a list" where
  "somes [] = []"
| "somes (None # xs) = somes xs"
| "somes (Some x # xs) = x # somes xs"

lemma set_somes: "set (somes xs) = {x. Some x \<in> set xs}"
  by (induction xs rule: somes.induct) auto

lemma somes_map_Some [simp]: "somes (map Some xs) = xs"
  by (induction xs) auto

lemma length_somes: "length (somes xs) = length (filter (\<lambda>x. x \<noteq> None) xs)"
  by (induction xs rule: somes.induct) auto

section \<open>Descending sorts\<close>

text \<open>\<open>ORDER BY k DESC\<close> on rows in storage order: ties keep that order.\<close>

definition sort_desc :: "('a \<Rightarrow> 'k::linorder) \<Rightarrow> 'a list \<Rightarrow> 'a list" where
  "sort_desc k xs = rev (sort_key k (rev xs))"

lemma mset_sort_desc [simp]: "mset (sort_desc k xs) = mset xs"
  by (simp add: sort_desc_def)

lemma set_sort_desc [simp]: "set (sort_desc k xs) = set xs"
  by (simp add: sort_desc_def)

lemma length_sort_desc [simp]: "length (sort_desc k xs) = length xs"
  by (simp add: sort_desc_def)

lemma distinct_sort_desc [simp]: "distinct (sort_desc k xs) = distinct xs"
  by (simp add: sort_desc_def)

lemma sorted_desc_sort_desc [sort_facts]: "sorted (map k (rev (sort_desc k xs)))"
  by (simp add: sort_desc_def)

lemma filter_sort_desc: "filter P (sort_desc k xs) = sort_desc k (filter P xs)"
  by (simp add: sort_desc_def filter_sort flip: rev_filter)

end
