(* ===== verification/GoLib.thy ===== *)
theory GoLib
  imports Prelude
begin

text \<open>
  Identifiers and the library code the services call without its source being part of the
  repository: UUID text, RFC 3339 text, mail addresses, the ORM's reading of an offset. Each is
  a field of the record \<open>golib\<close>, an argument of the definitions that use it; what the code relies
  on is stated as named predicates on that record.
\<close>

section \<open>UUIDs\<close>

text \<open>The 16 bytes of a UUID; PostgreSQL compares them as an unsigned big-endian number.\<close>

datatype uuid = UUID "128 word"

instantiation uuid :: linorder
begin

definition less_eq_uuid :: "uuid \<Rightarrow> uuid \<Rightarrow> bool" where
  "less_eq_uuid a b = (case (a, b) of (UUID x, UUID y) \<Rightarrow> x \<le> y)"

definition less_uuid :: "uuid \<Rightarrow> uuid \<Rightarrow> bool" where
  "less_uuid a b = (case (a, b) of (UUID x, UUID y) \<Rightarrow> x < y)"

instance
  by standard (auto simp: less_eq_uuid_def less_uuid_def split: uuid.splits)

end

lemma uuid_le [simp]: "UUID x \<le> UUID y \<longleftrightarrow> x \<le> y"
  by (simp add: less_eq_uuid_def)

lemma uuid_less [simp]: "UUID x < UUID y \<longleftrightarrow> x < y"
  by (simp add: less_uuid_def)

section \<open>Library functions\<close>

text \<open>
  \<open>parse_address\<close> is the success of \<open>mail.ParseAddress\<close>; \<open>parse_time\<close> and \<open>format_time\<close> are
  \<open>time.Parse\<close> and \<open>Format\<close> at \<open>time.RFC3339\<close>; \<open>time_to_json\<close> and \<open>time_of_json\<close> the JSON text of
  a \<open>time.Time\<close>; \<open>uuid_parse\<close> and \<open>uuid_text\<close> the functions of the package google/uuid;
  \<open>query_offset\<close> the number of rows the ORM's \<open>Offset(n)\<close> skips.
\<close>

record golib =
  parse_address :: "string \<Rightarrow> bool"
  parse_time :: "string \<Rightarrow> time option"
  format_time :: "time \<Rightarrow> string"
  time_to_json :: "time \<Rightarrow> string"
  time_of_json :: "string \<Rightarrow> time option"
  uuid_parse :: "string \<Rightarrow> uuid option"
  uuid_text :: "uuid \<Rightarrow> string"
  query_offset :: "int \<Rightarrow> nat"

definition uuid_text_parses :: "golib \<Rightarrow> bool" where
  "uuid_text_parses L \<longleftrightarrow> (\<forall>u. uuid_parse L (uuid_text L u) = Some u)"

definition time_json_roundtrips :: "golib \<Rightarrow> bool" where
  "time_json_roundtrips L \<longleftrightarrow> (\<forall>t. time_of_json L (time_to_json L t) = Some t)"

definition offset_plain :: "golib \<Rightarrow> bool" where
  "offset_plain L \<longleftrightarrow> (\<forall>n. 0 \<le> n \<longrightarrow> n < 2 ^ 31 \<longrightarrow> query_offset L n = nat n)"

lemma uuid_text_inj: "uuid_text_parses L \<Longrightarrow> uuid_text L u = uuid_text L v \<Longrightarrow> u = v"
  by (metis option.inject uuid_text_parses_def)

text \<open>
  One concrete instance, for evaluating the model on examples: a UUID is printed in decimal, an
  instant as its number of nanoseconds.
\<close>

definition sample_lib :: golib where
  "sample_lib = \<lparr>
     parse_address = (\<lambda>s. CHR ''@'' \<in> set s),
     parse_time = (\<lambda>s. atoi s),
     format_time = int_text,
     time_to_json = int_text,
     time_of_json = (\<lambda>s. case s of [] \<Rightarrow> None
        | c # r \<Rightarrow> if c = CHR ''-'' then Some (- int (digits_val r)) else Some (int (digits_val s))),
     uuid_parse = (\<lambda>s. if s \<noteq> [] \<and> list_all is_digit s
        then Some (UUID (of_nat (digits_val s))) else None),
     uuid_text = (\<lambda>u. case u of UUID w \<Rightarrow> nat_text (unat w)),
     query_offset = nat\<rparr>"

lemma sample_uuid_text_parses: "uuid_text_parses sample_lib"
  by (auto simp: uuid_text_parses_def sample_lib_def nat_text_digits split: uuid.splits)

lemma sample_offset_plain: "offset_plain sample_lib"
  by (simp add: offset_plain_def sample_lib_def)

lemma sample_time_json: "time_json_roundtrips sample_lib"
proof -
  have "time_of_json sample_lib (int_text t) = Some t" for t :: int
  proof (cases "t < 0")
    case True
    then show ?thesis by (simp add: sample_lib_def int_text_def)
  next
    case False
    obtain c r where cr: "nat_text (nat t) = c # r" by (cases "nat_text (nat t)") auto
    have "is_digit c" using nat_text_digits [of "nat t"] cr by simp
    then have "c \<noteq> CHR ''-''" by (auto simp: is_digit_def)
    then show ?thesis
      using False cr digits_val_nat_text [of "nat t"]
      by (simp add: sample_lib_def int_text_def)
  qed
  then show ?thesis
    unfolding time_json_roundtrips_def
    by (auto simp: sample_lib_def)
qed

end
