(* ===== verification/GoErrors.thy ===== *)
theory GoErrors
  imports GoLib
begin

text \<open>
  Go's error values as one datatype: the typed errors of shared/genericerrors and
  shared/handler, the sentinels the code compares with, errors of libraries (opaque, by their
  text), and the two ways the code combines errors, \<open>fmt.Errorf\<close> with \<open>%w\<close> and \<open>errors.Join\<close>.
  \<open>errors.As\<close> and \<open>errors.Is\<close> walk that structure.
\<close>

section \<open>Error values\<close>

datatype go_error =
    DomainError string string          \<comment> \<open>code and message\<close>
  | NotFoundError string
  | ConflictError string
  | ValidationError "(string \<times> string) list"
  | RetryAfter duration                \<comment> \<open>processor: \<open>ErrRetryAfter\<close>\<close>
  | JsonSyntaxError string
  | JsonTypeError string
  | EOF
  | UnexpectedEOF
  | ErrNotFound                        \<comment> \<open>api/internal/db: \<open>ErrNotFound\<close>\<close>
  | ErrNoRows                          \<comment> \<open>\<open>sql.ErrNoRows\<close>\<close>
  | ContextCanceled
  | Opaque string
  | Wrap string go_error string        \<comment> \<open>\<open>fmt.Errorf\<close>: text before \<open>%w\<close>, the error, text after\<close>
  | Joined "go_error list"             \<comment> \<open>\<open>errors.Join\<close>\<close>

fun join_with :: "string \<Rightarrow> string list \<Rightarrow> string" where
  "join_with sep [] = ''''"
| "join_with sep [s] = s"
| "join_with sep (s # t # ss) = s @ sep @ join_with sep (t # ss)"

text \<open>\<open>FieldError\<close> and \<open>NewValidationError\<close> of shared/handler/validation.go.\<close>

type_synonym field_error = "string \<times> string"

definition NewValidationError :: "string \<Rightarrow> string \<Rightarrow> go_error" where
  "NewValidationError field message = ValidationError [(field, message)]"

definition validation_text :: "field_error list \<Rightarrow> string" where
  "validation_text fds =
     ''validation: '' @ join_with ''; '' (map (\<lambda>(f, m). f @ '': '' @ m) fds)"

text \<open>The method \<open>Error\<close>.\<close>

fun err_text :: "go_error \<Rightarrow> string" where
  "err_text (DomainError code message) = message"
| "err_text (NotFoundError message) = message"
| "err_text (ConflictError message) = message"
| "err_text (ValidationError fds) = validation_text fds"
| "err_text (RetryAfter d) = ''retry after '' @ duration_text d"
| "err_text (JsonSyntaxError s) = s"
| "err_text (JsonTypeError s) = s"
| "err_text EOF = ''EOF''"
| "err_text UnexpectedEOF = ''unexpected EOF''"
| "err_text ErrNotFound = ''not found''"
| "err_text ErrNoRows = ''sql: no rows in result set''"
| "err_text ContextCanceled = ''context canceled''"
| "err_text (Opaque s) = s"
| "err_text (Wrap pre e post) = pre @ err_text e @ post"
| "err_text (Joined es) = join_with [CHR 0x0A] (map err_text es)"

section \<open>errors.As and errors.Is\<close>

text \<open>
  The errors in the tree of \<open>e\<close>, in the order \<open>errors.As\<close> and \<open>errors.Is\<close> visit them; \<open>errors.As\<close>
  takes the first one of the wanted type.
\<close>

fun err_tree :: "go_error \<Rightarrow> go_error list" where
  "err_tree (Wrap pre e post) = Wrap pre e post # err_tree e"
| "err_tree (Joined es) = Joined es # concat (map err_tree es)"
| "err_tree e = [e]"

definition errors_as :: "(go_error \<Rightarrow> 'a option) \<Rightarrow> go_error \<Rightarrow> 'a option" where
  "errors_as sel e =
     (case filter (\<lambda>x. sel x \<noteq> None) (err_tree e) of [] \<Rightarrow> None | x # _ \<Rightarrow> sel x)"

text \<open>
  \<open>DomainError.Is\<close> compares codes, so two domain errors built in different places match; the
  sentinels are compared by identity.
\<close>

fun err_is :: "go_error \<Rightarrow> go_error \<Rightarrow> bool" where
  "err_is (DomainError c m) target = (case target of DomainError c' m' \<Rightarrow> c' = c | _ \<Rightarrow> False)"
| "err_is e target = (e = target)"

definition errors_is :: "go_error \<Rightarrow> go_error \<Rightarrow> bool" where
  "errors_is e target \<longleftrightarrow> list_ex (\<lambda>x. err_is x target) (err_tree e)"

text \<open>\<open>errors.Join\<close> of the collected errors: nil when there is none.\<close>

definition errors_join :: "go_error list \<Rightarrow> go_error option" where
  "errors_join es = (if es = [] then None else Some (Joined es))"

text \<open>The type tests of the error handler and of the ready consumer.\<close>

fun as_not_found :: "go_error \<Rightarrow> string option" where
  "as_not_found (NotFoundError m) = Some m"
| "as_not_found _ = None"

fun as_conflict :: "go_error \<Rightarrow> string option" where
  "as_conflict (ConflictError m) = Some m"
| "as_conflict _ = None"

fun as_domain :: "go_error \<Rightarrow> (string \<times> string) option" where
  "as_domain (DomainError c m) = Some (c, m)"
| "as_domain _ = None"

fun as_validation :: "go_error \<Rightarrow> field_error list option" where
  "as_validation (ValidationError fs) = Some fs"
| "as_validation _ = None"

fun as_json_error :: "go_error \<Rightarrow> unit option" where
  "as_json_error (JsonSyntaxError _) = Some ()"
| "as_json_error (JsonTypeError _) = Some ()"
| "as_json_error _ = None"

fun as_retry_after :: "go_error \<Rightarrow> duration option" where
  "as_retry_after (RetryAfter d) = Some d"
| "as_retry_after _ = None"

lemma errors_as_Wrap [simp]:
  "sel (Wrap pre e post) = None \<Longrightarrow> errors_as sel (Wrap pre e post) = errors_as sel e"
  by (simp add: errors_as_def)

lemma errors_is_Wrap [simp]:
  "\<not> err_is (Wrap pre e post) t \<Longrightarrow> errors_is (Wrap pre e post) t = errors_is e t"
  by (simp add: errors_is_def)

lemma errors_as_None: "(\<And>x. x \<in> set (err_tree e) \<Longrightarrow> sel x = None) \<Longrightarrow> errors_as sel e = None"
  by (simp add: errors_as_def filter_empty_conv split: list.splits)

section \<open>Results\<close>

text \<open>A Go result \<open>(value, error)\<close>: the error, or the value; \<open>error\<close> alone has the value \<open>()\<close>.\<close>

type_synonym 'a result = "go_error + 'a"

fun map_err :: "(go_error \<Rightarrow> go_error) \<Rightarrow> 'a result \<Rightarrow> 'a result" where
  "map_err f (Inl e) = Inl (f e)"
| "map_err f (Inr x) = Inr x"

definition is_ok :: "'a result \<Rightarrow> bool" where
  "is_ok r = (case r of Inl _ \<Rightarrow> False | Inr _ \<Rightarrow> True)"

lemma is_ok_simps [simp]: "is_ok (Inr x)" "\<not> is_ok (Inl e)"
  by (simp_all add: is_ok_def)

lemma is_okE: "is_ok r \<Longrightarrow> (\<And>x. r = Inr x \<Longrightarrow> P) \<Longrightarrow> P"
  by (cases r) auto

end
