(* ===== verification/GoJson.thy ===== *)
theory GoJson
  imports GoErrors
begin

text \<open>
  What the code uses of \<open>encoding/json\<close>: a value as a tree (the text itself is the library's),
  and the rules of \<open>Unmarshal\<close> into the field types the structs have. A key matches a field by
  its exact name, else by case folding; unknown keys are skipped; \<open>null\<close> leaves a value
  untouched and sets a pointer to nil; a value of the wrong kind is an error of the whole call.
\<close>

section \<open>Trees\<close>

datatype json =
    JNull
  | JBool bool
  | JInt int               \<comment> \<open>a number literal without fraction or exponent\<close>
  | JNum string            \<comment> \<open>any other number literal\<close>
  | JStr string
  | JArr "json list"
  | JObj "(string \<times> json) list"

definition type_error :: go_error where
  "type_error = JsonTypeError ''json: cannot unmarshal''"

section \<open>Values\<close>

fun decode_string :: "json \<Rightarrow> string \<Rightarrow> string result" where
  "decode_string (JStr s) old = Inr s"
| "decode_string JNull old = Inr old"
| "decode_string _ old = Inl type_error"

fun decode_int :: "json \<Rightarrow> int \<Rightarrow> int result" where
  "decode_int (JInt n) old = (if int64 n then Inr n else Inl type_error)"
| "decode_int JNull old = Inr old"
| "decode_int _ old = Inl type_error"

fun decode_time :: "golib \<Rightarrow> json \<Rightarrow> time \<Rightarrow> time result" where
  "decode_time L (JStr s) old =
     (case time_of_json L s of None \<Rightarrow> Inl (Opaque ''parsing time'') | Some t \<Rightarrow> Inr t)"
| "decode_time L JNull old = Inr old"
| "decode_time L _ old = Inl (Opaque ''Time.UnmarshalJSON: input is not a JSON string'')"

text \<open>A pointer: \<open>null\<close> is nil, anything else is decoded into a fresh zero value.\<close>

definition decode_ptr :: "(json \<Rightarrow> 'a \<Rightarrow> 'a result) \<Rightarrow> 'a \<Rightarrow> json \<Rightarrow> 'a option \<Rightarrow> 'a option result" where
  "decode_ptr d zero j old =
     (if j = JNull then Inr None
      else (case d j (case old of None \<Rightarrow> zero | Some x \<Rightarrow> x) of
              Inl e \<Rightarrow> Inl e | Inr x \<Rightarrow> Inr (Some x)))"

fun decode_all :: "(json \<Rightarrow> 'a result) \<Rightarrow> json list \<Rightarrow> 'a list result" where
  "decode_all d [] = Inr []"
| "decode_all d (j # js) =
     (case (d j, decode_all d js) of
        (Inr x, Inr xs) \<Rightarrow> Inr (x # xs)
      | (Inl e, _) \<Rightarrow> Inl e
      | (_, Inl e) \<Rightarrow> Inl e)"

text \<open>A slice of structs, each element decoded into its zero value.\<close>

fun decode_slice :: "(json \<Rightarrow> 'a \<Rightarrow> 'a result) \<Rightarrow> 'a \<Rightarrow> json \<Rightarrow> 'a list \<Rightarrow> 'a list result" where
  "decode_slice d zero (JArr js) old = decode_all (\<lambda>j. d j zero) js"
| "decode_slice d zero JNull old = Inr []"
| "decode_slice d zero _ old = Inl type_error"

section \<open>Structs\<close>

type_synonym 's field = "string \<times> (json \<Rightarrow> 's \<Rightarrow> 's result)"

definition find_field :: "'s field list \<Rightarrow> string \<Rightarrow> (json \<Rightarrow> 's \<Rightarrow> 's result) option" where
  "find_field fds key =
     (case List.find (\<lambda>f. fst f = key) fds of
        Some f \<Rightarrow> Some (snd f)
      | None \<Rightarrow> map_option snd (List.find (\<lambda>f. equal_fold (fst f) key) fds))"

fun decode_fields :: "'s field list \<Rightarrow> (string \<times> json) list \<Rightarrow> 's \<Rightarrow> 's result" where
  "decode_fields fds [] s = Inr s"
| "decode_fields fds ((k, j) # kvs) s =
     (case find_field fds k of
        None \<Rightarrow> decode_fields fds kvs s
      | Some set_field \<Rightarrow>
          (case set_field j s of
             Inl e \<Rightarrow> Inl e
           | Inr s' \<Rightarrow> decode_fields fds kvs s'))"

fun decode_struct :: "'s field list \<Rightarrow> json \<Rightarrow> 's \<Rightarrow> 's result" where
  "decode_struct fds (JObj kvs) s = decode_fields fds kvs s"
| "decode_struct fds JNull s = Inr s"
| "decode_struct fds _ s = Inl type_error"

text \<open>A field whose value is decoded by \<open>d\<close>, read by \<open>get\<close> and written by \<open>put\<close>.\<close>

definition field :: "string \<Rightarrow> (json \<Rightarrow> 'a \<Rightarrow> 'a result) \<Rightarrow> ('s \<Rightarrow> 'a) \<Rightarrow> ('a \<Rightarrow> 's \<Rightarrow> 's) \<Rightarrow> 's field" where
  "field name d get put =
     (name, \<lambda>j s. case d j (get s) of Inl e \<Rightarrow> Inl e | Inr v \<Rightarrow> Inr (put v s))"

lemma fst_field [simp]: "fst (field n d g p) = n"
  by (simp add: field_def)

declare find_field_def [codec_simps]

lemma snd_field [codec_simps]:
  "snd (field n d g p) j s = (case d j (g s) of Inl e \<Rightarrow> Inl e | Inr v \<Rightarrow> Inr (p v s))"
  by (simp add: field_def)

lemma decode_all_map: "(\<And>x. x \<in> set xs \<Longrightarrow> d (enc x) = Inr x) \<Longrightarrow> decode_all d (map enc xs) = Inr xs"
  by (induction xs) auto

end
