(* ===== verification/Events.thy ===== *)
theory Events
  imports GoJson
begin

text \<open>
  The packages api/public, deliveryscheduler/public and processor/public: the string constants
  of channels, priorities, statuses and topics, the events the services exchange, and their JSON
  form (Go's default field names, so the struct fields' names are the keys).
\<close>

section \<open>Enumerations\<close>

text \<open>\<open>Channel\<close>, \<open>Priority\<close>, \<open>Status\<close> and \<open>Topic\<close> are string types: any string is a value of them.\<close>

type_synonym channel = string
type_synonym priority = string
type_synonym status = string
type_synonym topic = string

definition ChannelSMS :: channel where "ChannelSMS = ''sms''"
definition ChannelEmail :: channel where "ChannelEmail = ''email''"
definition ChannelPush :: channel where "ChannelPush = ''push''"

definition PriorityHigh :: priority where "PriorityHigh = ''high''"
definition PriorityNormal :: priority where "PriorityNormal = ''normal''"
definition PriorityLow :: priority where "PriorityLow = ''low''"

definition StatusPending :: status where "StatusPending = ''pending''"
definition StatusDelivered :: status where "StatusDelivered = ''delivered''"
definition StatusFailed :: status where "StatusFailed = ''failed''"
definition StatusCancelled :: status where "StatusCancelled = ''cancelled''"

definition TopicHigh :: topic where "TopicHigh = ''notify.high''"
definition TopicNormal :: topic where "TopicNormal = ''notify.normal''"
definition TopicLow :: topic where "TopicLow = ''notify.low''"
definition TopicNotificationScheduled :: topic where
  "TopicNotificationScheduled = ''notify.scheduled''"
definition TopicNotificationScheduleCancelled :: topic where
  "TopicNotificationScheduleCancelled = ''notify.schedule.cancelled''"
definition TopicScheduledNotificationDue :: topic where
  "TopicScheduledNotificationDue = ''notify.scheduled.due''"
definition TopicStatus :: topic where "TopicStatus = ''notify.status''"

lemmas enum_defs =
  ChannelSMS_def ChannelEmail_def ChannelPush_def
  PriorityHigh_def PriorityNormal_def PriorityLow_def
  StatusPending_def StatusDelivered_def StatusFailed_def StatusCancelled_def

lemmas topic_defs =
  TopicHigh_def TopicNormal_def TopicLow_def TopicNotificationScheduled_def
  TopicNotificationScheduleCancelled_def TopicScheduledNotificationDue_def TopicStatus_def

lemma channel_distinct [simp]:
  "ChannelSMS \<noteq> ChannelEmail" "ChannelSMS \<noteq> ChannelPush"
  "ChannelEmail \<noteq> ChannelSMS" "ChannelEmail \<noteq> ChannelPush"
  "ChannelPush \<noteq> ChannelSMS" "ChannelPush \<noteq> ChannelEmail"
  "ChannelSMS \<noteq> []" "ChannelEmail \<noteq> []" "ChannelPush \<noteq> []"
  "[] \<noteq> ChannelSMS" "[] \<noteq> ChannelEmail" "[] \<noteq> ChannelPush"
  by (simp_all add: enum_defs)

lemma priority_distinct [simp]:
  "PriorityHigh \<noteq> PriorityNormal" "PriorityHigh \<noteq> PriorityLow"
  "PriorityNormal \<noteq> PriorityHigh" "PriorityNormal \<noteq> PriorityLow"
  "PriorityLow \<noteq> PriorityHigh" "PriorityLow \<noteq> PriorityNormal"
  "PriorityHigh \<noteq> []" "PriorityNormal \<noteq> []" "PriorityLow \<noteq> []"
  "[] \<noteq> PriorityHigh" "[] \<noteq> PriorityNormal" "[] \<noteq> PriorityLow"
  by (simp_all add: enum_defs)

lemma status_distinct [simp]:
  "StatusPending \<noteq> StatusDelivered" "StatusPending \<noteq> StatusFailed"
  "StatusPending \<noteq> StatusCancelled" "StatusDelivered \<noteq> StatusPending"
  "StatusDelivered \<noteq> StatusFailed" "StatusDelivered \<noteq> StatusCancelled"
  "StatusFailed \<noteq> StatusPending" "StatusFailed \<noteq> StatusDelivered"
  "StatusFailed \<noteq> StatusCancelled" "StatusCancelled \<noteq> StatusPending"
  "StatusCancelled \<noteq> StatusDelivered" "StatusCancelled \<noteq> StatusFailed"
  "StatusPending \<noteq> []" "StatusDelivered \<noteq> []" "StatusFailed \<noteq> []"
  "StatusCancelled \<noteq> []" "[] \<noteq> StatusPending" "[] \<noteq> StatusDelivered"
  "[] \<noteq> StatusFailed" "[] \<noteq> StatusCancelled"
  by (simp_all add: enum_defs)

lemma topic_distinct [simp]:
  "TopicHigh \<noteq> TopicNormal" "TopicHigh \<noteq> TopicLow"
  "TopicHigh \<noteq> TopicNotificationScheduled"
  "TopicHigh \<noteq> TopicNotificationScheduleCancelled"
  "TopicHigh \<noteq> TopicScheduledNotificationDue" "TopicHigh \<noteq> TopicStatus"
  "TopicNormal \<noteq> TopicHigh" "TopicNormal \<noteq> TopicLow"
  "TopicNormal \<noteq> TopicNotificationScheduled"
  "TopicNormal \<noteq> TopicNotificationScheduleCancelled"
  "TopicNormal \<noteq> TopicScheduledNotificationDue" "TopicNormal \<noteq> TopicStatus"
  "TopicLow \<noteq> TopicHigh" "TopicLow \<noteq> TopicNormal"
  "TopicLow \<noteq> TopicNotificationScheduled"
  "TopicLow \<noteq> TopicNotificationScheduleCancelled"
  "TopicLow \<noteq> TopicScheduledNotificationDue" "TopicLow \<noteq> TopicStatus"
  "TopicNotificationScheduled \<noteq> TopicHigh"
  "TopicNotificationScheduled \<noteq> TopicNormal"
  "TopicNotificationScheduled \<noteq> TopicLow"
  "TopicNotificationScheduled \<noteq> TopicNotificationScheduleCancelled"
  "TopicNotificationScheduled \<noteq> TopicScheduledNotificationDue"
  "TopicNotificationScheduled \<noteq> TopicStatus"
  "TopicNotificationScheduleCancelled \<noteq> TopicHigh"
  "TopicNotificationScheduleCancelled \<noteq> TopicNormal"
  "TopicNotificationScheduleCancelled \<noteq> TopicLow"
  "TopicNotificationScheduleCancelled \<noteq> TopicNotificationScheduled"
  "TopicNotificationScheduleCancelled \<noteq> TopicScheduledNotificationDue"
  "TopicNotificationScheduleCancelled \<noteq> TopicStatus"
  "TopicScheduledNotificationDue \<noteq> TopicHigh"
  "TopicScheduledNotificationDue \<noteq> TopicNormal"
  "TopicScheduledNotificationDue \<noteq> TopicLow"
  "TopicScheduledNotificationDue \<noteq> TopicNotificationScheduled"
  "TopicScheduledNotificationDue \<noteq> TopicNotificationScheduleCancelled"
  "TopicScheduledNotificationDue \<noteq> TopicStatus" "TopicStatus \<noteq> TopicHigh"
  "TopicStatus \<noteq> TopicNormal" "TopicStatus \<noteq> TopicLow"
  "TopicStatus \<noteq> TopicNotificationScheduled"
  "TopicStatus \<noteq> TopicNotificationScheduleCancelled"
  "TopicStatus \<noteq> TopicScheduledNotificationDue" "TopicHigh \<noteq> []"
  "TopicNormal \<noteq> []" "TopicLow \<noteq> []" "TopicNotificationScheduled \<noteq> []"
  "TopicNotificationScheduleCancelled \<noteq> []" "TopicScheduledNotificationDue \<noteq> []"
  "TopicStatus \<noteq> []" "[] \<noteq> TopicHigh" "[] \<noteq> TopicNormal"
  "[] \<noteq> TopicLow" "[] \<noteq> TopicNotificationScheduled"
  "[] \<noteq> TopicNotificationScheduleCancelled" "[] \<noteq> TopicScheduledNotificationDue"
  "[] \<noteq> TopicStatus"
  by (simp_all add: topic_defs)

text \<open>The Go map \<open>TopicByPriority\<close>: a missing key reads as the empty topic.\<close>

definition TopicByPriority :: "priority \<Rightarrow> topic" where
  "TopicByPriority p =
     (if p = PriorityHigh then TopicHigh
      else if p = PriorityNormal then TopicNormal
      else if p = PriorityLow then TopicLow
      else '''')"

section \<open>Events\<close>

record ready_event =
  re_NotificationID :: string
  re_Channel :: string
  re_Recipient :: string
  re_Content :: string
  re_Priority :: string
  re_MaxAttempts :: int

record scheduled_item =
  si_NotificationID :: string
  si_ScheduledAt :: time

record scheduled_event =
  se_Notifications :: "scheduled_item list"

record cancelled_event =
  ce_NotificationID :: string

record due_event =
  de_NotificationID :: string

record result_event =
  rs_NotificationID :: string
  rs_Status :: string
  rs_AttemptNumber :: int
  rs_HTTPStatusCode :: int
  rs_ErrorMessage :: string
  rs_ProviderMessageID :: string
  rs_LatencyMS :: int

section \<open>JSON form\<close>

definition ready_to_json :: "ready_event \<Rightarrow> json" where
  "ready_to_json e = JObj
     [(''NotificationID'', JStr (re_NotificationID e)), (''Channel'', JStr (re_Channel e)),
      (''Recipient'', JStr (re_Recipient e)), (''Content'', JStr (re_Content e)),
      (''Priority'', JStr (re_Priority e)), (''MaxAttempts'', JInt (re_MaxAttempts e))]"

definition zero_ready :: ready_event where
  "zero_ready = \<lparr>re_NotificationID = '''', re_Channel = '''', re_Recipient = '''',
     re_Content = '''', re_Priority = '''', re_MaxAttempts = 0\<rparr>"

definition ready_fields :: "ready_event field list" where
  "ready_fields =
     [field ''NotificationID'' decode_string re_NotificationID (\<lambda>v e. e\<lparr>re_NotificationID := v\<rparr>),
      field ''Channel'' decode_string re_Channel (\<lambda>v e. e\<lparr>re_Channel := v\<rparr>),
      field ''Recipient'' decode_string re_Recipient (\<lambda>v e. e\<lparr>re_Recipient := v\<rparr>),
      field ''Content'' decode_string re_Content (\<lambda>v e. e\<lparr>re_Content := v\<rparr>),
      field ''Priority'' decode_string re_Priority (\<lambda>v e. e\<lparr>re_Priority := v\<rparr>),
      field ''MaxAttempts'' decode_int re_MaxAttempts (\<lambda>v e. e\<lparr>re_MaxAttempts := v\<rparr>)]"

definition ready_of_json :: "json \<Rightarrow> ready_event result" where
  "ready_of_json j = decode_struct ready_fields j zero_ready"

definition item_to_json :: "golib \<Rightarrow> scheduled_item \<Rightarrow> json" where
  "item_to_json L i = JObj
     [(''NotificationID'', JStr (si_NotificationID i)),
      (''ScheduledAt'', JStr (time_to_json L (si_ScheduledAt i)))]"

text \<open>The zero \<open>time.Time\<close> is year 1; only its being a fixed instant matters.\<close>

definition zero_time :: time where
  "zero_time = - 62135596800000000000"

definition item_fields :: "golib \<Rightarrow> scheduled_item field list" where
  "item_fields L =
     [field ''NotificationID'' decode_string si_NotificationID (\<lambda>v e. e\<lparr>si_NotificationID := v\<rparr>),
      field ''ScheduledAt'' (decode_time L) si_ScheduledAt (\<lambda>v e. e\<lparr>si_ScheduledAt := v\<rparr>)]"

definition scheduled_to_json :: "golib \<Rightarrow> scheduled_event \<Rightarrow> json" where
  "scheduled_to_json L e =
     JObj [(''Notifications'', JArr (map (item_to_json L) (se_Notifications e)))]"

definition scheduled_fields :: "golib \<Rightarrow> scheduled_event field list" where
  "scheduled_fields L =
     [field ''Notifications''
        (decode_slice (decode_struct (item_fields L))
           \<lparr>si_NotificationID = '''', si_ScheduledAt = zero_time\<rparr>)
        se_Notifications (\<lambda>v e. e\<lparr>se_Notifications := v\<rparr>)]"

definition scheduled_of_json :: "golib \<Rightarrow> json \<Rightarrow> scheduled_event result" where
  "scheduled_of_json L j = decode_struct (scheduled_fields L) j \<lparr>se_Notifications = []\<rparr>"

definition cancelled_to_json :: "cancelled_event \<Rightarrow> json" where
  "cancelled_to_json e = JObj [(''NotificationID'', JStr (ce_NotificationID e))]"

definition cancelled_of_json :: "json \<Rightarrow> cancelled_event result" where
  "cancelled_of_json j = decode_struct
     [field ''NotificationID'' decode_string ce_NotificationID (\<lambda>v e. e\<lparr>ce_NotificationID := v\<rparr>)]
     j \<lparr>ce_NotificationID = ''''\<rparr>"

definition due_to_json :: "due_event \<Rightarrow> json" where
  "due_to_json e = JObj [(''NotificationID'', JStr (de_NotificationID e))]"

definition due_of_json :: "json \<Rightarrow> due_event result" where
  "due_of_json j = decode_struct
     [field ''NotificationID'' decode_string de_NotificationID (\<lambda>v e. e\<lparr>de_NotificationID := v\<rparr>)]
     j \<lparr>de_NotificationID = ''''\<rparr>"

definition result_to_json :: "result_event \<Rightarrow> json" where
  "result_to_json e = JObj
     [(''NotificationID'', JStr (rs_NotificationID e)), (''Status'', JStr (rs_Status e)),
      (''AttemptNumber'', JInt (rs_AttemptNumber e)), (''HTTPStatusCode'', JInt (rs_HTTPStatusCode e)),
      (''ErrorMessage'', JStr (rs_ErrorMessage e)),
      (''ProviderMessageID'', JStr (rs_ProviderMessageID e)), (''LatencyMS'', JInt (rs_LatencyMS e))]"

definition zero_result :: result_event where
  "zero_result = \<lparr>rs_NotificationID = '''', rs_Status = '''', rs_AttemptNumber = 0,
     rs_HTTPStatusCode = 0, rs_ErrorMessage = '''', rs_ProviderMessageID = '''', rs_LatencyMS = 0\<rparr>"

definition result_fields :: "result_event field list" where
  "result_fields =
     [field ''NotificationID'' decode_string rs_NotificationID (\<lambda>v e. e\<lparr>rs_NotificationID := v\<rparr>),
      field ''Status'' decode_string rs_Status (\<lambda>v e. e\<lparr>rs_Status := v\<rparr>),
      field ''AttemptNumber'' decode_int rs_AttemptNumber (\<lambda>v e. e\<lparr>rs_AttemptNumber := v\<rparr>),
      field ''HTTPStatusCode'' decode_int rs_HTTPStatusCode (\<lambda>v e. e\<lparr>rs_HTTPStatusCode := v\<rparr>),
      field ''ErrorMessage'' decode_string rs_ErrorMessage (\<lambda>v e. e\<lparr>rs_ErrorMessage := v\<rparr>),
      field ''ProviderMessageID'' decode_string rs_ProviderMessageID
        (\<lambda>v e. e\<lparr>rs_ProviderMessageID := v\<rparr>),
      field ''LatencyMS'' decode_int rs_LatencyMS (\<lambda>v e. e\<lparr>rs_LatencyMS := v\<rparr>)]"

definition result_of_json :: "json \<Rightarrow> result_event result" where
  "result_of_json j = decode_struct result_fields j zero_result"

section \<open>Round trips\<close>

lemma ready_roundtrip [simp]: "int64 (re_MaxAttempts e) \<Longrightarrow> ready_of_json (ready_to_json e) = Inr e"
  by (simp add: ready_of_json_def ready_to_json_def ready_fields_def zero_ready_def codec_simps)

lemma item_roundtrip:
  "time_json_roundtrips L \<Longrightarrow> decode_struct (item_fields L) (item_to_json L i) z = Inr i"
  by (simp add: item_fields_def item_to_json_def codec_simps time_json_roundtrips_def)

lemma scheduled_roundtrip [simp]:
  "time_json_roundtrips L \<Longrightarrow> scheduled_of_json L (scheduled_to_json L e) = Inr e"
  by (simp add: scheduled_of_json_def scheduled_to_json_def scheduled_fields_def codec_simps
      decode_all_map item_roundtrip)

lemma cancelled_roundtrip [simp]: "cancelled_of_json (cancelled_to_json e) = Inr e"
  by (simp add: cancelled_of_json_def cancelled_to_json_def codec_simps)

lemma due_roundtrip [simp]: "due_of_json (due_to_json e) = Inr e"
  by (simp add: due_of_json_def due_to_json_def codec_simps)

lemma result_roundtrip [simp]:
  "int64 (rs_AttemptNumber e) \<Longrightarrow> int64 (rs_HTTPStatusCode e) \<Longrightarrow> int64 (rs_LatencyMS e) \<Longrightarrow>
   result_of_json (result_to_json e) = Inr e"
  by (simp add: result_of_json_def result_to_json_def result_fields_def zero_result_def codec_simps)

end
