(* ===== verification/Domain.thy ===== *)
theory Domain
  imports Events
begin

text \<open>
  The package api/internal/domain/notification: the domain errors, the validating setters of a
  notification, its status transitions, and what a sequence of transitions can reach.
\<close>

section \<open>Errors\<close>

definition ErrInvalidChannel :: go_error where
  "ErrInvalidChannel = DomainError ''INVALID_CHANNEL'' ''must be one of sms, email, push''"
definition ErrRecipientRequired :: go_error where
  "ErrRecipientRequired = DomainError ''RECIPIENT_REQUIRED'' ''required''"
definition ErrInvalidEmail :: go_error where
  "ErrInvalidEmail = DomainError ''INVALID_EMAIL'' ''must be a valid email address''"
definition ErrInvalidPhone :: go_error where
  "ErrInvalidPhone =
     DomainError ''INVALID_PHONE'' ''must be a valid E.164 phone number (+<7-15 digits>)''"
definition ErrChannelNotSet :: go_error where
  "ErrChannelNotSet = DomainError ''CHANNEL_NOT_SET'' ''channel must be set before recipient''"
definition ErrContentRequired :: go_error where
  "ErrContentRequired = DomainError ''CONTENT_REQUIRED'' ''required''"
definition ErrInvalidPriority :: go_error where
  "ErrInvalidPriority = DomainError ''INVALID_PRIORITY'' ''must be one of high, normal, low''"
definition ErrInvalidDeliverAfter :: go_error where
  "ErrInvalidDeliverAfter = DomainError ''INVALID_DELIVER_AFTER'' ''must be ISO 8601 format''"
definition ErrInvalidMaxAttempts :: go_error where
  "ErrInvalidMaxAttempts = DomainError ''INVALID_MAX_ATTEMPTS'' ''must be greater than 0''"
definition ErrUnknownStatus :: go_error where
  "ErrUnknownStatus = DomainError ''UNKNOWN_STATUS'' ''unknown status''"
definition ErrInvalidTransition :: go_error where
  "ErrInvalidTransition = DomainError ''INVALID_TRANSITION'' ''invalid status transition''"

lemmas domain_error_defs =
  ErrInvalidChannel_def ErrRecipientRequired_def ErrInvalidEmail_def ErrInvalidPhone_def
  ErrChannelNotSet_def ErrContentRequired_def ErrInvalidPriority_def ErrInvalidDeliverAfter_def
  ErrInvalidMaxAttempts_def ErrUnknownStatus_def ErrInvalidTransition_def

section \<open>The notification\<close>

record notification =
  n_channel :: channel
  n_recipient :: string
  n_content :: string
  n_priority :: priority
  n_status :: status
  n_deliverAfter :: "time option"
  n_maxAttempts :: int

definition zero_notification :: notification where
  "zero_notification = \<lparr>n_channel = '''', n_recipient = '''', n_content = '''',
     n_priority = '''', n_status = '''', n_deliverAfter = None, n_maxAttempts = 0\<rparr>"

text \<open>The function \<open>New\<close>: no validation.\<close>

definition New_notification ::
  "channel \<Rightarrow> string \<Rightarrow> string \<Rightarrow> priority \<Rightarrow> status \<Rightarrow> time option \<Rightarrow> int \<Rightarrow> notification" where
  "New_notification ch r c p st da ma = \<lparr>n_channel = ch, n_recipient = r, n_content = c,
     n_priority = p, n_status = st, n_deliverAfter = da, n_maxAttempts = ma\<rparr>"

text \<open>The regular expression \<open>^\+[1-9]\d{6,14}$\<close>.\<close>

fun phone_match :: "string \<Rightarrow> bool" where
  "phone_match (p # d # ds) =
     (p = CHR ''+'' \<and> is_digit d \<and> d \<noteq> CHR ''0''
      \<and> 6 \<le> length ds \<and> length ds \<le> 14 \<and> list_all is_digit ds)"
| "phone_match _ = False"

definition SetChannel :: "channel \<Rightarrow> notification \<Rightarrow> notification result" where
  "SetChannel ch n =
     (if ch = ChannelSMS \<or> ch = ChannelEmail \<or> ch = ChannelPush
      then Inr (n\<lparr>n_channel := ch\<rparr>) else Inl ErrInvalidChannel)"

definition SetRecipient :: "golib \<Rightarrow> string \<Rightarrow> notification \<Rightarrow> notification result" where
  "SetRecipient L r n =
     (if r = '''' then Inl ErrRecipientRequired
      else if n_channel n = ChannelEmail then
        (if parse_address L r then Inr (n\<lparr>n_recipient := r\<rparr>) else Inl ErrInvalidEmail)
      else if n_channel n = ChannelSMS then
        (if phone_match r then Inr (n\<lparr>n_recipient := r\<rparr>) else Inl ErrInvalidPhone)
      else if n_channel n = ChannelPush then Inr (n\<lparr>n_recipient := r\<rparr>)
      else Inl ErrChannelNotSet)"

definition SetContent :: "string \<Rightarrow> notification \<Rightarrow> notification result" where
  "SetContent s n = (if s = '''' then Inl ErrContentRequired else Inr (n\<lparr>n_content := s\<rparr>))"

definition SetPriority :: "priority \<Rightarrow> notification \<Rightarrow> notification result" where
  "SetPriority p n =
     (if p = PriorityHigh \<or> p = PriorityNormal \<or> p = PriorityLow
      then Inr (n\<lparr>n_priority := p\<rparr>) else Inl ErrInvalidPriority)"

definition SetDeliverAfter :: "time option \<Rightarrow> notification \<Rightarrow> notification" where
  "SetDeliverAfter t n = n\<lparr>n_deliverAfter := t\<rparr>"

definition SetMaxAttempts :: "int \<Rightarrow> notification \<Rightarrow> notification result" where
  "SetMaxAttempts v n =
     (if v \<le> 0 then Inl ErrInvalidMaxAttempts else Inr (n\<lparr>n_maxAttempts := v\<rparr>))"

text \<open>\<open>GetMaxAttempts\<close>: an unset number of attempts reads as 1.\<close>

definition GetMaxAttempts :: "notification \<Rightarrow> int" where
  "GetMaxAttempts n = (if n_maxAttempts n = 0 then 1 else n_maxAttempts n)"

section \<open>Status transitions\<close>

definition validTransitions :: "status \<Rightarrow> status list option" where
  "validTransitions st =
     (if st = StatusPending then Some [StatusDelivered, StatusFailed, StatusCancelled]
      else if st = StatusFailed then Some [StatusPending]
      else if st = StatusDelivered then Some []
      else if st = StatusCancelled then Some []
      else None)"

text \<open>
  \<open>strconv.Quote\<close> (the verb \<open>%q\<close>): ASCII as Go escapes it, the bytes of other runes unchanged
  (Go also escapes runes that are not printable; the text of an error is all that depends on it).
\<close>

definition hex_char :: "nat \<Rightarrow> char" where
  "hex_char d = (if d < 10 then digit_char d else char_of (87 + d))"

definition quote_char :: "char \<Rightarrow> string" where
  "quote_char c =
     (let b = (of_char c :: nat); bs = CHR 0x5C
      in if b = 34 \<or> b = 92 then [bs, c]
         else if b = 7 then [bs, CHR ''a''] else if b = 8 then [bs, CHR ''b'']
         else if b = 12 then [bs, CHR ''f''] else if b = 10 then [bs, CHR ''n'']
         else if b = 13 then [bs, CHR ''r''] else if b = 9 then [bs, CHR ''t'']
         else if b = 11 then [bs, CHR ''v'']
         else if b < 32 \<or> b = 127 then [bs, CHR ''x'', hex_char (b div 16), hex_char (b mod 16)]
         else [c])"

definition quote_text :: "string \<Rightarrow> string" where
  "quote_text s = [CHR 0x22] @ concat (map quote_char s) @ [CHR 0x22]"

definition arrow_text :: string where
  "arrow_text = '' '' @ [CHR 0xE2, CHR 0x86, CHR 0x92] @ '' ''"

definition Transition :: "status \<Rightarrow> notification \<Rightarrow> notification result" where
  "Transition to n =
     (if n_status n = to then Inr n
      else (case validTransitions (n_status n) of
              None \<Rightarrow> Inl (Wrap '''' ErrUnknownStatus ('': '' @ quote_text (n_status n)))
            | Some allowed \<Rightarrow>
                (if to \<in> set allowed then Inr (n\<lparr>n_status := to\<rparr>)
                 else Inl (Wrap '''' ErrInvalidTransition
                             ('': '' @ n_status n @ arrow_text @ to)))))"

text \<open>Which changes of status the table allows.\<close>

definition may_become :: "status \<Rightarrow> status \<Rightarrow> bool" where
  "may_become st to \<longleftrightarrow>
     st = to
     \<or> st = StatusPending \<and> to \<in> {StatusDelivered, StatusFailed, StatusCancelled}
     \<or> st = StatusFailed \<and> to = StatusPending"

definition terminal_status :: "status \<Rightarrow> bool" where
  "terminal_status st \<longleftrightarrow> st = StatusDelivered \<or> st = StatusCancelled"

lemma Transition_ok_iff: "is_ok (Transition to n) \<longleftrightarrow> may_become (n_status n) to"
  by (auto simp: Transition_def may_become_def validTransitions_def split: option.splits)

lemma Transition_Inr: "Transition to n = Inr n' \<Longrightarrow> n' = n\<lparr>n_status := to\<rparr>"
  by (auto simp: Transition_def split: if_splits option.splits)

lemma Transition_Inr_iff:
  "Transition to n = Inr n' \<longleftrightarrow> may_become (n_status n) to \<and> n' = n\<lparr>n_status := to\<rparr>"
proof
  assume T: "Transition to n = Inr n'"
  then have "is_ok (Transition to n)" by simp
  with Transition_Inr [OF T] show "may_become (n_status n) to \<and> n' = n\<lparr>n_status := to\<rparr>"
    by (simp add: Transition_ok_iff)
next
  assume A: "may_become (n_status n) to \<and> n' = n\<lparr>n_status := to\<rparr>"
  then obtain m where "Transition to n = Inr m"
    using Transition_ok_iff [of to n] by (auto elim: is_okE)
  with A Transition_Inr show "Transition to n = Inr n'" by fastforce
qed

lemma Transition_Inl:
  "Transition to n = Inl e \<Longrightarrow>
     (validTransitions (n_status n) = None \<and> errors_is e ErrUnknownStatus)
     \<or> (validTransitions (n_status n) \<noteq> None \<and> errors_is e ErrInvalidTransition)"
  by (auto simp: Transition_def errors_is_def domain_error_defs split: if_splits option.splits)

lemma terminal_stays: "terminal_status st \<Longrightarrow> may_become st to \<Longrightarrow> to = st"
  by (auto simp: terminal_status_def may_become_def)

lemma may_become_refl [simp]: "may_become st st"
  by (simp add: may_become_def)

text \<open>A sequence of requested transitions; a refused one leaves the notification as it is.\<close>

fun transitions :: "status list \<Rightarrow> notification \<Rightarrow> notification" where
  "transitions [] n = n"
| "transitions (to # tos) n =
     transitions tos (case Transition to n of Inl _ \<Rightarrow> n | Inr n' \<Rightarrow> n')"

lemma transitions_only_status:
  "transitions tos n = n\<lparr>n_status := n_status (transitions tos n)\<rparr>"
proof (induction tos arbitrary: n)
  case Nil
  then show ?case by simp
next
  case (Cons to tos)
  obtain m st where m: "(case Transition to n of Inl _ \<Rightarrow> n | Inr n' \<Rightarrow> n') = m"
    and st: "m = n\<lparr>n_status := st\<rparr>"
    by (cases "Transition to n") (auto dest!: Transition_Inr intro: that [where st = "n_status n"])
  have "transitions tos m = m\<lparr>n_status := n_status (transitions tos m)\<rparr>" by (rule Cons.IH)
  then show ?case unfolding transitions.simps m st by simp
qed

lemma step_status:
  "may_become (n_status n) (n_status (case Transition to n of Inl _ \<Rightarrow> n | Inr n' \<Rightarrow> n'))"
  by (simp add: Transition_Inr_iff split: sum.split)

lemma transitions_terminal:
  "terminal_status (n_status n) \<Longrightarrow> n_status (transitions tos n) = n_status n"
proof (induction tos arbitrary: n)
  case (Cons to tos)
  let ?m = "case Transition to n of Inl _ \<Rightarrow> n | Inr n' \<Rightarrow> n'"
  from Cons.prems step_status have "n_status ?m = n_status n"
    by (blast intro: terminal_stays)
  with Cons show ?case by simp
qed simp

lemma transitions_closed:
  "n_status n \<in> {StatusPending, StatusDelivered, StatusFailed, StatusCancelled} \<Longrightarrow>
   n_status (transitions tos n) \<in> {StatusPending, StatusDelivered, StatusFailed, StatusCancelled}"
proof (induction tos arbitrary: n)
  case (Cons to tos)
  let ?m = "case Transition to n of Inl _ \<Rightarrow> n | Inr n' \<Rightarrow> n'"
  from Cons.prems step_status [of n to]
  have "n_status ?m \<in> {StatusPending, StatusDelivered, StatusFailed, StatusCancelled}"
    by (auto simp: may_become_def)
  with Cons.IH show ?case by simp
qed simp

section \<open>What the setters establish\<close>

text \<open>The E.164 reading the comment on the expression gives.\<close>

definition e164 :: "string \<Rightarrow> bool" where
  "e164 r \<longleftrightarrow> (case r of [] \<Rightarrow> False
     | p # ds \<Rightarrow> p = CHR ''+'' \<and> 7 \<le> length ds \<and> length ds \<le> 15
         \<and> list_all is_digit ds \<and> hd ds \<noteq> CHR ''0'')"

lemma phone_match_e164: "phone_match r \<longleftrightarrow> e164 r"
proof (cases r rule: phone_match.cases)
  case (1 p d ds)
  then show ?thesis by (auto simp: e164_def)
qed (auto simp: e164_def)

definition valid_recipient :: "golib \<Rightarrow> channel \<Rightarrow> string \<Rightarrow> bool" where
  "valid_recipient L ch r \<longleftrightarrow> r \<noteq> '''' \<and>
     (ch = ChannelEmail \<and> parse_address L r \<or> ch = ChannelSMS \<and> e164 r \<or> ch = ChannelPush)"

text \<open>The invariant of a notification built by the setters.\<close>

definition valid_notification :: "golib \<Rightarrow> notification \<Rightarrow> bool" where
  "valid_notification L n \<longleftrightarrow>
     valid_recipient L (n_channel n) (n_recipient n)
     \<and> n_content n \<noteq> ''''
     \<and> n_priority n \<in> {PriorityHigh, PriorityNormal, PriorityLow}
     \<and> n_maxAttempts n \<ge> 0"

lemma SetChannel_Inr:
  "SetChannel ch n = Inr n' \<longleftrightarrow>
     ch \<in> {ChannelSMS, ChannelEmail, ChannelPush} \<and> n' = n\<lparr>n_channel := ch\<rparr>"
  by (auto simp: SetChannel_def)

lemma SetRecipient_Inr:
  "SetRecipient L r n = Inr n' \<longleftrightarrow> valid_recipient L (n_channel n) r \<and> n' = n\<lparr>n_recipient := r\<rparr>"
  by (auto simp: SetRecipient_def valid_recipient_def phone_match_e164)

lemma SetContent_Inr: "SetContent s n = Inr n' \<longleftrightarrow> s \<noteq> '''' \<and> n' = n\<lparr>n_content := s\<rparr>"
  by (auto simp: SetContent_def)

lemma SetPriority_Inr:
  "SetPriority p n = Inr n' \<longleftrightarrow>
     p \<in> {PriorityHigh, PriorityNormal, PriorityLow} \<and> n' = n\<lparr>n_priority := p\<rparr>"
  by (auto simp: SetPriority_def)

lemma SetMaxAttempts_Inr: "SetMaxAttempts v n = Inr n' \<longleftrightarrow> 0 < v \<and> n' = n\<lparr>n_maxAttempts := v\<rparr>"
  by (auto simp: SetMaxAttempts_def)

lemmas setter_Inr =
  SetChannel_Inr SetRecipient_Inr SetContent_Inr SetPriority_Inr SetMaxAttempts_Inr

text \<open>Every setter fails with a domain error only.\<close>

lemma setter_errors:
  "SetChannel ch n = Inl e \<Longrightarrow> as_domain e \<noteq> None"
  "SetRecipient L r n = Inl e \<Longrightarrow> as_domain e \<noteq> None"
  "SetContent s n = Inl e \<Longrightarrow> as_domain e \<noteq> None"
  "SetPriority p n = Inl e \<Longrightarrow> as_domain e \<noteq> None"
  "SetMaxAttempts v n = Inl e \<Longrightarrow> as_domain e \<noteq> None"
  by (auto simp: SetChannel_def SetRecipient_def SetContent_def SetPriority_def SetMaxAttempts_def
      domain_error_defs split: if_splits)

end
