(* ===== verification/Ports.thy ===== *)
theory Ports
  imports Domain "HOL-Library.Sublist"
begin

text \<open>
  The publishing interfaces of shared/messaging/publisher.go as dictionaries of operations over a
  world of type \<open>'w\<close> (a Go interface value is such a dictionary), and what they promise as locales.
  A world operation takes the world and returns its result and the next world. The lemmas a
  client of a publisher needs are proved once here; the NATS publisher interprets the locales.
\<close>

section \<open>Messages\<close>

text \<open>
  A context is represented by the trace carrier it holds (the keys and values the propagator
  writes into message headers).
\<close>

type_synonym trace = "(string \<times> string) list"

record nats_msg =
  nm_subject :: topic
  nm_header :: trace
  nm_data :: json

definition nats_message :: "topic \<Rightarrow> trace \<Rightarrow> json \<Rightarrow> nats_msg" where
  "nats_message t c j = \<lparr>nm_subject = t, nm_header = c, nm_data = j\<rparr>"

lemma nats_message_sel [simp]:
  "nm_subject (nats_message t c j) = t" "nm_header (nats_message t c j) = c"
  "nm_data (nats_message t c j) = j"
  by (simp_all add: nats_message_def)

lemma nats_message_inject [simp]:
  "nats_message t c j = nats_message t' c' j' \<longleftrightarrow> t = t' \<and> c = c' \<and> j = j'"
  by (auto simp: nats_message_def)

section \<open>Parts of a world\<close>

text \<open>An operation on a part of the world, as an operation on the whole.\<close>

definition on_part :: "('w \<Rightarrow> 's) \<Rightarrow> ('s \<Rightarrow> 'w \<Rightarrow> 'w) \<Rightarrow> ('s \<Rightarrow> 'a \<times> 's) \<Rightarrow> 'w \<Rightarrow> 'a \<times> 'w" where
  "on_part get put f w = (let (x, s) = f (get w) in (x, put s w))"

lemma on_part_eq: "on_part get put f w = (fst (f (get w)), put (snd (f (get w))) w)"
  by (simp add: on_part_def split_beta)

lemma on_partD:
  "on_part get put f w = (x, w') \<Longrightarrow> (\<And>s w. get (put s w) = s) \<Longrightarrow> f (get w) = (x, get w')"
  by (auto simp: on_part_eq prod_eq_iff)

lemma fst_on_part [simp]: "fst (on_part get put f w) = fst (f (get w))"
  by (simp add: on_part_eq)

lemma snd_on_part [simp]: "snd (on_part get put f w) = put (snd (f (get w))) w"
  by (simp add: on_part_eq)

section \<open>Publishers\<close>

record 'w publisher =
  pub_Publish :: "trace \<Rightarrow> topic \<Rightarrow> json \<Rightarrow> 'w \<Rightarrow> unit result \<times> 'w"

record 'w batch_publisher = "'w publisher" +
  pub_PublishBatch :: "trace \<Rightarrow> topic \<Rightarrow> (trace \<times> json) list \<Rightarrow> 'w \<Rightarrow> unit result \<times> 'w"

text \<open>
  What a publisher promises: a publish that returns no error has appended the message; one
  that returns an error has appended it or nothing (the acknowledgement may be what was lost).
\<close>

locale publisher_port =
  fixes publish :: "trace \<Rightarrow> topic \<Rightarrow> json \<Rightarrow> 'w \<Rightarrow> unit result \<times> 'w"
    and sent :: "'w \<Rightarrow> nats_msg list"
  assumes publish_ok:
      "publish c t j w = (Inr u, w') \<Longrightarrow> sent w' = sent w @ [nats_message t c j]"
    and publish_err:
      "publish c t j w = (Inl e, w') \<Longrightarrow>
         sent w' = sent w \<or> sent w' = sent w @ [nats_message t c j]"

text \<open>
  Publishing a list of messages one after the other, stopping at the first error, which is
  passed through \<open>wrap\<close>: the loop over the immediate notifications in \<open>CreateBatch\<close>.
\<close>

fun publish_each ::
  "(trace \<Rightarrow> topic \<Rightarrow> json \<Rightarrow> 'w \<Rightarrow> unit result \<times> 'w) \<Rightarrow> (go_error \<Rightarrow> go_error) \<Rightarrow> trace
   \<Rightarrow> (topic \<times> json) list \<Rightarrow> 'w \<Rightarrow> unit result \<times> 'w" where
  "publish_each publish wrap c [] w = (Inr (), w)"
| "publish_each publish wrap c ((t, j) # ms) w =
     (case publish c t j w of
        (Inl e, w') \<Rightarrow> (Inl (wrap e), w')
      | (Inr _, w') \<Rightarrow> publish_each publish wrap c ms w')"

context publisher_port
begin

lemma publish_appends:
  "publish c t j w = (r, w') \<Longrightarrow>
     \<exists>ms. sent w' = sent w @ ms \<and> (ms = [nats_message t c j] \<or> ms = [] \<and> \<not> is_ok r)"
  by (cases r) (auto dest: publish_ok publish_err)

lemma publish_each_ok:
  "publish_each publish wrap c ms w = (Inr u, w') \<Longrightarrow>
     sent w' = sent w @ map (\<lambda>(t, j). nats_message t c j) ms"
proof (induction ms arbitrary: w)
  case (Cons m ms)
  then show ?case
    by (cases m) (auto split: prod.splits sum.splits dest: publish_ok)
qed simp

lemma publish_each_err:
  "publish_each publish wrap c ms w = (Inl e, w') \<Longrightarrow>
     \<exists>pre. prefix pre ms \<and> sent w' = sent w @ map (\<lambda>(t, j). nats_message t c j) pre"
proof (induction ms arbitrary: w)
  case (Cons m ms)
  obtain t j where m: "m = (t, j)" by (cases m)
  show ?case
  proof (cases "publish c t j w")
    case (Pair r w1)
    show ?thesis
    proof (cases r)
      case (Inl e1)
      with Cons.prems m Pair have "w' = w1" by simp
      with publish_err Pair Inl
      have "sent w' = sent w \<or> sent w' = sent w @ [nats_message t c j]" by blast
      then show ?thesis
      proof
        assume "sent w' = sent w"
        then show ?thesis by (intro exI [of _ "[]"]) simp
      next
        assume "sent w' = sent w @ [nats_message t c j]"
        then show ?thesis by (intro exI [of _ "[m]"]) (simp add: m)
      qed
    next
      case (Inr x)
      with Pair have s1: "sent w1 = sent w @ [nats_message t c j]" by (simp add: publish_ok)
      from Cons.prems m Pair Inr have "publish_each publish wrap c ms w1 = (Inl e, w')" by simp
      from Cons.IH [OF this] obtain pre where "prefix pre ms"
        "sent w' = sent w1 @ map (\<lambda>(t, j). nats_message t c j) pre" by blast
      with s1 m show ?thesis by (intro exI [of _ "m # pre"]) simp
    qed
  qed
qed simp

end

text \<open>A publisher on a part of the world is a publisher on the world.\<close>

lemma publisher_port_on_part:
  assumes P: "publisher_port publish sent" and put: "\<And>s w. get (put s w) = s"
  shows "publisher_port (\<lambda>c t j. on_part get put (publish c t j)) (\<lambda>w. sent (get w))"
proof
  fix c t j w u w'
  assume "on_part get put (publish c t j) w = (Inr u, w')"
  then have "publish c t j (get w) = (Inr u, get w')"
    by (auto simp: on_part_eq put prod_eq_iff)
  then show "sent (get w') = sent (get w) @ [nats_message t c j]"
    by (rule publisher_port.publish_ok [OF P])
next
  fix c t j w e w'
  assume "on_part get put (publish c t j) w = (Inl e, w')"
  then have "publish c t j (get w) = (Inl e, get w')"
    by (auto simp: on_part_eq put prod_eq_iff)
  then show "sent (get w') = sent (get w) \<or> sent (get w') = sent (get w) @ [nats_message t c j]"
    by (rule publisher_port.publish_err [OF P])
qed

text \<open>
  The pipelined publisher. Without error all messages are appended in order; with an error some
  of them are, in order.
\<close>

locale batch_publisher_port = publisher_port publish sent
  for publish :: "trace \<Rightarrow> topic \<Rightarrow> json \<Rightarrow> 'w \<Rightarrow> unit result \<times> 'w"
    and sent :: "'w \<Rightarrow> nats_msg list" +
  fixes publish_batch :: "trace \<Rightarrow> topic \<Rightarrow> (trace \<times> json) list \<Rightarrow> 'w \<Rightarrow> unit result \<times> 'w"
  assumes publish_batch_ok:
      "publish_batch c t ms w = (Inr u, w') \<Longrightarrow>
         sent w' = sent w @ map (\<lambda>(c, j). nats_message t c j) ms"
    and publish_batch_err:
      "publish_batch c t ms w = (Inl e, w') \<Longrightarrow>
         \<exists>ms'. subseq ms' ms \<and> sent w' = sent w @ map (\<lambda>(c, j). nats_message t c j) ms'"

lemma batch_publisher_port_on_part:
  assumes P: "batch_publisher_port publish sent publish_batch" and put: "\<And>s w. get (put s w) = s"
  shows "batch_publisher_port (\<lambda>c t j. on_part get put (publish c t j)) (\<lambda>w. sent (get w))
           (\<lambda>c t ms. on_part get put (publish_batch c t ms))"
proof (intro batch_publisher_port.intro batch_publisher_port_axioms.intro)
  show "publisher_port (\<lambda>c t j. on_part get put (publish c t j)) (\<lambda>w. sent (get w))"
    using P put by (intro publisher_port_on_part) (simp_all add: batch_publisher_port.axioms(1))
next
  fix c t ms w u w'
  assume "on_part get put (publish_batch c t ms) w = (Inr u, w')"
  then have "publish_batch c t ms (get w) = (Inr u, get w')"
    by (auto simp: on_part_eq put prod_eq_iff)
  then show "sent (get w') = sent (get w) @ map (\<lambda>(c, j). nats_message t c j) ms"
    by (rule batch_publisher_port.publish_batch_ok [OF P])
next
  fix c t ms w e w'
  assume "on_part get put (publish_batch c t ms) w = (Inl e, w')"
  then have "publish_batch c t ms (get w) = (Inl e, get w')"
    by (auto simp: on_part_eq put prod_eq_iff)
  then show "\<exists>ms'. subseq ms' ms \<and>
      sent (get w') = sent (get w) @ map (\<lambda>(c, j). nats_message t c j) ms'"
    by (rule batch_publisher_port.publish_batch_err [OF P])
qed

end
