(* ===== verification/HttpBase.thy ===== *)
theory HttpBase
  imports Ports "HOL-Library.AList" "HOL-Library.List_Lexorder" "HOL-Library.Char_ord"
begin

text \<open>
  The package shared/handler: the response writer with the logging wrapper, \<open>WriteJSON\<close>,
  \<open>DecodeBody\<close>, the error handler that turns a returned error into a response, the health
  endpoints and the route table an \<open>AppRouter\<close> collects. Dispatching a request to a route is the
  router library's and is not modelled.
\<close>

section \<open>Requests and responses\<close>

text \<open>
  A request as the handlers read it: \<open>hr_param\<close> is \<open>chi.URLParam\<close>, \<open>hr_query\<close> is \<open>URL.Query().Get\<close>
  (the empty string for a missing key), \<open>hr_body\<close> what the JSON decoder finds in the body: its
  first value, or the decoder's error.
\<close>

record http_req =
  hr_ctx :: trace
  hr_method :: string
  hr_path :: string
  hr_param :: "string \<Rightarrow> string"
  hr_query :: "string \<Rightarrow> string"
  hr_body :: "json result"

text \<open>
  The writer of middleware.go around the server's: \<open>wr_sent\<close> is the status line once it is on the
  wire (a later \<open>WriteHeader\<close> of the server is ignored), \<open>wr_status\<close> what the wrapper remembers.
\<close>

record writer =
  wr_header :: "(string \<times> string) list"
  wr_sent :: "int option"
  wr_status :: int
  wr_body :: "json list"

definition fresh_writer :: writer where
  "fresh_writer = \<lparr>wr_header = [], wr_sent = None, wr_status = 200, wr_body = []\<rparr>"

definition set_header :: "string \<Rightarrow> string \<Rightarrow> writer \<Rightarrow> writer" where
  "set_header k v w = w\<lparr>wr_header := AList.update k v (wr_header w)\<rparr>"

definition WriteHeader :: "int \<Rightarrow> writer \<Rightarrow> writer" where
  "WriteHeader code w = w\<lparr>wr_status := code,
     wr_sent := (case wr_sent w of None \<Rightarrow> Some code | Some c \<Rightarrow> Some c)\<rparr>"

definition write_body :: "json \<Rightarrow> writer \<Rightarrow> writer" where
  "write_body j w = w\<lparr>wr_body := wr_body w @ [j],
     wr_sent := (case wr_sent w of None \<Rightarrow> Some 200 | Some c \<Rightarrow> Some c)\<rparr>"

definition WriteJSON :: "int \<Rightarrow> json \<Rightarrow> writer \<Rightarrow> writer" where
  "WriteJSON status body w =
     write_body body (WriteHeader status (set_header ''Content-Type'' ''application/json'' w))"

text \<open>\<open>DecodeBody[T]\<close>, with the rules of the target type as a decoder.\<close>

definition DecodeBody :: "(json \<Rightarrow> 'a result) \<Rightarrow> http_req \<Rightarrow> 'a result" where
  "DecodeBody dec r = (case hr_body r of Inl e \<Rightarrow> Inl e | Inr j \<Rightarrow> dec j)"

section \<open>Handlers\<close>

text \<open>A handler returns nil or an error, or panics (a run-time error of the language).\<close>

datatype outcome = Returned "go_error option" | Panicked string

type_synonym 'w app_handler = "http_req \<Rightarrow> writer \<Rightarrow> 'w \<Rightarrow> (outcome \<times> writer) \<times> 'w"

text \<open>A plain \<open>http.HandlerFunc\<close>; the option is the panic it ends with.\<close>

type_synonym 'w handler_func = "http_req \<Rightarrow> writer \<Rightarrow> 'w \<Rightarrow> (string option \<times> writer) \<times> 'w"

definition field_error_to_json :: "field_error \<Rightarrow> json" where
  "field_error_to_json fe = JObj [(''field'', JStr (fst fe)), (''message'', JStr (snd fe))]"

record error_body =
  eb_Code :: string
  eb_Message :: string
  eb_Details :: "json option"

definition error_body_to_json :: "error_body \<Rightarrow> json" where
  "error_body_to_json b = JObj ([(''code'', JStr (eb_Code b)), (''message'', JStr (eb_Message b))]
     @ (case eb_Details b of None \<Rightarrow> [] | Some d \<Rightarrow> [(''details'', d)]))"

definition writeError :: "int \<Rightarrow> string \<Rightarrow> string \<Rightarrow> json option \<Rightarrow> writer \<Rightarrow> writer" where
  "writeError status code message details w = WriteJSON status
     (JObj [(''error'', error_body_to_json
        \<lparr>eb_Code = code, eb_Message = message, eb_Details = details\<rparr>)]) w"

text \<open>The body of \<open>errHandler\<close> for an error: the first type that matches decides.\<close>

definition render_error :: "go_error \<Rightarrow> writer \<Rightarrow> writer" where
  "render_error e w =
     (case errors_as as_not_found e of
        Some m \<Rightarrow> writeError 404 ''NOT_FOUND'' m None w
      | None \<Rightarrow>
     (case errors_as as_conflict e of
        Some m \<Rightarrow> writeError 409 ''CONFLICT'' m None w
      | None \<Rightarrow>
     (case errors_as as_domain e of
        Some (c, m) \<Rightarrow> writeError 422 c m None w
      | None \<Rightarrow>
     (case errors_as as_validation e of
        Some fds \<Rightarrow> writeError 422 ''VALIDATION_ERROR'' ''validation failed''
          (Some (JArr (map field_error_to_json fds))) w
      | None \<Rightarrow>
          if errors_as as_json_error e \<noteq> None \<or> e = EOF \<or> e = UnexpectedEOF
          then writeError 422 ''VALIDATION_ERROR'' ''invalid request body'' None w
          else writeError 500 ''INTERNAL_ERROR'' (err_text e) None w))))"

definition errHandler :: "'w app_handler \<Rightarrow> 'w handler_func" where
  "errHandler h r w s =
     (case h r w s of
        ((Panicked msg, w1), s1) \<Rightarrow> ((Some msg, w1), s1)
      | ((Returned None, w1), s1) \<Rightarrow> ((None, w1), s1)
      | ((Returned (Some e), w1), s1) \<Rightarrow> ((None, render_error e w1), s1))"

text \<open>
  The logging middleware: one line before the handler and one after it, with the status the
  wrapper remembers (a panic skips the second line). The latency is left out.
\<close>

datatype log_line = LogRequest string string | LogResponse string string int

definition requestLogger ::
  "'w handler_func \<Rightarrow> http_req \<Rightarrow> writer \<Rightarrow> 'w \<Rightarrow> (string option \<times> writer \<times> log_line list) \<times> 'w" where
  "requestLogger next r w s =
     (case next r (w\<lparr>wr_status := 200\<rparr>) s of
        ((None, w1), s1) \<Rightarrow>
          ((None, w1, [LogRequest (hr_method r) (hr_path r),
             LogResponse (hr_method r) (hr_path r) (wr_status w1)]), s1)
      | ((Some p, w1), s1) \<Rightarrow> ((Some p, w1, [LogRequest (hr_method r) (hr_path r)]), s1))"

section \<open>Health\<close>

record 'w readiness_checker =
  rc_Name :: string
  rc_Check :: "trace \<Rightarrow> 'w \<Rightarrow> go_error option \<times> 'w"

text \<open>\<open>encoding/json\<close> writes a map with its keys sorted; an empty map is omitted.\<close>

definition health_to_json :: "string \<Rightarrow> (string \<times> string) list \<Rightarrow> json" where
  "health_to_json status checks = JObj ((''status'', JStr status) #
     (if checks = [] then []
      else [(''checks'', JObj (map (\<lambda>(k, v). (k, JStr v)) (sort_key fst checks)))]))"

definition livenessCheck :: "'w handler_func" where
  "livenessCheck r w s = ((None, WriteJSON 200 (health_to_json ''ok'' []) w), s)"

text \<open>The loop over the probes: the map of outcomes and whether one failed.\<close>

fun run_checks ::
  "'w readiness_checker list \<Rightarrow> trace \<Rightarrow> (string \<times> string) list \<Rightarrow> bool \<Rightarrow> 'w
   \<Rightarrow> ((string \<times> string) list \<times> bool) \<times> 'w" where
  "run_checks [] ctx checks degraded s = ((checks, degraded), s)"
| "run_checks (c # cs) ctx checks degraded s =
     (case rc_Check c ctx s of
        (Some e, s1) \<Rightarrow> run_checks cs ctx (AList.update (rc_Name c) (''error: '' @ err_text e) checks) True s1
      | (None, s1) \<Rightarrow> run_checks cs ctx (AList.update (rc_Name c) ''ok'' checks) degraded s1)"

definition readinessCheck :: "'w readiness_checker list \<Rightarrow> 'w handler_func" where
  "readinessCheck checkers r w s =
     (if checkers = [] then ((None, WriteJSON 200 (health_to_json ''ok'' []) w), s)
      else (case run_checks checkers (hr_ctx r) [] False s of
              ((checks, degraded), s1) \<Rightarrow>
                if degraded then ((None, WriteJSON 503 (health_to_json ''degraded'' checks) w), s1)
                else ((None, WriteJSON 200 (health_to_json ''ok'' checks) w), s1)))"

section \<open>Routes\<close>

text \<open>
  An \<open>AppRouter\<close> registers method, pattern and handler; \<open>Route\<close> mounts what the function registers
  under a prefix. The order is the order of registration.
\<close>

record 'w route =
  rt_method :: string
  rt_pattern :: string
  rt_handler :: "'w handler_func"

type_synonym 'w app_router = "'w route list"

definition register :: "string \<Rightarrow> string \<Rightarrow> 'w handler_func \<Rightarrow> 'w app_router \<Rightarrow> 'w app_router" where
  "register m p h rs = rs @ [\<lparr>rt_method = m, rt_pattern = p, rt_handler = h\<rparr>]"

definition router_Get :: "string \<Rightarrow> 'w app_handler \<Rightarrow> 'w app_router \<Rightarrow> 'w app_router" where
  "router_Get path h = register ''GET'' path (errHandler h)"

definition router_Post :: "string \<Rightarrow> 'w app_handler \<Rightarrow> 'w app_router \<Rightarrow> 'w app_router" where
  "router_Post path h = register ''POST'' path (errHandler h)"

definition router_Put :: "string \<Rightarrow> 'w app_handler \<Rightarrow> 'w app_router \<Rightarrow> 'w app_router" where
  "router_Put path h = register ''PUT'' path (errHandler h)"

definition router_Delete :: "string \<Rightarrow> 'w app_handler \<Rightarrow> 'w app_router \<Rightarrow> 'w app_router" where
  "router_Delete path h = register ''DELETE'' path (errHandler h)"

definition router_Patch :: "string \<Rightarrow> 'w app_handler \<Rightarrow> 'w app_router \<Rightarrow> 'w app_router" where
  "router_Patch path h = register ''PATCH'' path (errHandler h)"

definition router_Route ::
  "string \<Rightarrow> ('w app_router \<Rightarrow> 'w app_router) \<Rightarrow> 'w app_router \<Rightarrow> 'w app_router" where
  "router_Route path fn rs =
     rs @ map (\<lambda>rt. rt\<lparr>rt_pattern := path @ rt_pattern rt\<rparr>) (fn [])"

record 'w handler_opts =
  ho_RegisterRoutesFunc :: "('w app_router \<Rightarrow> 'w app_router) option"
  ho_ReadinessChecks :: "'w readiness_checker list"
  ho_OTelServiceName :: string

text \<open>
  \<open>NewHandler\<close>: the documentation pages are the third-party handler \<open>docs\<close>; the wrapper of the
  tracing library, when a service name is set, only adds spans and is left out.
\<close>

definition NewHandler :: "'w handler_func \<Rightarrow> 'w handler_opts \<Rightarrow> 'w app_router" where
  "NewHandler docs opts =
     (let mux = register ''GET'' ''/api/v1/readiness'' (readinessCheck (ho_ReadinessChecks opts))
                  (register ''GET'' ''/api/v1/liveness'' livenessCheck
                    (register ''GET'' ''/api/v1/docs/*'' docs []))
      in case ho_RegisterRoutesFunc opts of None \<Rightarrow> mux | Some fn \<Rightarrow> fn mux)"

section \<open>One response\<close>

text \<open>A writer after exactly one JSON response.\<close>

definition answered :: "int \<Rightarrow> json \<Rightarrow> writer \<Rightarrow> bool" where
  "answered code body w \<longleftrightarrow> wr_sent w = Some code \<and> wr_status w = code \<and> wr_body w = [body]
     \<and> map_of (wr_header w) ''Content-Type'' = Some ''application/json''"

lemma WriteJSON_answered: "wr_sent w = None \<Longrightarrow> wr_body w = [] \<Longrightarrow> answered code body (WriteJSON code body w)"
  by (simp add: WriteJSON_def write_body_def WriteHeader_def set_header_def answered_def update_conv')

lemma WriteJSON_fresh [simp]: "answered code body (WriteJSON code body fresh_writer)"
  by (rule WriteJSON_answered) (simp_all add: fresh_writer_def)

definition error_json :: "string \<Rightarrow> string \<Rightarrow> json option \<Rightarrow> json" where
  "error_json code message details =
     JObj [(''error'', error_body_to_json \<lparr>eb_Code = code, eb_Message = message, eb_Details = details\<rparr>)]"

lemma writeError_fresh [simp]:
  "answered status (error_json code message details) (writeError status code message details fresh_writer)"
  by (simp add: writeError_def error_json_def)

end
