(* ===== verification/Nats.thy ===== *)
theory Nats
  imports Ports
begin

text \<open>
  shared/messaging/nats: the JetStream publisher (publisher.go), the decoding of a fetched message
  and the two pull subscriptions (subscriber.go), and the loops that feed a handler (foreach.go).
  The broker's answers to publishes are a tape, what a fetch returns and when the context is
  cancelled are inputs.
\<close>

section \<open>Publishing\<close>

text \<open>
  The broker's answer to one publish: acknowledged; an error, with the message stored or not;
  or refused on the client's side before anything was sent.
\<close>

datatype pub_reply = PubAck | PubError string bool | PubRefused string

text \<open>
  The stream's messages in the order they were stored, the answers to come, and for each batch
  whether waiting for the acknowledgements ended by completion (not by the context).
\<close>

record nats =
  na_log :: "nats_msg list"
  na_replies :: "pub_reply tape"
  na_waits :: "bool tape"

definition store_msg :: "nats_msg \<Rightarrow> nats \<Rightarrow> nats" where
  "store_msg m s = s\<lparr>na_log := na_log s @ [m]\<rparr>"

definition next_reply :: "nats \<Rightarrow> pub_reply \<times> nats" where
  "next_reply s = (tape_read (na_replies s), s\<lparr>na_replies := tape_next (na_replies s)\<rparr>)"

definition Publish :: "trace \<Rightarrow> topic \<Rightarrow> json \<Rightarrow> nats \<Rightarrow> unit result \<times> nats" where
  "Publish c t j s =
     (let m = nats_message t c j; (reply, s1) = next_reply s
      in case reply of
           PubAck \<Rightarrow> (Inr (), store_msg m s1)
         | PubError msg stored \<Rightarrow> (Inl (Opaque msg), if stored then store_msg m s1 else s1)
         | PubRefused msg \<Rightarrow> (Inl (Opaque msg), s1))"

text \<open>
  The first loop of \<open>PublishBatch\<close>: one asynchronous publish per message, the futures' errors
  collected in order; a refused publish ends it.
\<close>

fun publish_async ::
  "topic \<Rightarrow> (trace \<times> json) list \<Rightarrow> nats \<Rightarrow> (go_error option list) result \<times> nats" where
  "publish_async t [] s = (Inr [], s)"
| "publish_async t ((c, j) # ms) s =
     (let m = nats_message t c j; (reply, s1) = next_reply s
      in case reply of
           PubRefused msg \<Rightarrow> (Inl (Wrap ''nats async publish: '' (Opaque msg) ''''), s1)
         | PubAck \<Rightarrow>
             (case publish_async t ms (store_msg m s1) of
                (Inl e, s2) \<Rightarrow> (Inl e, s2)
              | (Inr fs, s2) \<Rightarrow> (Inr (None # fs), s2))
         | PubError msg stored \<Rightarrow>
             (case publish_async t ms (if stored then store_msg m s1 else s1) of
                (Inl e, s2) \<Rightarrow> (Inl e, s2)
              | (Inr fs, s2) \<Rightarrow> (Inr (Some (Opaque msg) # fs), s2)))"

definition PublishBatch :: "trace \<Rightarrow> topic \<Rightarrow> (trace \<times> json) list \<Rightarrow> nats \<Rightarrow> unit result \<times> nats" where
  "PublishBatch c t ms s =
     (if ms = [] then (Inr (), s)
      else (case publish_async t ms s of
              (Inl e, s1) \<Rightarrow> (Inl e, s1)
            | (Inr futures, s1) \<Rightarrow>
                (let s2 = s1\<lparr>na_waits := tape_next (na_waits s1)\<rparr>
                 in if \<not> tape_read (na_waits s1) then (Inl ContextCanceled, s2)
                    else (case errors_join (somes futures) of
                            None \<Rightarrow> (Inr (), s2)
                          | Some e \<Rightarrow> (Inl e, s2)))))"

definition nats_publisher :: "nats batch_publisher" where
  "nats_publisher = \<lparr>pub_Publish = Publish, pub_PublishBatch = PublishBatch\<rparr>"

lemma log_store_msg [world_simps]: "na_log (store_msg m s) = na_log s @ [m]"
  by (simp add: store_msg_def)

lemma log_next_reply [world_simps]: "next_reply s = (r, s1) \<Longrightarrow> na_log s1 = na_log s"
  by (auto simp: next_reply_def)

lemma Publish_log:
  "Publish c t j s = (r, s') \<Longrightarrow>
     na_log s' = na_log s @ [nats_message t c j] \<or> (\<not> is_ok r \<and> na_log s' = na_log s)"
  by (auto simp: Publish_def Let_def next_reply_def log_store_msg
      split: prod.splits pub_reply.splits if_splits)

lemma publish_async_log:
  "publish_async t ms s = (r, s') \<Longrightarrow>
     \<exists>ms'. subseq ms' ms \<and> na_log s' = na_log s @ map (\<lambda>(c, j). nats_message t c j) ms'
       \<and> (\<forall>fs. r = Inr fs \<longrightarrow> somes fs = [] \<longrightarrow> ms' = ms)"
proof (induction ms arbitrary: s r s')
  case (Cons m ms)
  obtain c j where m: "m = (c, j)" by (cases m)
  obtain reply s1 where n: "next_reply s = (reply, s1)" by (cases "next_reply s")
  have l1: "na_log s1 = na_log s" using n by (rule log_next_reply)
  show ?case
  proof (cases reply)
    case PubAck
    obtain r2 s2 where rec: "publish_async t ms (store_msg (nats_message t c j) s1) = (r2, s2)"
      by (cases "publish_async t ms (store_msg (nats_message t c j) s1)")
    from Cons.IH [OF rec] obtain ms' where ms': "subseq ms' ms"
      "na_log s2 = na_log s @ nats_message t c j # map (\<lambda>(c, j). nats_message t c j) ms'"
      "\<forall>fs. r2 = Inr fs \<longrightarrow> somes fs = [] \<longrightarrow> ms' = ms"
      by (auto simp: log_store_msg l1)
    have "s' = s2" and r: "\<And>fs. r = Inr fs \<Longrightarrow> \<exists>fs2. r2 = Inr fs2 \<and> somes fs2 = somes fs"
      using Cons.prems m n PubAck rec by (auto split: sum.splits)
    then have "na_log s' = na_log s @ map (\<lambda>(c, j). nats_message t c j) (m # ms')" using ms'(2) m by simp
    moreover have "\<forall>fs. r = Inr fs \<longrightarrow> somes fs = [] \<longrightarrow> m # ms' = m # ms" using r ms'(3) by fastforce
    moreover have "subseq (m # ms') (m # ms)" using ms'(1) by simp
    ultimately show ?thesis by blast
  next
    case (PubError msg stored)
    let ?s = "if stored then store_msg (nats_message t c j) s1 else s1"
    obtain r2 s2 where rec: "publish_async t ms ?s = (r2, s2)" by (cases "publish_async t ms ?s")
    from Cons.IH [OF rec] obtain ms' where ms': "subseq ms' ms"
      "na_log s2 = na_log ?s @ map (\<lambda>(c, j). nats_message t c j) ms'" by blast
    have "s' = s2" and r: "\<And>fs. r = Inr fs \<Longrightarrow> somes fs \<noteq> []"
      using Cons.prems m n PubError rec by (auto split: sum.splits)
    show ?thesis
    proof (cases stored)
      case True
      with ms' l1 m \<open>s' = s2\<close> r show ?thesis
        by (intro exI [of _ "m # ms'"]) (simp add: log_store_msg)
    next
      case False
      with ms' l1 m \<open>s' = s2\<close> r show ?thesis
        by (intro exI [of _ ms']) (simp add: list_emb_Cons)
    qed
  next
    case (PubRefused msg)
    with Cons.prems m n l1 show ?thesis by (intro exI [of _ "[]"]) auto
  qed
qed (auto)

interpretation nats_pub: batch_publisher_port Publish na_log PublishBatch
proof
  fix c t j s u s'
  assume "Publish c t j s = (Inr u, s')"
  then show "na_log s' = na_log s @ [nats_message t c j]" using Publish_log by fastforce
next
  fix c t j s e s'
  assume "Publish c t j s = (Inl e, s')"
  then show "na_log s' = na_log s \<or> na_log s' = na_log s @ [nats_message t c j]"
    using Publish_log by blast
next
  fix c t ms s u s'
  assume "PublishBatch c t ms s = (Inr u, s')"
  then show "na_log s' = na_log s @ map (\<lambda>(c, j). nats_message t c j) ms"
    by (auto simp: PublishBatch_def Let_def errors_join_def dest!: publish_async_log
        split: if_splits prod.splits sum.splits option.splits)
next
  fix c t ms s e s'
  assume "PublishBatch c t ms s = (Inl e, s')"
  then show "\<exists>ms'. subseq ms' ms \<and> na_log s' = na_log s @ map (\<lambda>(c, j). nats_message t c j) ms'"
    by (auto simp: PublishBatch_def Let_def dest!: publish_async_log
        split: if_splits prod.splits sum.splits option.splits)
qed

end
