(* ===== verification/NotifStore.thy ===== *)
theory NotifStore
  imports Nats
begin

text \<open>
  The package api/internal/db: the entity of the table notifications, the list filter, the
  repository interface as a dictionary, and what the interface promises as a locale, over the
  partial map from identifiers to stored entities.
\<close>

section \<open>Entities\<close>

record nrow =
  r_ID :: uuid
  r_CreatedAt :: time
  r_UpdatedAt :: time
  r_BatchID :: "uuid option"
  r_Recipient :: string
  r_Channel :: string
  r_Content :: string
  r_Priority :: string
  r_Status :: string
  r_DeliverAfter :: "time option"
  r_MaxAttempts :: int

text \<open>
  Fresh identifiers (shared/bun \<open>NewIDModel\<close>, which calls \<open>uuid.NewV7\<close> and may fail, and
  \<open>uuid.New\<close>) are read from tapes of a world.
\<close>

record 'w idgen =
  ids_NewV7 :: "'w \<Rightarrow> uuid result \<times> 'w"
  ids_New :: "'w \<Rightarrow> uuid \<times> 'w"

definition NewIDModel :: "'w idgen \<Rightarrow> 'w \<Rightarrow> uuid result \<times> 'w" where
  "NewIDModel G w = (case ids_NewV7 G w of (Inl e, w') \<Rightarrow> (Inl e, w') | (Inr i, w') \<Rightarrow> (Inr i, w'))"

text \<open>The row \<open>From\<close> builds around an identifier; the timestamps are left zero.\<close>

definition row_of :: "notification \<Rightarrow> uuid option \<Rightarrow> uuid \<Rightarrow> nrow" where
  "row_of n batchID i = \<lparr>
     r_ID = i, r_CreatedAt = zero_time, r_UpdatedAt = zero_time, r_BatchID = batchID,
     r_Recipient = n_recipient n, r_Channel = n_channel n, r_Content = n_content n,
     r_Priority = n_priority n, r_Status = StatusPending, r_DeliverAfter = n_deliverAfter n,
     r_MaxAttempts = GetMaxAttempts n\<rparr>"

definition From_notification ::
  "'w idgen \<Rightarrow> notification \<Rightarrow> uuid option \<Rightarrow> 'w \<Rightarrow> nrow result \<times> 'w" where
  "From_notification G n batchID w =
     (case NewIDModel G w of
        (Inl e, w') \<Rightarrow> (Inl e, w')
      | (Inr i, w') \<Rightarrow> (Inr (row_of n batchID i), w'))"

definition ToDomain :: "nrow \<Rightarrow> notification" where
  "ToDomain r = New_notification (r_Channel r) (r_Recipient r) (r_Content r) (r_Priority r)
     (r_Status r) (r_DeliverAfter r) (r_MaxAttempts r)"

text \<open>\<open>NotificationReadyEvent.From\<close> of api/public/events.go, through the entity's getters.\<close>

definition ready_From :: "golib \<Rightarrow> nrow \<Rightarrow> ready_event" where
  "ready_From L r = \<lparr>
     re_NotificationID = uuid_text L (r_ID r), re_Channel = r_Channel r,
     re_Recipient = r_Recipient r, re_Content = r_Content r, re_Priority = r_Priority r,
     re_MaxAttempts = r_MaxAttempts r\<rparr>"

lemma ToDomain_sel [simp]:
  "n_status (ToDomain r) = r_Status r" "n_channel (ToDomain r) = r_Channel r"
  "n_priority (ToDomain r) = r_Priority r" "n_maxAttempts (ToDomain r) = r_MaxAttempts r"
  by (simp_all add: ToDomain_def New_notification_def)

lemma ToDomain_row_of:
  "0 < n_maxAttempts n \<Longrightarrow> ToDomain (row_of n b i) = n\<lparr>n_status := StatusPending\<rparr>"
  by (simp add: ToDomain_def New_notification_def row_of_def GetMaxAttempts_def)

section \<open>List filter\<close>

record list_filter =
  lf_Status :: string
  lf_Channel :: string
  lf_BatchID :: "uuid option"
  lf_DateFrom :: "time option"
  lf_DateTo :: "time option"
  lf_PageSize :: int
  lf_CursorID :: "uuid option"
  lf_Page :: int
  lf_Sort :: string
  lf_Order :: string

section \<open>The repository interface\<close>

text \<open>
  Operations that fill in database defaults return the entity as the caller sees it afterwards.
\<close>

record 'w notif_repo =
  repo_Create :: "nrow \<Rightarrow> 'w \<Rightarrow> nrow result \<times> 'w"
  repo_CreateBatch :: "nrow list \<Rightarrow> 'w \<Rightarrow> nrow list result \<times> 'w"
  repo_GetByID :: "uuid \<Rightarrow> 'w \<Rightarrow> nrow result \<times> 'w"
  repo_GetByIDs :: "uuid list \<Rightarrow> 'w \<Rightarrow> nrow list result \<times> 'w"
  repo_List :: "list_filter \<Rightarrow> 'w \<Rightarrow> (nrow list \<times> int \<times> uuid option) result \<times> 'w"
  repo_UpdateStatus :: "uuid \<Rightarrow> status \<Rightarrow> 'w \<Rightarrow> nrow result \<times> 'w"
  repo_FindScheduledDue :: "'w \<Rightarrow> nrow list result \<times> 'w"

text \<open>Two rows that differ in their timestamps only.\<close>

definition same_but_times :: "nrow \<Rightarrow> nrow \<Rightarrow> bool" where
  "same_but_times r r' \<longleftrightarrow>
     r' = r\<lparr>r_CreatedAt := r_CreatedAt r', r_UpdatedAt := r_UpdatedAt r'\<rparr>"

lemma same_but_times_refl [simp]: "same_but_times r r"
  by (simp add: same_but_times_def)

lemma same_but_timesD:
  assumes "same_but_times r r'"
  shows "r_ID r' = r_ID r" "r_BatchID r' = r_BatchID r" "r_Recipient r' = r_Recipient r"
    "r_Channel r' = r_Channel r" "r_Content r' = r_Content r" "r_Priority r' = r_Priority r"
    "r_Status r' = r_Status r" "r_DeliverAfter r' = r_DeliverAfter r"
    "r_MaxAttempts r' = r_MaxAttempts r"
proof -
  from assms obtain c u where "r' = r\<lparr>r_CreatedAt := c, r_UpdatedAt := u\<rparr>"
    unfolding same_but_times_def by blast
  then show "r_ID r' = r_ID r" "r_BatchID r' = r_BatchID r" "r_Recipient r' = r_Recipient r"
    "r_Channel r' = r_Channel r" "r_Content r' = r_Content r" "r_Priority r' = r_Priority r"
    "r_Status r' = r_Status r" "r_DeliverAfter r' = r_DeliverAfter r"
    "r_MaxAttempts r' = r_MaxAttempts r" by simp_all
qed

lemma ready_From_same: "same_but_times r r' \<Longrightarrow> ready_From L r' = ready_From L r"
  by (simp add: ready_From_def same_but_timesD)

locale notif_store =
  fixes R :: "'w notif_repo"
    and stored :: "'w \<Rightarrow> uuid \<Rightarrow> nrow option"
    and keyed :: "'w \<Rightarrow> bool"
  assumes create_ok:
      "keyed w \<Longrightarrow> repo_Create R r w = (Inr r', w') \<Longrightarrow>
         same_but_times r r' \<and> stored w (r_ID r) = None \<and> stored w' = (stored w)(r_ID r \<mapsto> r')"
    and create_err: "repo_Create R r w = (Inl e, w') \<Longrightarrow> stored w' = stored w"
    and create_batch_ok:
      "keyed w \<Longrightarrow> repo_CreateBatch R rs w = (Inr rs', w') \<Longrightarrow>
         list_all2 same_but_times rs rs' \<and> distinct (map r_ID rs)
         \<and> (\<forall>r \<in> set rs. stored w (r_ID r) = None)
         \<and> stored w' = stored w ++ map_of (map (\<lambda>r. (r_ID r, r)) rs')"
    and create_batch_err: "repo_CreateBatch R rs w = (Inl e, w') \<Longrightarrow> stored w' = stored w"
    and get_by_id_ok: "repo_GetByID R i w = (Inr r, w') \<Longrightarrow> stored w i = Some r \<and> r_ID r = i"
    and get_by_id_missing: "repo_GetByID R i w = (Inl ErrNotFound, w') \<Longrightarrow> stored w i = None"
    and get_by_id_stored: "stored (snd (repo_GetByID R i w)) = stored w"
    and get_by_ids_ok:
      "keyed w \<Longrightarrow> repo_GetByIDs R is w = (Inr rs, w') \<Longrightarrow>
         distinct (map r_ID rs)
         \<and> (\<forall>r. r \<in> set rs \<longleftrightarrow> (\<exists>i \<in> set is. stored w i = Some r \<and> r_ID r = i))"
    and get_by_ids_stored: "stored (snd (repo_GetByIDs R is w)) = stored w"
    and update_status_ok:
      "keyed w \<Longrightarrow> repo_UpdateStatus R i st w = (Inr r', w') \<Longrightarrow>
         \<exists>r. stored w i = Some r \<and> r_ID r = i \<and> same_but_times (r\<lparr>r_Status := st\<rparr>) r'
           \<and> stored w' = (stored w)(i \<mapsto> r')"
    and update_status_err: "repo_UpdateStatus R i st w = (Inl e, w') \<Longrightarrow> stored w' = stored w"
    and list_stored: "stored (snd (repo_List R f w)) = stored w"
    and keyed_list: "keyed w \<Longrightarrow> keyed (snd (repo_List R f w))"
    and keyed_create: "keyed w \<Longrightarrow> keyed (snd (repo_Create R r w))"
    and keyed_create_batch: "keyed w \<Longrightarrow> keyed (snd (repo_CreateBatch R rs w))"
    and keyed_update_status: "keyed w \<Longrightarrow> keyed (snd (repo_UpdateStatus R i st w))"
    and keyed_get_by_id: "keyed w \<Longrightarrow> keyed (snd (repo_GetByID R i w))"
    and keyed_get_by_ids: "keyed w \<Longrightarrow> keyed (snd (repo_GetByIDs R is w))"

section \<open>Repositories on a part of the world\<close>

definition repo_on_part :: "('w \<Rightarrow> 's) \<Rightarrow> ('s \<Rightarrow> 'w \<Rightarrow> 'w) \<Rightarrow> 's notif_repo \<Rightarrow> 'w notif_repo" where
  "repo_on_part get put R = \<lparr>
     repo_Create = (\<lambda>r. on_part get put (repo_Create R r)),
     repo_CreateBatch = (\<lambda>rs. on_part get put (repo_CreateBatch R rs)),
     repo_GetByID = (\<lambda>i. on_part get put (repo_GetByID R i)),
     repo_GetByIDs = (\<lambda>is. on_part get put (repo_GetByIDs R is)),
     repo_List = (\<lambda>f. on_part get put (repo_List R f)),
     repo_UpdateStatus = (\<lambda>i st. on_part get put (repo_UpdateStatus R i st)),
     repo_FindScheduledDue = on_part get put (repo_FindScheduledDue R)\<rparr>"

lemma repo_on_part_sel [simp]:
  "repo_Create (repo_on_part get put R) r = on_part get put (repo_Create R r)"
  "repo_CreateBatch (repo_on_part get put R) rs = on_part get put (repo_CreateBatch R rs)"
  "repo_GetByID (repo_on_part get put R) i = on_part get put (repo_GetByID R i)"
  "repo_GetByIDs (repo_on_part get put R) is = on_part get put (repo_GetByIDs R is)"
  "repo_List (repo_on_part get put R) f = on_part get put (repo_List R f)"
  "repo_UpdateStatus (repo_on_part get put R) i st = on_part get put (repo_UpdateStatus R i st)"
  by (simp_all add: repo_on_part_def)

lemma notif_store_on_part:
  assumes R: "notif_store R stored keyed" and put: "\<And>s w. get (put s w) = s"
  shows "notif_store (repo_on_part get put R) (\<lambda>w. stored (get w)) (\<lambda>w. keyed (get w))"
proof -
  note D = on_partD [where get = get and put = put, OF _ put]
  show ?thesis
  proof
    fix w r r' w'
    assume "keyed (get w)" "repo_Create (repo_on_part get put R) r w = (Inr r', w')"
    then show "same_but_times r r' \<and> stored (get w) (r_ID r) = None \<and>
        stored (get w') = (stored (get w))(r_ID r \<mapsto> r')"
      using notif_store.create_ok [OF R] by (auto dest!: D)
  next
    fix w rs rs' w'
    assume "keyed (get w)" "repo_CreateBatch (repo_on_part get put R) rs w = (Inr rs', w')"
    then show "list_all2 same_but_times rs rs' \<and> distinct (map r_ID rs) \<and>
        (\<forall>r\<in>set rs. stored (get w) (r_ID r) = None) \<and>
        stored (get w') = stored (get w) ++ map_of (map (\<lambda>r. (r_ID r, r)) rs')"
      using notif_store.create_batch_ok [OF R] by (auto dest!: D)
  next
    fix w "is" rs w'
    assume "keyed (get w)" "repo_GetByIDs (repo_on_part get put R) is w = (Inr rs, w')"
    then show "distinct (map r_ID rs) \<and>
        (\<forall>r. r \<in> set rs \<longleftrightarrow> (\<exists>i\<in>set is. stored (get w) i = Some r \<and> r_ID r = i))"
      using notif_store.get_by_ids_ok [OF R] by (auto dest!: D)
  next
    fix w i st r' w'
    assume "keyed (get w)" "repo_UpdateStatus (repo_on_part get put R) i st w = (Inr r', w')"
    then show "\<exists>r. stored (get w) i = Some r \<and> r_ID r = i \<and> same_but_times (r\<lparr>r_Status := st\<rparr>) r' \<and>
        stored (get w') = (stored (get w))(i \<mapsto> r')"
      using notif_store.update_status_ok [OF R] by (auto dest!: D)
  qed (auto simp: put dest!: D
      simp: notif_store.get_by_id_stored [OF R] notif_store.get_by_ids_stored [OF R]
        notif_store.list_stored [OF R]
      dest: notif_store.create_err [OF R] notif_store.create_batch_err [OF R]
        notif_store.get_by_id_ok [OF R] notif_store.get_by_id_missing [OF R]
        notif_store.update_status_err [OF R]
      intro: notif_store.keyed_create [OF R] notif_store.keyed_create_batch [OF R]
        notif_store.keyed_update_status [OF R] notif_store.keyed_get_by_id [OF R]
        notif_store.keyed_get_by_ids [OF R] notif_store.keyed_list [OF R])
qed

end
