(* ===== verification/NotifRepo.thy ===== *)
theory NotifRepo
  imports NotifStore
begin

text \<open>
  api/internal/db/postgres/notification_repo.go: the statements the repository builds, over the
  table notifications as its migrations declare it. A table is the list of its rows in storage
  order, which is arbitrary; a statement either executes as a whole or fails and changes nothing
  (the tape \<open>pg_faults\<close> says which statement the driver or the server fails, with which error).
\<close>

section \<open>The table\<close>

record pgdb =
  pg_rows :: "nrow list"
  pg_now :: time
  pg_faults :: "string option tape"

text \<open>Characters of a UTF-8 string: the bytes that are not continuation bytes.\<close>

definition utf8_chars :: "string \<Rightarrow> nat" where
  "utf8_chars s = length (filter (\<lambda>c. \<not> (128 \<le> (of_char c :: nat) \<and> (of_char c :: nat) < 192)) s)"

definition text_fits :: "nat \<Rightarrow> string \<Rightarrow> bool" where
  "text_fits n s \<longleftrightarrow> utf8_chars s \<le> n \<and> CHR 0x00 \<notin> set s"

text \<open>
  The column types of migration 000001: VARCHAR(255), VARCHAR(20), TEXT (no zero byte), INT.
\<close>

definition row_fits :: "nrow \<Rightarrow> bool" where
  "row_fits r \<longleftrightarrow>
     text_fits 255 (r_Recipient r) \<and> text_fits 20 (r_Channel r) \<and> CHR 0x00 \<notin> set (r_Content r)
     \<and> text_fits 20 (r_Priority r) \<and> text_fits 20 (r_Status r)
     \<and> - (2 ^ 31) \<le> r_MaxAttempts r \<and> r_MaxAttempts r < 2 ^ 31"

text \<open>
  Running one statement, given as a function of the table and the clock.
\<close>

definition pg_exec ::
  "(time \<Rightarrow> nrow list \<Rightarrow> go_error + 'a \<times> nrow list) \<Rightarrow> pgdb \<Rightarrow> 'a result \<times> pgdb" where
  "pg_exec stmt d =
     (let d1 = d\<lparr>pg_faults := tape_next (pg_faults d)\<rparr>
      in case tape_read (pg_faults d) of
           Some msg \<Rightarrow> (Inl (Opaque msg), d1)
         | None \<Rightarrow> (case stmt (pg_now d) (pg_rows d) of
                     Inl e \<Rightarrow> (Inl e, d1)
                   | Inr (x, rows) \<Rightarrow> (Inr x, d1\<lparr>pg_rows := rows\<rparr>)))"

text \<open>A zero timestamp is sent as DEFAULT, the statement's clock.\<close>

definition stamp :: "time \<Rightarrow> nrow \<Rightarrow> nrow" where
  "stamp now r =
     r\<lparr>r_CreatedAt := (if r_CreatedAt r = zero_time then now else r_CreatedAt r),
       r_UpdatedAt := (if r_UpdatedAt r = zero_time then now else r_UpdatedAt r)\<rparr>"

definition sql_insert :: "nrow list \<Rightarrow> time \<Rightarrow> nrow list \<Rightarrow> go_error + nrow list \<times> nrow list" where
  "sql_insert new now rows =
     (if \<not> list_all row_fits new then Inl (Opaque ''value out of range for column'')
      else if \<not> distinct (map r_ID rows @ map r_ID new)
        then Inl (Opaque ''duplicate key value violates unique constraint'')
      else Inr (map (stamp now) new, rows @ map (stamp now) new))"

section \<open>The operations\<close>

definition pg_Create :: "nrow \<Rightarrow> pgdb \<Rightarrow> nrow result \<times> pgdb" where
  "pg_Create r d =
     (case pg_exec (sql_insert [r]) d of
        (Inl e, d') \<Rightarrow> (Inl e, d')
      | (Inr rs, d') \<Rightarrow> (Inr (hd rs), d'))"

definition pg_CreateBatch :: "nrow list \<Rightarrow> pgdb \<Rightarrow> nrow list result \<times> pgdb" where
  "pg_CreateBatch ns d = (if ns = [] then (Inr [], d) else pg_exec (sql_insert ns) d)"

definition sql_select_id :: "uuid \<Rightarrow> time \<Rightarrow> nrow list \<Rightarrow> go_error + nrow \<times> nrow list" where
  "sql_select_id i now rows =
     (case filter (\<lambda>r. r_ID r = i) rows of [] \<Rightarrow> Inl ErrNoRows | r # _ \<Rightarrow> Inr (r, rows))"

definition pg_GetByID :: "uuid \<Rightarrow> pgdb \<Rightarrow> nrow result \<times> pgdb" where
  "pg_GetByID i d =
     (case pg_exec (sql_select_id i) d of
        (Inl e, d') \<Rightarrow> (Inl (if errors_is e ErrNoRows then ErrNotFound else e), d')
      | (Inr r, d') \<Rightarrow> (Inr r, d'))"

definition sql_select_ids ::
  "uuid list \<Rightarrow> time \<Rightarrow> nrow list \<Rightarrow> go_error + nrow list \<times> nrow list" where
  "sql_select_ids ids now rows = Inr (filter (\<lambda>r. r_ID r \<in> set ids) rows, rows)"

definition pg_GetByIDs :: "uuid list \<Rightarrow> pgdb \<Rightarrow> nrow list result \<times> pgdb" where
  "pg_GetByIDs ids d =
     (if ids = [] then (Inr [], d)
      else pg_exec (sql_select_ids ids) d)"

text \<open>
  \<open>UpdateStatus\<close> sets the columns of the model that are not zero, here the status alone: an empty
  status leaves no column to set and the statement is no SQL. The trigger of migration 000003
  sets \<open>updated_at\<close>. The row comes back by RETURNING; no row is \<open>sql.ErrNoRows\<close>.
\<close>

definition touch :: "time \<Rightarrow> status \<Rightarrow> nrow \<Rightarrow> nrow" where
  "touch now st r = r\<lparr>r_Status := st, r_UpdatedAt := now\<rparr>"

definition sql_update_status ::
  "uuid \<Rightarrow> status \<Rightarrow> time \<Rightarrow> nrow list \<Rightarrow> go_error + nrow \<times> nrow list" where
  "sql_update_status i st now rows =
     (if st = '''' then Inl (Opaque ''syntax error in UPDATE'')
      else case filter (\<lambda>r. r_ID r = i) rows of
             [] \<Rightarrow> Inl ErrNoRows
           | r # _ \<Rightarrow>
               (if text_fits 20 st
                then Inr (touch now st r,
                          map (\<lambda>r. if r_ID r = i then touch now st r else r) rows)
                else Inl (Opaque ''value too long for type character varying(20)'')))"

definition pg_UpdateStatus :: "uuid \<Rightarrow> status \<Rightarrow> pgdb \<Rightarrow> nrow result \<times> pgdb" where
  "pg_UpdateStatus i st d = pg_exec (sql_update_status i st) d"

definition pg_FindScheduledDue :: "pgdb \<Rightarrow> nrow list result \<times> pgdb" where
  "pg_FindScheduledDue d =
     pg_exec (\<lambda>now rows.
       Inr (take 500 (sort_key (\<lambda>r. the (r_DeliverAfter r))
              (filter (\<lambda>r. r_DeliverAfter r \<noteq> None \<and> the (r_DeliverAfter r) \<le> now
                           \<and> r_Status r = StatusPending) rows)), rows)) d"

text \<open>The conditions \<open>applyFilters\<close> adds, as the predicate their conjunction is.\<close>

definition applyFilters :: "list_filter \<Rightarrow> nrow \<Rightarrow> bool" where
  "applyFilters f r \<longleftrightarrow>
     (lf_Status f \<noteq> '''' \<longrightarrow> r_Status r = lf_Status f)
     \<and> (lf_Channel f \<noteq> '''' \<longrightarrow> r_Channel r = lf_Channel f)
     \<and> (case lf_BatchID f of None \<Rightarrow> True | Some b \<Rightarrow> r_BatchID r = Some b)
     \<and> (case lf_DateFrom f of None \<Rightarrow> True | Some t \<Rightarrow> t \<le> r_CreatedAt r)
     \<and> (case lf_DateTo f of None \<Rightarrow> True | Some t \<Rightarrow> r_CreatedAt r \<le> t)"

text \<open>
  The page query: keyset when a cursor is set, else sorted by one of two columns with an offset.
  One row more than the page is fetched.
\<close>

definition list_query :: "golib \<Rightarrow> list_filter \<Rightarrow> int \<Rightarrow> nrow list \<Rightarrow> nrow list" where
  "list_query L f pageSize rows =
     (case lf_CursorID f of
        Some c \<Rightarrow>
          take (nat (pageSize + 1))
            (sort_desc r_ID (filter (\<lambda>r. applyFilters f r \<and> r_ID r < c) rows))
      | None \<Rightarrow>
          (let sort = (if lf_Sort f = ''updated_at'' then r_UpdatedAt else r_CreatedAt);
               page = (if lf_Page f < 1 then 1 else lf_Page f);
               sel = filter (applyFilters f) rows;
               ordered = (if equal_fold (lf_Order f) ''asc'' then sort_key sort sel
                          else sort_desc sort sel)
           in take (nat (pageSize + 1))
                (drop (query_offset L (wrap64 (wrap64 (page - 1) * pageSize))) ordered)))"

definition cut_page :: "int \<Rightarrow> nrow list \<Rightarrow> nrow list \<times> uuid option" where
  "cut_page pageSize ns =
     (if int (length ns) = pageSize + 1
      then (take (nat pageSize) ns, Some (r_ID (ns ! nat (pageSize - 1))))
      else (ns, None))"

definition page_size :: "list_filter \<Rightarrow> int" where
  "page_size f = (if lf_PageSize f < 1 then 20 else lf_PageSize f)"

definition pg_List ::
  "golib \<Rightarrow> list_filter \<Rightarrow> pgdb \<Rightarrow> (nrow list \<times> int \<times> uuid option) result \<times> pgdb" where
  "pg_List L f d =
     (let pageSize = page_size f
      in case pg_exec (\<lambda>now rows. Inr (int (length (filter (applyFilters f) rows)), rows)) d of
           (Inl e, d1) \<Rightarrow> (Inl e, d1)
         | (Inr cnt, d1) \<Rightarrow>
             (case pg_exec (\<lambda>now rows. Inr (list_query L f pageSize rows, rows)) d1 of
                (Inl e, d2) \<Rightarrow> (Inl e, d2)
              | (Inr ns, d2) \<Rightarrow>
                  (let (page, nextCursor) = cut_page pageSize ns
                   in (Inr (page, cnt, nextCursor), d2))))"

text \<open>The repository as the dictionary \<open>NewNotificationRepository\<close> returns.\<close>

definition pg_repo :: "golib \<Rightarrow> pgdb notif_repo" where
  "pg_repo L = \<lparr>
     repo_Create = pg_Create, repo_CreateBatch = pg_CreateBatch, repo_GetByID = pg_GetByID,
     repo_GetByIDs = pg_GetByIDs, repo_List = pg_List L, repo_UpdateStatus = pg_UpdateStatus,
     repo_FindScheduledDue = pg_FindScheduledDue\<rparr>"

lemma pg_repo_sel [simp]:
  "repo_Create (pg_repo L) = pg_Create" "repo_CreateBatch (pg_repo L) = pg_CreateBatch"
  "repo_GetByID (pg_repo L) = pg_GetByID" "repo_GetByIDs (pg_repo L) = pg_GetByIDs"
  "repo_List (pg_repo L) = pg_List L" "repo_UpdateStatus (pg_repo L) = pg_UpdateStatus"
  "repo_FindScheduledDue (pg_repo L) = pg_FindScheduledDue"
  by (simp_all add: pg_repo_def)

section \<open>The interface's laws\<close>

definition rows_map :: "nrow list \<Rightarrow> uuid \<Rightarrow> nrow option" where
  "rows_map rows = map_of (map (\<lambda>r. (r_ID r, r)) rows)"

definition pg_stored :: "pgdb \<Rightarrow> uuid \<Rightarrow> nrow option" where
  "pg_stored d = rows_map (pg_rows d)"

text \<open>The primary key: no two rows with the same identifier; and every value fits its column.\<close>

definition pg_keys :: "pgdb \<Rightarrow> bool" where
  "pg_keys d \<longleftrightarrow> distinct (map r_ID (pg_rows d)) \<and> list_all row_fits (pg_rows d)"

lemma stamp_fits [simp]: "row_fits (stamp now r) = row_fits r"
  by (simp add: row_fits_def stamp_def)

lemma touch_fits: "row_fits r \<Longrightarrow> text_fits 20 st \<Longrightarrow> row_fits (touch now st r)"
  by (simp add: row_fits_def touch_def)

lemma row_fits_int64: "row_fits r \<Longrightarrow> int64 (r_MaxAttempts r)"
  by (simp add: row_fits_def int64_def)

lemma rows_map_simps [simp]:
  "rows_map [] = Map.empty"
  "rows_map (r # rs) = (rows_map rs)(r_ID r \<mapsto> r)"
  "rows_map (rs @ rs') = rows_map rs' ++ rows_map rs"
  by (simp_all add: rows_map_def)

lemma map_add_single: "m k = None \<Longrightarrow> [k \<mapsto> v] ++ m = m(k \<mapsto> v)"
  by (auto simp: map_add_def fun_eq_iff split: option.splits)

lemma rows_map_None: "rows_map rows i = None \<longleftrightarrow> i \<notin> r_ID ` set rows"
  by (induction rows) auto

lemma dom_rows_map: "dom (rows_map rows) = r_ID ` set rows"
  by (simp add: rows_map_def dom_map_of_conv_image_fst image_image)

lemma rows_map_commute:
  "r_ID ` set rs \<inter> r_ID ` set rs' = {} \<Longrightarrow> rows_map rs ++ rows_map rs' = rows_map rs' ++ rows_map rs"
  by (rule map_add_comm) (simp add: dom_rows_map)

lemma rows_map_id: "rows_map rows i = Some r \<Longrightarrow> r_ID r = i \<and> r \<in> set rows"
  by (induction rows) (auto split: if_splits)

lemma rows_map_member:
  "distinct (map r_ID rows) \<Longrightarrow> r \<in> set rows \<Longrightarrow> rows_map rows (r_ID r) = Some r"
  by (induction rows) (auto simp: rev_image_eqI)

lemma rows_map_filter_id:
  "filter (\<lambda>r. r_ID r = i) rows = r # rs \<Longrightarrow> rows_map rows i = Some r"
  by (induction rows) (auto split: if_splits)

lemma rows_map_filter_Nil: "filter (\<lambda>r. r_ID r = i) rows = [] \<longleftrightarrow> rows_map rows i = None"
  by (auto simp: rows_map_None filter_empty_conv)

lemma stamp_ID [simp]: "r_ID (stamp now r) = r_ID r"
  by (simp add: stamp_def)

lemma stamp_same [simp]: "same_but_times r (stamp now r)"
  by (simp add: same_but_times_def stamp_def)

lemma touch_ID [simp]: "r_ID (touch now st r) = r_ID r"
  by (simp add: touch_def)

lemma touch_same: "same_but_times (r\<lparr>r_Status := st\<rparr>) (touch now st r)"
  by (simp add: same_but_times_def touch_def)

lemma rows_map_touch:
  "rows_map rows i = Some r \<Longrightarrow> distinct (map r_ID rows) \<Longrightarrow>
     rows_map (map (\<lambda>r. if r_ID r = i then touch now st r else r) rows)
       = (rows_map rows)(i \<mapsto> touch now st r)"
proof (induction rows)
  case (Cons q rows)
  show ?case
  proof (cases "r_ID q = i")
    case True
    with Cons.prems have "map (\<lambda>r. if r_ID r = i then touch now st r else r) rows = rows"
      by (intro map_idI) (auto simp: image_iff)
    with True Cons.prems show ?thesis by (simp add: fun_eq_iff)
  next
    case False
    with Cons show ?thesis by (auto simp: fun_eq_iff)
  qed
qed simp

text \<open>A statement that failed, or that only reads, leaves the rows alone.\<close>

lemma pg_exec_Inl: "pg_exec stmt d = (Inl e, d') \<Longrightarrow> pg_rows d' = pg_rows d"
  by (auto simp: pg_exec_def Let_def split: option.splits sum.splits prod.splits)

lemma pg_exec_Inr:
  "pg_exec stmt d = (Inr x, d') \<Longrightarrow>
     \<exists>rows. stmt (pg_now d) (pg_rows d) = Inr (x, rows) \<and> pg_rows d' = rows \<and> pg_now d' = pg_now d"
  by (auto simp: pg_exec_def Let_def split: option.splits sum.splits)

lemma pg_exec_now [simp]: "pg_now (snd (pg_exec stmt d)) = pg_now d"
  by (simp add: pg_exec_def Let_def split: option.splits sum.splits prod.splits)

lemma pg_exec_cases:
  assumes "pg_exec stmt d = (r, d')"
  obtains (failed) e where "r = Inl e" "pg_rows d' = pg_rows d"
    | (ran) x where "r = Inr x" "stmt (pg_now d) (pg_rows d) = Inr (x, pg_rows d')"
  using assms by (cases r) (auto dest: pg_exec_Inl pg_exec_Inr)

lemma rows_GetByID [world_simps]: "pg_rows (snd (pg_GetByID i d)) = pg_rows d"
proof (cases "pg_exec (sql_select_id i) d")
  case (Pair r d')
  then show ?thesis
    by (cases rule: pg_exec_cases)
       (auto simp: pg_GetByID_def Pair sql_select_id_def split: list.splits)
qed

lemma rows_GetByIDs [world_simps]: "pg_rows (snd (pg_GetByIDs is d)) = pg_rows d"
proof (cases "pg_exec (sql_select_ids is) d")
  case (Pair r d')
  then show ?thesis
    by (cases rule: pg_exec_cases) (auto simp: pg_GetByIDs_def Pair sql_select_ids_def)
qed

lemma select_rows:
  "pg_exec (\<lambda>now rows. Inr (q rows, rows)) d = (x, d') \<Longrightarrow> pg_rows d' = pg_rows d"
  by (erule pg_exec_cases) simp_all

lemma rows_List [world_simps]: "pg_rows (snd (pg_List L f d)) = pg_rows d"
proof -
  obtain x d1 where x: "pg_exec (\<lambda>now rows. Inr (int (length (filter (applyFilters f) rows)), rows)) d = (x, d1)"
    by fastforce
  obtain y d2 where y: "pg_exec (\<lambda>now rows. Inr (list_query L f (page_size f) rows, rows)) d1 = (y, d2)"
    by fastforce
  from select_rows [OF x] select_rows [OF y] show ?thesis
    by (simp add: pg_List_def Let_def x y split: sum.split prod.split)
qed

lemma sql_insert_Inr:
  "sql_insert new now rows = Inr (x, rows') \<longleftrightarrow>
     list_all row_fits new \<and> distinct (map r_ID rows @ map r_ID new)
     \<and> x = map (stamp now) new \<and> rows' = rows @ x"
  by (auto simp: sql_insert_def)

lemma sql_update_Inr:
  "sql_update_status i st now rows = Inr (x, rows') \<longleftrightarrow>
     st \<noteq> '''' \<and> text_fits 20 st \<and>
     (\<exists>r rs. filter (\<lambda>r. r_ID r = i) rows = r # rs \<and> x = touch now st r
       \<and> rows' = map (\<lambda>r. if r_ID r = i then touch now st r else r) rows)"
  by (auto simp: sql_update_status_def split: list.splits)

lemma map_ID_touch: "map (r_ID \<circ> (\<lambda>r. if r_ID r = i then touch now st r else r)) rows = map r_ID rows"
  by simp

lemma Create_cases:
  assumes "pg_Create r d = (x, d')"
  obtains (failed) e where "x = Inl e" "pg_rows d' = pg_rows d"
    | (ran) "x = Inr (stamp (pg_now d) r)" "row_fits r" "distinct (map r_ID (pg_rows d) @ [r_ID r])"
        "pg_rows d' = pg_rows d @ [stamp (pg_now d) r]"
proof (cases "pg_exec (sql_insert [r]) d")
  case (Pair y d1)
  from Pair show ?thesis
    using assms
    by (cases rule: pg_exec_cases) (auto simp: Pair pg_Create_def sql_insert_Inr intro: failed ran)
qed

lemma CreateBatch_cases:
  assumes "pg_CreateBatch rs d = (x, d')"
  obtains (failed) e where "x = Inl e" "pg_rows d' = pg_rows d"
    | (ran) "x = Inr (map (stamp (pg_now d)) rs)" "list_all row_fits rs"
        "distinct (map r_ID (pg_rows d) @ map r_ID rs) \<or> rs = []"
        "pg_rows d' = pg_rows d @ map (stamp (pg_now d)) rs"
proof (cases "rs = []")
  case True
  with assms show ?thesis by (auto simp: pg_CreateBatch_def intro: ran)
next
  case False
  with assms have "pg_exec (sql_insert rs) d = (x, d')" by (simp add: pg_CreateBatch_def)
  then show ?thesis by (cases rule: pg_exec_cases) (auto simp: sql_insert_Inr intro: failed ran)
qed

lemma UpdateStatus_cases:
  assumes "pg_UpdateStatus i st d = (x, d')"
  obtains (failed) e where "x = Inl e" "pg_rows d' = pg_rows d"
    | (ran) r where "rows_map (pg_rows d) i = Some r" "x = Inr (touch (pg_now d) st r)"
        "st \<noteq> ''''" "text_fits 20 st"
        "pg_rows d' = map (\<lambda>r. if r_ID r = i then touch (pg_now d) st r else r) (pg_rows d)"
proof -
  from assms have "pg_exec (sql_update_status i st) d = (x, d')" by (simp add: pg_UpdateStatus_def)
  then show ?thesis
    by (cases rule: pg_exec_cases)
       (auto simp: sql_update_Inr dest!: rows_map_filter_id intro: failed ran)
qed

lemma GetByID_Inr:
  assumes "pg_GetByID i d = (Inr r, d')"
  shows "rows_map (pg_rows d) i = Some r"
proof (cases "pg_exec (sql_select_id i) d")
  case (Pair y d1)
  from Pair show ?thesis
    using assms
    by (cases rule: pg_exec_cases)
       (auto simp: Pair pg_GetByID_def sql_select_id_def dest: rows_map_filter_id split: list.splits)
qed

lemma GetByID_missing: "pg_GetByID i d = (Inl ErrNotFound, d') \<Longrightarrow> rows_map (pg_rows d) i = None"
  by (auto simp: pg_GetByID_def pg_exec_def Let_def sql_select_id_def errors_is_def
      rows_map_filter_Nil split: prod.splits sum.splits option.splits list.splits if_splits)

lemma GetByIDs_Inr:
  "pg_GetByIDs is d = (Inr rs, d') \<Longrightarrow> rs = filter (\<lambda>r. r_ID r \<in> set is) (pg_rows d)"
  by (auto simp: pg_GetByIDs_def sql_select_ids_def split: if_splits dest!: pg_exec_Inr)

lemma CreateBatch_stored:
  assumes "pg_keys d" and "pg_CreateBatch rs d = (Inr rs', d')"
  shows "list_all2 same_but_times rs rs' \<and> distinct (map r_ID rs)
    \<and> (\<forall>r\<in>set rs. pg_stored d (r_ID r) = None)
    \<and> pg_stored d' = pg_stored d ++ map_of (map (\<lambda>r. (r_ID r, r)) rs')"
  using assms(2)
proof (cases rule: CreateBatch_cases)
  case ran
  then have rs': "rs' = map (stamp (pg_now d)) rs" by simp
  have ids: "r_ID ` set rs' = r_ID ` set rs" by (simp add: rs' image_image)
  from ran have new: "r_ID ` set (pg_rows d) \<inter> r_ID ` set rs = {}" and "distinct (map r_ID rs)" by auto
  moreover have "list_all2 same_but_times rs rs'" by (simp add: rs' list_all2_conv_all_nth)
  moreover have "pg_stored d' = rows_map rs' ++ rows_map (pg_rows d)"
    using ran by (simp add: pg_stored_def rs')
  moreover have "rows_map rs' ++ rows_map (pg_rows d) = rows_map (pg_rows d) ++ rows_map rs'"
    using new ids by (intro rows_map_commute) auto
  ultimately show ?thesis
    by (auto simp: pg_stored_def rows_map_None simp flip: rows_map_def)
qed simp

lemma keys_Create: "pg_keys d \<Longrightarrow> pg_keys (snd (pg_Create r d))"
  by (cases "pg_Create r d") (auto simp: pg_keys_def elim!: Create_cases)

lemma keys_CreateBatch: "pg_keys d \<Longrightarrow> pg_keys (snd (pg_CreateBatch rs d))"
  by (cases "pg_CreateBatch rs d") (auto simp: pg_keys_def image_image comp_def list.pred_map elim!: CreateBatch_cases)

lemma keys_reads:
  "pg_keys (snd (pg_GetByID i d)) = pg_keys d" "pg_keys (snd (pg_GetByIDs is d)) = pg_keys d"
  "pg_keys (snd (pg_List L f d)) = pg_keys d"
  by (simp_all add: pg_keys_def world_simps)

lemma keys_UpdateStatus: "pg_keys d \<Longrightarrow> pg_keys (snd (pg_UpdateStatus i st d))"
  by (cases "pg_UpdateStatus i st d") (auto simp: pg_keys_def map_ID_touch list.pred_set touch_fits elim!: UpdateStatus_cases)

interpretation pg_store: notif_store "pg_repo L" pg_stored pg_keys
proof
  fix w r r' w'
  assume "pg_keys w" "repo_Create (pg_repo L) r w = (Inr r', w')"
  then show "same_but_times r r' \<and> pg_stored w (r_ID r) = None \<and>
      pg_stored w' = (pg_stored w)(r_ID r \<mapsto> r')"
    by (auto simp: pg_stored_def map_add_single simp flip: rows_map_None elim!: Create_cases)
next
  fix w rs rs' w'
  assume "pg_keys w" "repo_CreateBatch (pg_repo L) rs w = (Inr rs', w')"
  then show "list_all2 same_but_times rs rs' \<and> distinct (map r_ID rs) \<and>
      (\<forall>r\<in>set rs. pg_stored w (r_ID r) = None) \<and>
      pg_stored w' = pg_stored w ++ map_of (map (\<lambda>r. (r_ID r, r)) rs')"
    by (simp add: CreateBatch_stored)
next
  fix w "is" rs w'
  assume "pg_keys w" "repo_GetByIDs (pg_repo L) is w = (Inr rs, w')"
  then show "distinct (map r_ID rs) \<and>
      (\<forall>r. r \<in> set rs \<longleftrightarrow> (\<exists>i\<in>set is. pg_stored w i = Some r \<and> r_ID r = i))"
    by (auto simp: pg_stored_def pg_keys_def distinct_map_filter
        dest!: GetByIDs_Inr rows_map_id intro: rows_map_member)
next
  fix w i st r' w'
  assume "pg_keys w" "repo_UpdateStatus (pg_repo L) i st w = (Inr r', w')"
  then show "\<exists>r. pg_stored w i = Some r \<and> r_ID r = i \<and> same_but_times (r\<lparr>r_Status := st\<rparr>) r' \<and>
      pg_stored w' = (pg_stored w)(i \<mapsto> r')"
    by (auto simp: pg_stored_def pg_keys_def rows_map_touch touch_same dest: rows_map_id
        elim!: UpdateStatus_cases)
qed (auto simp: pg_stored_def keys_Create keys_CreateBatch keys_UpdateStatus keys_reads world_simps
    dest: GetByID_Inr GetByID_missing rows_map_id
    elim!: Create_cases CreateBatch_cases UpdateStatus_cases)

end
