(* ===== verification/ApiService.thy ===== *)
theory ApiService
  imports NotifRepo
begin

text \<open>
  api/internal/service/notification.go: the notification service over its two injected
  interfaces, the repository and the publisher, and over the identifier generator. The service's
  lemmas are proved in the locale \<open>api_env\<close>, for any repository and publisher that keep their
  promises and leave each other's part of the world alone; the PostgreSQL repository and the
  NATS publisher interpret it at the end.
\<close>

section \<open>The service\<close>

record 'w service_deps =
  svc_repo :: "'w notif_repo"
  svc_pub :: "'w publisher"
  svc_ids :: "'w idgen"
  svc_lib :: golib

definition scheduled_item_of :: "golib \<Rightarrow> nrow \<Rightarrow> time \<Rightarrow> scheduled_item" where
  "scheduled_item_of L r t = \<lparr>si_NotificationID = uuid_text L (r_ID r), si_ScheduledAt = t\<rparr>"

definition ready_message :: "golib \<Rightarrow> nrow \<Rightarrow> topic \<times> json" where
  "ready_message L r = (TopicByPriority (r_Priority r), ready_to_json (ready_From L r))"

definition scheduled_message :: "golib \<Rightarrow> scheduled_item list \<Rightarrow> topic \<times> json" where
  "scheduled_message L is =
     (TopicNotificationScheduled, scheduled_to_json L \<lparr>se_Notifications = is\<rparr>)"

text \<open>The helpers \<open>persist\<close> and \<open>publish\<close>, and \<open>Create\<close>.\<close>

definition svc_persist ::
  "'w service_deps \<Rightarrow> notification \<Rightarrow> uuid option \<Rightarrow> 'w \<Rightarrow> nrow result \<times> 'w" where
  "svc_persist S n batchID w =
     (case From_notification (svc_ids S) n batchID w of
        (Inl e, w1) \<Rightarrow> (Inl e, w1)
      | (Inr entity, w1) \<Rightarrow>
          (case repo_Create (svc_repo S) entity w1 of
             (Inl e, w2) \<Rightarrow> (Inl (Wrap ''create notification: '' e ''''), w2)
           | (Inr entity', w2) \<Rightarrow> (Inr entity', w2)))"

definition svc_publish :: "'w service_deps \<Rightarrow> trace \<Rightarrow> nrow \<Rightarrow> 'w \<Rightarrow> unit result \<times> 'w" where
  "svc_publish S ctx entity w =
     (case r_DeliverAfter entity of
        Some t \<Rightarrow>
          (let (topic, evt) = scheduled_message (svc_lib S) [scheduled_item_of (svc_lib S) entity t]
           in case pub_Publish (svc_pub S) ctx topic evt w of
                (Inl e, w1) \<Rightarrow> (Inl (Wrap ''publish scheduled event: '' e ''''), w1)
              | (Inr u, w1) \<Rightarrow> (Inr (), w1))
      | None \<Rightarrow>
          (let (topic, evt) = ready_message (svc_lib S) entity
           in case pub_Publish (svc_pub S) ctx topic evt w of
                (Inl e, w1) \<Rightarrow> (Inl (Wrap ''publish event: '' e ''''), w1)
              | (Inr u, w1) \<Rightarrow> (Inr (), w1)))"

definition svc_Create :: "'w service_deps \<Rightarrow> trace \<Rightarrow> notification \<Rightarrow> 'w \<Rightarrow> nrow result \<times> 'w" where
  "svc_Create S ctx n w =
     (case svc_persist S n None w of
        (Inl e, w1) \<Rightarrow> (Inl e, w1)
      | (Inr entity, w1) \<Rightarrow>
          (case svc_publish S ctx entity w1 of
             (Inl e, w2) \<Rightarrow> (Inl e, w2)
           | (Inr _, w2) \<Rightarrow> (Inr entity, w2)))"

definition svc_GetByID :: "'w service_deps \<Rightarrow> uuid \<Rightarrow> 'w \<Rightarrow> nrow result \<times> 'w" where
  "svc_GetByID S i w = repo_GetByID (svc_repo S) i w"

definition svc_List ::
  "'w service_deps \<Rightarrow> list_filter \<Rightarrow> 'w \<Rightarrow> (nrow list \<times> int \<times> uuid option) result \<times> 'w" where
  "svc_List S f w = repo_List (svc_repo S) f w"

text \<open>
  \<open>Cancel\<close> and \<open>UpdateStatus\<close> read the row and write it back in two statements; what follows the
  read is a definition of its own, so that another request can run between the two.
\<close>

definition cancel_rest ::
  "'w service_deps \<Rightarrow> trace \<Rightarrow> uuid \<Rightarrow> nrow result \<Rightarrow> 'w \<Rightarrow> nrow result \<times> 'w" where
  "cancel_rest S ctx i found w1 =
     (case found of
        Inl e \<Rightarrow>
          (Inl (if errors_is e ErrNotFound then NotFoundError ''notification not found'' else e), w1)
      | Inr entity \<Rightarrow>
          (case Transition StatusCancelled (ToDomain entity) of
             Inl e \<Rightarrow> (Inl (ConflictError (err_text e)), w1)
           | Inr dn \<Rightarrow>
               (case repo_UpdateStatus (svc_repo S) i StatusCancelled w1 of
                  (Inl e, w2) \<Rightarrow> (Inl e, w2)
                | (Inr updated, w2) \<Rightarrow>
                    (case pub_Publish (svc_pub S) ctx TopicNotificationScheduleCancelled
                            (cancelled_to_json \<lparr>ce_NotificationID = uuid_text (svc_lib S) i\<rparr>) w2 of
                       (Inl e, w3) \<Rightarrow> (Inl (Wrap ''publish cancel event: '' e ''''), w3)
                     | (Inr _, w3) \<Rightarrow> (Inr updated, w3)))))"

definition svc_Cancel :: "'w service_deps \<Rightarrow> trace \<Rightarrow> uuid \<Rightarrow> 'w \<Rightarrow> nrow result \<times> 'w" where
  "svc_Cancel S ctx i w =
     (case repo_GetByID (svc_repo S) i w of (found, w1) \<Rightarrow> cancel_rest S ctx i found w1)"

definition update_rest ::
  "'w service_deps \<Rightarrow> uuid \<Rightarrow> status \<Rightarrow> nrow result \<Rightarrow> 'w \<Rightarrow> unit result \<times> 'w" where
  "update_rest S i st found w1 =
     (case found of
        Inl e \<Rightarrow> (Inl e, w1)
      | Inr entity \<Rightarrow>
          (case Transition st (ToDomain entity) of
             Inl e \<Rightarrow> (Inl e, w1)
           | Inr dn \<Rightarrow>
               (case repo_UpdateStatus (svc_repo S) i st w1 of
                  (Inl e, w2) \<Rightarrow> (Inl e, w2)
                | (Inr _, w2) \<Rightarrow> (Inr (), w2))))"

definition svc_UpdateStatus :: "'w service_deps \<Rightarrow> uuid \<Rightarrow> status \<Rightarrow> 'w \<Rightarrow> unit result \<times> 'w" where
  "svc_UpdateStatus S i st w =
     (case repo_GetByID (svc_repo S) i w of (found, w1) \<Rightarrow> update_rest S i st found w1)"

section \<open>Batch creation\<close>

record batch_result =
  br_Index :: nat
  br_Status :: string
  br_ID :: "uuid option"
  br_Error :: "string option"

text \<open>The first loop: every notification becomes an entity, or a rejected result.\<close>

fun convert_all ::
  "'w idgen \<Rightarrow> uuid \<Rightarrow> nat \<Rightarrow> notification list \<Rightarrow> 'w
   \<Rightarrow> (nrow option list \<times> batch_result list) \<times> 'w" where
  "convert_all G b i [] w = (([], []), w)"
| "convert_all G b i (n # ns) w =
     (case From_notification G n (Some b) w of
        (Inl e, w1) \<Rightarrow>
          (case convert_all G b (Suc i) ns w1 of
             ((es, rs), w2) \<Rightarrow>
               ((None # es,
                 \<lparr>br_Index = i, br_Status = ''rejected'', br_ID = None, br_Error = Some (err_text e)\<rparr> # rs), w2))
      | (Inr entity, w1) \<Rightarrow>
          (case convert_all G b (Suc i) ns w1 of
             ((es, rs), w2) \<Rightarrow>
               ((Some entity # es,
                 \<lparr>br_Index = i, br_Status = ''accepted'', br_ID = Some (r_ID entity), br_Error = None\<rparr> # rs),
                w2)))"

definition acceptedIndices :: "nrow option list \<Rightarrow> nat list" where
  "acceptedIndices es = filter (\<lambda>i. es ! i \<noteq> None) [0..<length es]"

definition reject_at :: "string \<Rightarrow> nat \<Rightarrow> batch_result list \<Rightarrow> batch_result list" where
  "reject_at msg i rs =
     rs[i := (rs ! i)\<lparr>br_Status := ''rejected'', br_Error := Some msg, br_ID := None\<rparr>]"

text \<open>The scheduled entities as items of one event; the others are immediate.\<close>

definition scheduled_items :: "golib \<Rightarrow> nrow list \<Rightarrow> scheduled_item list" where
  "scheduled_items L es =
     somes (map (\<lambda>e. map_option (scheduled_item_of L e) (r_DeliverAfter e)) es)"

definition immediate_entities :: "nrow list \<Rightarrow> nrow list" where
  "immediate_entities es = filter (\<lambda>e. r_DeliverAfter e = None) es"

text \<open>The persisting part: the entities that were stored, and the results after it.\<close>

definition persist_batch ::
  "'w service_deps \<Rightarrow> nrow option list \<Rightarrow> batch_result list \<Rightarrow> 'w
   \<Rightarrow> (nrow list \<times> batch_result list) \<times> 'w" where
  "persist_batch S entities results w =
     (let accepted = somes entities
      in if accepted = [] then (([], results), w)
         else (case repo_CreateBatch (svc_repo S) accepted w of
                 (Inl e, w1) \<Rightarrow>
                   (let msg = ''create notifications: '' @ err_text e
                    in (([], fold (reject_at msg) (acceptedIndices entities) results), w1))
               | (Inr stored, w1) \<Rightarrow> ((stored, results), w1)))"

definition publish_batch_events ::
  "'w service_deps \<Rightarrow> trace \<Rightarrow> nrow list \<Rightarrow> 'w \<Rightarrow> unit result \<times> 'w" where
  "publish_batch_events S ctx es w =
     (let L = svc_lib S; scheduled = scheduled_items L es;
          immediate = map (ready_message L) (immediate_entities es);
          each = publish_each (pub_Publish (svc_pub S)) (\<lambda>e. Wrap ''publish ready event: '' e '''') ctx immediate
      in if scheduled = [] then each w
         else (case pub_Publish (svc_pub S) ctx (fst (scheduled_message L scheduled))
                      (snd (scheduled_message L scheduled)) w of
                 (Inl e, w1) \<Rightarrow> (Inl (Wrap ''publish scheduled events: '' e ''''), w1)
               | (Inr _, w1) \<Rightarrow> each w1))"

definition svc_CreateBatch ::
  "'w service_deps \<Rightarrow> trace \<Rightarrow> notification list \<Rightarrow> 'w
   \<Rightarrow> (uuid \<times> batch_result list \<times> go_error option) \<times> 'w" where
  "svc_CreateBatch S ctx ns w =
     (case ids_New (svc_ids S) w of
        (batchID, w0) \<Rightarrow>
          (case convert_all (svc_ids S) batchID 0 ns w0 of
             ((entities, results), w1) \<Rightarrow>
               (case persist_batch S entities results w1 of
                  ((accepted, results'), w2) \<Rightarrow>
                    (case publish_batch_events S ctx accepted w2 of
                       (Inl e, w3) \<Rightarrow> ((batchID, results', Some e), w3)
                     | (Inr _, w3) \<Rightarrow> ((batchID, results', None), w3)))))"

section \<open>What the service relies on\<close>

text \<open>
  The repository keeps its promises, the publisher keeps its promises, and each (and the
  generator of identifiers) leaves alone what the others observe.
\<close>

locale api_env =
  notif_store "svc_repo S" stored keyed + publisher_port "pub_Publish (svc_pub S)" sent
  for S :: "'w service_deps"
    and stored :: "'w \<Rightarrow> uuid \<Rightarrow> nrow option"
    and keyed :: "'w \<Rightarrow> bool"
    and sent :: "'w \<Rightarrow> nats_msg list" +
  assumes publish_stored: "stored (snd (pub_Publish (svc_pub S) c t j w)) = stored w"
    and publish_keyed: "keyed (snd (pub_Publish (svc_pub S) c t j w)) = keyed w"
    and create_sent: "sent (snd (repo_Create (svc_repo S) r w)) = sent w"
    and create_batch_sent: "sent (snd (repo_CreateBatch (svc_repo S) rs w)) = sent w"
    and get_by_id_sent: "sent (snd (repo_GetByID (svc_repo S) i w)) = sent w"
    and get_by_ids_sent: "sent (snd (repo_GetByIDs (svc_repo S) is w)) = sent w"
    and list_sent: "sent (snd (repo_List (svc_repo S) f w)) = sent w"
    and update_status_sent: "sent (snd (repo_UpdateStatus (svc_repo S) i st w)) = sent w"
    and new_v7_frame: "stored (snd (ids_NewV7 (svc_ids S) w)) = stored w"
      "keyed (snd (ids_NewV7 (svc_ids S) w)) = keyed w" "sent (snd (ids_NewV7 (svc_ids S) w)) = sent w"
    and new_frame: "stored (snd (ids_New (svc_ids S) w)) = stored w"
      "keyed (snd (ids_New (svc_ids S) w)) = keyed w" "sent (snd (ids_New (svc_ids S) w)) = sent w"

text \<open>The message that announces a stored notification: scheduled, or ready on its priority's topic.\<close>

definition created_message :: "golib \<Rightarrow> nrow \<Rightarrow> topic \<times> json" where
  "created_message L r =
     (case r_DeliverAfter r of
        Some t \<Rightarrow> scheduled_message L [scheduled_item_of L r t]
      | None \<Rightarrow> ready_message L r)"

definition in_context :: "trace \<Rightarrow> topic \<times> json \<Rightarrow> nats_msg" where
  "in_context c m = nats_message (fst m) c (snd m)"

text \<open>How a stored row may evolve: nothing but its status and update time, along the table.\<close>

definition row_evolves :: "nrow \<Rightarrow> nrow \<Rightarrow> bool" where
  "row_evolves r r' \<longleftrightarrow>
     (\<exists>st. may_become (r_Status r) st \<and> same_but_times (r\<lparr>r_Status := st\<rparr>) r')"

lemma row_evolves_refl [simp]: "row_evolves r r"
  unfolding row_evolves_def by (rule exI [of _ "r_Status r"]) simp

lemma row_evolves_status: "row_evolves r r' \<Longrightarrow> may_become (r_Status r) (r_Status r')"
  by (auto simp: row_evolves_def dest: same_but_timesD(7))

context api_env
begin

lemma From_cases:
  assumes "From_notification (svc_ids S) n b w = (x, w')"
  obtains (failed) e where "x = Inl e" "stored w' = stored w" "sent w' = sent w" "keyed w' = keyed w"
    | (ok) i where "x = Inr (row_of n b i)" "stored w' = stored w" "sent w' = sent w" "keyed w' = keyed w"
proof -
  obtain y w1 where y: "ids_NewV7 (svc_ids S) w = (y, w1)" by (cases "ids_NewV7 (svc_ids S) w")
  with new_v7_frame [of w] have "stored w1 = stored w" "sent w1 = sent w" "keyed w1 = keyed w" by simp_all
  with assms y show ?thesis
    by (cases y) (auto simp: From_notification_def NewIDModel_def intro: failed ok)
qed

lemma persist_cases:
  assumes k: "keyed w" and p: "svc_persist S n b w = (x, w')"
  obtains (failed) e where "x = Inl e" "stored w' = stored w" "sent w' = sent w" "keyed w'"
    | (ok) r i where "x = Inr r" "same_but_times (row_of n b i) r" "r_ID r = i" "stored w i = None"
        "stored w' = (stored w)(i \<mapsto> r)" "sent w' = sent w" "keyed w'"
proof -
  obtain y w1 where y: "From_notification (svc_ids S) n b w = (y, w1)"
    by (cases "From_notification (svc_ids S) n b w")
  show ?thesis
  using y proof (cases rule: From_cases)
    case failed
    with p k y show ?thesis by (auto simp: svc_persist_def intro: that(1))
  next
    case (ok i)
    obtain z w2 where z: "repo_Create (svc_repo S) (row_of n b i) w1 = (z, w2)"
      by (cases "repo_Create (svc_repo S) (row_of n b i) w1")
    from ok k have k1: "keyed w1" by simp
    have w2: "sent w2 = sent w" "keyed w2"
      using create_sent [of "row_of n b i" w1] keyed_create [OF k1, of "row_of n b i"] z ok by simp_all
    show ?thesis
    proof (cases z)
      case (Inl e)
      with create_err z ok have "stored w2 = stored w" by simp
      with Inl w2 p y ok z show ?thesis by (auto simp: svc_persist_def intro: that(1))
    next
      case (Inr r)
      with create_ok [OF k1] z
      have r: "same_but_times (row_of n b i) r" "stored w1 (r_ID (row_of n b i)) = None"
        "stored w2 = (stored w1)(r_ID (row_of n b i) \<mapsto> r)" by blast+
      have "r_ID (row_of n b i) = i" by (simp add: row_of_def)
      with r same_but_timesD(1) [OF r(1)] Inr w2 p y ok z show ?thesis
        by (intro that(2) [of r i]) (auto simp: svc_persist_def)
    qed
  qed
qed

lemma publish_frame:
  assumes "pub_Publish (svc_pub S) c t j w = (x, w')"
  shows "stored w' = stored w" "keyed w' = keyed w"
  using publish_stored [of c t j w] publish_keyed [of c t j w] assms by simp_all

lemma svc_publish_cases:
  assumes "svc_publish S c r w = (x, w')"
  obtains (failed) e where "x = Inl e" "stored w' = stored w" "keyed w' = keyed w"
      "sent w' = sent w \<or> sent w' = sent w @ [in_context c (created_message (svc_lib S) r)]"
    | (ok) "x = Inr ()" "stored w' = stored w" "keyed w' = keyed w"
        "sent w' = sent w @ [in_context c (created_message (svc_lib S) r)]"
proof -
  let ?m = "created_message (svc_lib S) r"
  obtain y where y: "pub_Publish (svc_pub S) c (fst ?m) (snd ?m) w = (y, w')"
    and x: "is_ok x = is_ok y"
    using assms
    by (auto simp: svc_publish_def created_message_def scheduled_message_def ready_message_def
        split: option.splits prod.splits sum.splits)
  show ?thesis
  proof (cases x)
    case (Inl e)
    with x obtain e' where "y = Inl e'" by (cases y) auto
    with publish_err y have "sent w' = sent w \<or> sent w' = sent w @ [in_context c ?m]"
      by (simp add: in_context_def)
    with Inl publish_frame [OF y] show ?thesis by (intro that(1)) auto
  next
    case (Inr u)
    with x obtain u' where "y = Inr u'" by (cases y) auto
    with publish_ok y have "sent w' = sent w @ [in_context c ?m]" by (simp add: in_context_def)
    with Inr publish_frame [OF y] show ?thesis by (intro that(2)) auto
  qed
qed

lemma create_cases:
  assumes k: "keyed w" and c: "svc_Create S ctx n w = (x, w')"
  obtains (not_stored) e where "x = Inl e" "stored w' = stored w" "sent w' = sent w" "keyed w'"
    | (not_sent) e r i where "x = Inl e" "same_but_times (row_of n None i) r" "stored w i = None"
        "stored w' = (stored w)(i \<mapsto> r)" "keyed w'"
        "sent w' = sent w \<or> sent w' = sent w @ [in_context ctx (created_message (svc_lib S) r)]"
    | (ok) r i where "x = Inr r" "same_but_times (row_of n None i) r" "r_ID r = i" "stored w i = None"
        "stored w' = (stored w)(i \<mapsto> r)" "keyed w'"
        "sent w' = sent w @ [in_context ctx (created_message (svc_lib S) r)]"
proof -
  obtain y w1 where y: "svc_persist S n None w = (y, w1)" by (cases "svc_persist S n None w")
  from k y show ?thesis
  proof (cases rule: persist_cases)
    case (failed e)
    with c y show ?thesis by (auto simp: svc_Create_def intro: not_stored)
  next
    case (ok r i)
    obtain z w2 where z: "svc_publish S ctx r w1 = (z, w2)" by (cases "svc_publish S ctx r w1")
    then show ?thesis
    proof (cases rule: svc_publish_cases)
      case (failed e)
      with c y z ok(1) have "x = Inl e" "w' = w2" by (auto simp: svc_Create_def)
      with failed ok show ?thesis by (intro not_sent [of e i r]) auto
    next
      case published: ok
      with c y z ok(1) have "x = Inr r" "w' = w2" by (auto simp: svc_Create_def)
      with published ok show ?thesis by (intro that(3) [of r i]) auto
    qed
  qed
qed

lemma get_frame:
  assumes "repo_GetByID (svc_repo S) i w = (x, w')"
  shows "stored w' = stored w" "sent w' = sent w" "keyed w \<Longrightarrow> keyed w'"
  using get_by_id_stored [of i w] get_by_id_sent [of i w] keyed_get_by_id [of w i] assms by simp_all

lemma update_frame:
  assumes "repo_UpdateStatus (svc_repo S) i st w = (x, w')"
  shows "sent w' = sent w" "keyed w \<Longrightarrow> keyed w'"
  using update_status_sent [of i st w] keyed_update_status [of w i st] assms by simp_all

text \<open>
  The second halves of \<open>UpdateStatus\<close> and \<open>Cancel\<close>: what was read decides, the current row is written.
\<close>

lemma update_rest_cases:
  assumes k: "keyed w" and u: "update_rest S i st found w = (x, w')"
  obtains (failed) e where "x = Inl e" "stored w' = stored w" "sent w' = sent w" "keyed w'"
    | (ok) r0 r r' where "x = Inr ()" "found = Inr r0" "may_become (r_Status r0) st" "stored w i = Some r"
        "same_but_times (r\<lparr>r_Status := st\<rparr>) r'" "stored w' = (stored w)(i \<mapsto> r')"
        "sent w' = sent w" "keyed w'"
proof (cases found)
  case (Inl e)
  with u k show ?thesis by (intro failed) (auto simp: update_rest_def)
next
  case (Inr r0)
  show ?thesis
  proof (cases "Transition st (ToDomain r0)")
    case (Inl e)
    with Inr u k show ?thesis by (intro failed) (auto simp: update_rest_def)
  next
    case T: (Inr dn)
    then have may: "may_become (r_Status r0) st" by (simp add: Transition_Inr_iff)
    obtain z w2 where z: "repo_UpdateStatus (svc_repo S) i st w = (z, w2)"
      by (cases "repo_UpdateStatus (svc_repo S) i st w")
    note f = update_frame [OF z]
    show ?thesis
    proof (cases z)
      case (Inl e)
      with update_status_err z have "stored w2 = stored w" by blast
      with Inl Inr T u z f k show ?thesis by (intro failed) (auto simp: update_rest_def)
    next
      case Z: (Inr r')
      with update_status_ok z k obtain r where "stored w i = Some r" "same_but_times (r\<lparr>r_Status := st\<rparr>) r'"
        "stored w2 = (stored w)(i \<mapsto> r')" by blast
      with Z Inr T u z f k may show ?thesis
        by (intro ok [of r0 r r']) (auto simp: update_rest_def)
    qed
  qed
qed

lemma cancel_rest_cases:
  assumes k: "keyed w" and c: "cancel_rest S ctx i found w = (x, w')"
  obtains (failed) e where "x = Inl e" "stored w' = stored w" "sent w' = sent w" "keyed w'"
    | (not_sent) e r0 r r' where "x = Inl e" "found = Inr r0" "may_become (r_Status r0) StatusCancelled"
        "stored w i = Some r" "same_but_times (r\<lparr>r_Status := StatusCancelled\<rparr>) r'"
        "stored w' = (stored w)(i \<mapsto> r')" "keyed w'"
        "sent w' = sent w \<or> sent w' = sent w @ [nats_message TopicNotificationScheduleCancelled ctx
            (cancelled_to_json \<lparr>ce_NotificationID = uuid_text (svc_lib S) i\<rparr>)]"
    | (ok) r0 r r' where "x = Inr r'" "found = Inr r0" "may_become (r_Status r0) StatusCancelled"
        "stored w i = Some r" "same_but_times (r\<lparr>r_Status := StatusCancelled\<rparr>) r'"
        "stored w' = (stored w)(i \<mapsto> r')" "keyed w'"
        "sent w' = sent w @ [nats_message TopicNotificationScheduleCancelled ctx
            (cancelled_to_json \<lparr>ce_NotificationID = uuid_text (svc_lib S) i\<rparr>)]"
proof (cases found)
  case (Inl e)
  with c k show ?thesis by (intro failed) (auto simp: cancel_rest_def)
next
  case (Inr r0)
  show ?thesis
  proof (cases "Transition StatusCancelled (ToDomain r0)")
    case (Inl e)
    with Inr c k show ?thesis by (intro failed) (auto simp: cancel_rest_def)
  next
    case T: (Inr dn)
    then have may: "may_become (r_Status r0) StatusCancelled" by (simp add: Transition_Inr_iff)
    obtain z w2 where z: "repo_UpdateStatus (svc_repo S) i StatusCancelled w = (z, w2)"
      by (cases "repo_UpdateStatus (svc_repo S) i StatusCancelled w")
    note f = update_frame [OF z]
    show ?thesis
    proof (cases z)
      case (Inl e)
      with update_status_err z have "stored w2 = stored w" by blast
      with Inl Inr T c z f k show ?thesis by (intro failed) (auto simp: cancel_rest_def)
    next
      case Z: (Inr r')
      with update_status_ok z k obtain r where u: "stored w i = Some r"
        "same_but_times (r\<lparr>r_Status := StatusCancelled\<rparr>) r'" "stored w2 = (stored w)(i \<mapsto> r')" by blast
      let ?j = "cancelled_to_json \<lparr>ce_NotificationID = uuid_text (svc_lib S) i\<rparr>"
      obtain q w3 where q: "pub_Publish (svc_pub S) ctx TopicNotificationScheduleCancelled ?j w2 = (q, w3)"
        by (cases "pub_Publish (svc_pub S) ctx TopicNotificationScheduleCancelled ?j w2")
      note h = publish_frame [OF q]
      show ?thesis
      proof (cases q)
        case (Inl e)
        then have "sent w3 = sent w2 \<or>
            sent w3 = sent w2 @ [nats_message TopicNotificationScheduleCancelled ctx ?j]"
          using publish_err q by blast
        with Inl Z Inr T c z q f h k may u show ?thesis
          by (intro not_sent [of _ r0 r r']) (auto simp: cancel_rest_def)
      next
        case Q: (Inr v)
        with publish_ok q have "sent w3 = sent w2 @ [nats_message TopicNotificationScheduleCancelled ctx ?j]"
          by blast
        with Z Inr T c z q Q f h k may u show ?thesis
          by (intro ok [of r' r0 r]) (auto simp: cancel_rest_def)
      qed
    qed
  qed
qed

text \<open>\<open>UpdateStatus\<close> of the service: refused unless the table allows the change.\<close>

lemma update_cases:
  assumes k: "keyed w" and u: "svc_UpdateStatus S i st w = (x, w')"
  obtains (failed) e where "x = Inl e" "stored w' = stored w" "sent w' = sent w" "keyed w'"
    | (ok) r r' where "x = Inr ()" "stored w i = Some r" "may_become (r_Status r) st"
        "same_but_times (r\<lparr>r_Status := st\<rparr>) r'" "stored w' = (stored w)(i \<mapsto> r')"
        "sent w' = sent w" "keyed w'"
proof -
  obtain y w1 where y: "repo_GetByID (svc_repo S) i w = (y, w1)" by (cases "repo_GetByID (svc_repo S) i w")
  note g = get_frame [OF y]
  have found: "stored w i = Some r" if "y = Inr r" for r using get_by_id_ok y that by blast
  from u y have "update_rest S i st y w1 = (x, w')" by (simp add: svc_UpdateStatus_def)
  with g(3) [OF k] show ?thesis
    by (cases rule: update_rest_cases) (use g found failed ok in \<open>force+\<close>)
qed

text \<open>\<open>Cancel\<close>: not found, refused, failed half way, or done.\<close>

lemma cancel_cases:
  assumes k: "keyed w" and c: "svc_Cancel S ctx i w = (x, w')"
  obtains (failed) e where "x = Inl e" "stored w' = stored w" "sent w' = sent w" "keyed w'"
    | (not_sent) e r r' where "x = Inl e" "stored w i = Some r"
        "may_become (r_Status r) StatusCancelled"
        "same_but_times (r\<lparr>r_Status := StatusCancelled\<rparr>) r'" "stored w' = (stored w)(i \<mapsto> r')" "keyed w'"
        "sent w' = sent w \<or> sent w' = sent w @ [nats_message TopicNotificationScheduleCancelled ctx
            (cancelled_to_json \<lparr>ce_NotificationID = uuid_text (svc_lib S) i\<rparr>)]"
    | (ok) r r' where "x = Inr r'" "stored w i = Some r" "may_become (r_Status r) StatusCancelled"
        "same_but_times (r\<lparr>r_Status := StatusCancelled\<rparr>) r'" "stored w' = (stored w)(i \<mapsto> r')"
        "sent w' = sent w @ [nats_message TopicNotificationScheduleCancelled ctx
            (cancelled_to_json \<lparr>ce_NotificationID = uuid_text (svc_lib S) i\<rparr>)]" "keyed w'"
proof -
  obtain y w1 where y: "repo_GetByID (svc_repo S) i w = (y, w1)" by (cases "repo_GetByID (svc_repo S) i w")
  note g = get_frame [OF y]
  have found: "stored w i = Some r" if "y = Inr r" for r using get_by_id_ok y that by blast
  from c y have "cancel_rest S ctx i y w1 = (x, w')" by (simp add: svc_Cancel_def)
  with g(3) [OF k] show ?thesis
  proof (cases rule: cancel_rest_cases)
    case (failed e)
    then show ?thesis using g by (intro that(1)) auto
  next
    case (not_sent e r0 r r')
    then show ?thesis using g found by (intro that(2) [of e r r']) auto
  next
    case (ok r0 r r')
    then show ?thesis using g found by (intro that(3) [of r' r]) auto
  qed
qed

end

section \<open>Batches\<close>

text \<open>The messages announcing a stored batch, and the rows of the accepted results.\<close>

definition batch_messages :: "golib \<Rightarrow> nrow list \<Rightarrow> (topic \<times> json) list" where
  "batch_messages L es =
     (if scheduled_items L es = [] then [] else [scheduled_message L (scheduled_items L es)])
     @ map (ready_message L) (immediate_entities es)"

definition accepted_rows :: "uuid \<Rightarrow> notification list \<Rightarrow> batch_result list \<Rightarrow> nrow list" where
  "accepted_rows b ns results =
     somes (map2 (\<lambda>n res. map_option (row_of n (Some b)) (br_ID res)) ns results)"

lemma scheduled_items_same:
  "list_all2 same_but_times es es' \<Longrightarrow> scheduled_items L es' = scheduled_items L es"
proof -
  assume "list_all2 same_but_times es es'"
  then have "map (\<lambda>e. map_option (scheduled_item_of L e) (r_DeliverAfter e)) es'
      = map (\<lambda>e. map_option (scheduled_item_of L e) (r_DeliverAfter e)) es"
    by (induction rule: list_all2_induct) (simp_all add: same_but_timesD scheduled_item_of_def [abs_def])
  then show ?thesis by (simp add: scheduled_items_def)
qed

lemma immediate_same:
  "list_all2 same_but_times es es' \<Longrightarrow>
     map (ready_message L) (immediate_entities es') = map (ready_message L) (immediate_entities es)"
  by (induction rule: list_all2_induct)
     (simp_all add: immediate_entities_def ready_message_def ready_From_same same_but_timesD)

lemma batch_messages_same:
  "list_all2 same_but_times es es' \<Longrightarrow> batch_messages L es' = batch_messages L es"
  by (simp add: batch_messages_def scheduled_items_same immediate_same)

lemma length_reject [simp]: "length (fold (reject_at msg) is rs) = length rs"
  by (induction "is" arbitrary: rs) (simp_all add: reject_at_def)

lemma nth_reject:
  "\<forall>i \<in> set is. i < length rs \<Longrightarrow>
   fold (reject_at msg) is rs ! j =
     (if j \<in> set is then (rs ! j)\<lparr>br_Status := ''rejected'', br_Error := Some msg, br_ID := None\<rparr>
      else rs ! j)"
proof (induction "is" arbitrary: rs)
  case (Cons i "is")
  then show ?case
    by (cases "j = i") (auto simp: reject_at_def nth_list_update)
qed simp

text \<open>What the result for the notification at one index says.\<close>

definition item_reported :: "(uuid \<Rightarrow> nrow option) \<Rightarrow> uuid \<Rightarrow> nat \<Rightarrow> notification \<Rightarrow> batch_result \<Rightarrow> bool" where
  "item_reported m b j n res \<longleftrightarrow> br_Index res = j \<and>
     (case br_ID res of
        None \<Rightarrow> br_Status res = ''rejected'' \<and> br_Error res \<noteq> None
      | Some u \<Rightarrow> br_Status res = ''accepted'' \<and> br_Error res = None
          \<and> (\<exists>r. m u = Some r \<and> same_but_times (row_of n (Some b) u) r))"

definition converted :: "uuid \<Rightarrow> nat \<Rightarrow> notification \<Rightarrow> nrow option \<Rightarrow> batch_result \<Rightarrow> bool" where
  "converted b j n e res \<longleftrightarrow> br_Index res = j \<and> e = map_option (row_of n (Some b)) (br_ID res)
     \<and> (br_Status res, br_Error res = None) =
         (if br_ID res = None then (''rejected'', False) else (''accepted'', True))"

context api_env
begin

lemma convert_all_spec:
  assumes "convert_all (svc_ids S) b i ns w = ((es, rs), w')"
  shows "stored w' = stored w \<and> sent w' = sent w \<and> keyed w' = keyed w \<and>
    length es = length ns \<and> length rs = length ns \<and>
    (\<forall>j < length ns. converted b (i + j) (ns ! j) (es ! j) (rs ! j))"
  using assms
proof (induction ns arbitrary: i w es rs w')
  case (Cons n ns)
  obtain y w1 where y: "From_notification (svc_ids S) n (Some b) w = (y, w1)"
    by (cases "From_notification (svc_ids S) n (Some b) w")
  obtain es' rs' w2 where rec: "convert_all (svc_ids S) b (Suc i) ns w1 = ((es', rs'), w2)"
    by (cases "convert_all (svc_ids S) b (Suc i) ns w1") auto
  have "\<exists>e r. es = e # es' \<and> rs = r # rs' \<and> w' = w2 \<and> converted b i n e r \<and>
    stored w1 = stored w \<and> sent w1 = sent w \<and> keyed w1 = keyed w"
    using y
  proof (cases rule: From_cases)
    case (failed e)
    let ?r = "\<lparr>br_Index = i, br_Status = ''rejected'', br_ID = None, br_Error = Some (err_text e)\<rparr>"
    have "converted b i n None ?r" by (simp add: converted_def)
    moreover have "es = None # es'" "rs = ?r # rs'" "w' = w2" using failed Cons.prems y rec by auto
    ultimately show ?thesis using failed by blast
  next
    case (ok u)
    let ?e = "row_of n (Some b) u"
    let ?r = "\<lparr>br_Index = i, br_Status = ''accepted'', br_ID = Some u, br_Error = None\<rparr>"
    have "r_ID ?e = u" by (simp add: row_of_def)
    then have "es = Some ?e # es'" "rs = ?r # rs'" "w' = w2" using ok Cons.prems y rec by auto
    moreover have "converted b i n (Some ?e) ?r" by (simp add: converted_def)
    ultimately show ?thesis using ok by blast
  qed
  then obtain e r where er: "es = e # es'" "rs = r # rs'" "w' = w2" "converted b i n e r"
    "stored w1 = stored w" "sent w1 = sent w" "keyed w1 = keyed w" by blast
  note ih = Cons.IH [OF rec]
  have "converted b (i + j) ((n # ns) ! j) (es ! j) (rs ! j)" if "j < length (n # ns)" for j
    using that ih er by (cases j) simp_all
  with ih er show ?case by simp
qed simp

lemma publish_batch_cases:
  assumes "publish_batch_events S ctx es w = (x, w')"
  shows "stored w' = stored w \<and> keyed w' = keyed w \<and>
    (case x of
       Inr _ \<Rightarrow> sent w' = sent w @ map (in_context ctx) (batch_messages (svc_lib S) es)
     | Inl _ \<Rightarrow> \<exists>pre. prefix pre (batch_messages (svc_lib S) es)
                  \<and> sent w' = sent w @ map (in_context ctx) pre)"
proof -
  have each_frame: "stored w2 = stored w1 \<and> keyed w2 = keyed w1"
    if "publish_each (pub_Publish (svc_pub S)) f c ms w1 = (y, w2)" for f c ms w1 y w2
    using that
  proof (induction ms arbitrary: w1)
    case (Cons m ms)
    obtain t j where m: "m = (t, j)" by (cases m)
    obtain z w3 where z: "pub_Publish (svc_pub S) c t j w1 = (z, w3)"
      by (cases "pub_Publish (svc_pub S) c t j w1")
    from Cons m z publish_frame [OF z] show ?case by (cases z) simp_all
  qed simp
  have map_eq: "map (\<lambda>(t, j). nats_message t ctx j) ms = map (in_context ctx) ms" for ms
    by (simp add: in_context_def split_beta)
  let ?L = "svc_lib S" and ?sched = "scheduled_items (svc_lib S) es"
  let ?imm = "map (ready_message ?L) (immediate_entities es)"
  let ?f = "\<lambda>e. Wrap ''publish ready event: '' e ''''"
  show ?thesis
  proof (cases "?sched = []")
    case True
    with assms have all: "publish_each (pub_Publish (svc_pub S)) ?f ctx ?imm w = (x, w')"
      by (simp add: publish_batch_events_def Let_def)
    have ms: "batch_messages ?L es = ?imm" using True by (simp add: batch_messages_def)
    note fr = each_frame [OF all]
    show ?thesis
    proof (cases x)
      case (Inl e)
      obtain pre where "prefix pre ?imm" "sent w' = sent w @ map (in_context ctx) pre"
        using publish_each_err [OF all [unfolded Inl]] by (auto simp only: map_eq)
      with Inl fr ms show ?thesis by auto
    next
      case (Inr u)
      have "sent w' = sent w @ map (in_context ctx) ?imm"
        using publish_each_ok [OF all [unfolded Inr]] by (simp only: map_eq)
      with Inr fr ms show ?thesis by simp
    qed
  next
    case False
    let ?m = "scheduled_message ?L ?sched"
    obtain y w1 where y: "pub_Publish (svc_pub S) ctx (fst ?m) (snd ?m) w = (y, w1)"
      by (cases "pub_Publish (svc_pub S) ctx (fst ?m) (snd ?m) w")
    note h = publish_frame [OF y]
    show ?thesis
    proof (cases y)
      case (Inl e)
      have "sent w1 = sent w \<or> sent w1 = sent w @ [in_context ctx ?m]"
        using publish_err [OF y [unfolded Inl]] by (simp add: in_context_def)
      then have "\<exists>pre. prefix pre (?m # ?imm) \<and> sent w1 = sent w @ map (in_context ctx) pre"
        by (auto intro: exI [of _ "[]"] exI [of _ "[?m]"])
      with Inl False assms y h show ?thesis
        by (auto simp: publish_batch_events_def Let_def batch_messages_def)
    next
      case (Inr u)
      with publish_ok y have s1: "sent w1 = sent w @ [in_context ctx ?m]" by (simp add: in_context_def)
      from Inr False assms y have rest: "publish_each (pub_Publish (svc_pub S)) ?f ctx ?imm w1 = (x, w')"
        by (simp add: publish_batch_events_def Let_def)
      note fr = each_frame [OF rest]
      show ?thesis
      proof (cases x)
        case (Inl e)
        obtain pre where "prefix pre ?imm" "sent w' = sent w1 @ map (in_context ctx) pre"
          using publish_each_err [OF rest [unfolded Inl]] by (auto simp only: map_eq)
        with Inl False h fr s1 show ?thesis
          by (auto simp: batch_messages_def intro: exI [of _ "?m # pre"])
      next
        case (Inr v)
        have "sent w' = sent w1 @ map (in_context ctx) ?imm"
          using publish_each_ok [OF rest [unfolded Inr]] by (simp only: map_eq)
        with Inr False h fr s1 show ?thesis by (simp add: batch_messages_def)
      qed
    qed
  qed
qed

end

lemma accepted_rows_eq:
  assumes "length es = length ns" "length rs = length ns"
    and "\<forall>j < length ns. converted b j (ns ! j) (es ! j) (rs ! j)"
  shows "accepted_rows b ns rs = somes es"
proof -
  have "map2 (\<lambda>n res. map_option (row_of n (Some b)) (br_ID res)) ns rs = es"
    using assms by (intro nth_equalityI) (simp_all add: converted_def)
  then show ?thesis by (simp add: accepted_rows_def)
qed

lemma accepted_rows_none:
  "\<forall>res \<in> set rs. br_ID res = None \<Longrightarrow> accepted_rows b ns rs = []"
proof -
  assume none: "\<forall>res \<in> set rs. br_ID res = None"
  have "somes xs = [] " if "\<forall>x \<in> set xs. x = None" for xs :: "nrow option list"
    using that by (induction xs rule: somes.induct) simp_all
  moreover have "\<forall>x \<in> set (map2 (\<lambda>n res. map_option (row_of n (Some b)) (br_ID res)) ns rs). x = None"
    using none by (auto dest: set_zip_rightD)
  ultimately show ?thesis by (simp add: accepted_rows_def)
qed

text \<open>What is stored when the batch insert succeeds.\<close>

lemma batch_row_stored:
  assumes "list_all2 same_but_times es rs" "distinct (map r_ID es)" "e \<in> set es"
  shows "\<exists>r. map_of (map (\<lambda>r. (r_ID r, r)) rs) (r_ID e) = Some r \<and> same_but_times e r"
  using assms
proof (induction rule: list_all2_induct)
  case (Cons x xs y ys)
  show ?case
  proof (cases "e = x")
    case True
    with Cons.hyps show ?thesis by (simp add: same_but_timesD(1))
  next
    case False
    with Cons.prems have "e \<in> set xs" "r_ID e \<noteq> r_ID x" by (auto simp: image_iff)
    with Cons show ?thesis by (simp add: same_but_timesD(1))
  qed
qed simp

lemma batch_keys:
  assumes "list_all2 same_but_times es rs"
  shows "map r_ID rs = map r_ID es"
  using assms by (induction rule: list_all2_induct) (simp_all add: same_but_timesD(1))

context api_env
begin

lemma persist_batch_cases:
  assumes k: "keyed w" and p: "persist_batch S es rs w = ((acc, rs'), w')"
    and len: "length es = length ns" "length rs = length ns"
    and conv: "\<forall>j < length ns. converted b j (ns ! j) (es ! j) (rs ! j)"
  obtains (none) "acc = []" "stored w' = stored w" "sent w' = sent w" "keyed w'"
      "length rs' = length ns" "\<forall>res \<in> set rs'. br_ID res = None"
      "\<forall>j < length ns. item_reported (stored w') b j (ns ! j) (rs' ! j)"
    | (stored) "rs' = rs" "list_all2 same_but_times (somes es) acc" "sent w' = sent w" "keyed w'"
      "\<forall>r \<in> set (somes es). stored w (r_ID r) = None" "distinct (map r_ID (somes es))"
      "stored w' = stored w ++ map_of (map (\<lambda>r. (r_ID r, r)) acc)"
proof (cases "somes es = []")
  case True
  then have "es ! j = None" if "j < length ns" for j
    using that len set_somes [of es] by (metis mem_Collect_eq nth_mem not_None_eq empty_iff list.set(1))
  with conv have "\<forall>j < length ns. br_ID (rs ! j) = None" by (simp add: converted_def)
  moreover from this conv have "\<forall>j < length ns. item_reported (stored w') b j (ns ! j) (rs ! j)"
    by (simp add: converted_def item_reported_def)
  moreover from p True have "acc = []" "rs' = rs" "w' = w" by (simp_all add: persist_batch_def)
  ultimately show ?thesis using len k by (intro none) (auto simp: in_set_conv_nth)
next
  case False
  obtain y w1 where y: "repo_CreateBatch (svc_repo S) (somes es) w = (y, w1)"
    by (cases "repo_CreateBatch (svc_repo S) (somes es) w")
  have f: "sent w1 = sent w" "keyed w1"
    using create_batch_sent [of "somes es" w] keyed_create_batch [OF k, of "somes es"] y by simp_all
  show ?thesis
  proof (cases y)
    case (Inl e)
    let ?msg = "''create notifications: '' @ err_text e"
    from Inl p False y have eq: "acc = []" "w' = w1" "rs' = fold (reject_at ?msg) (acceptedIndices es) rs"
      by (simp_all add: persist_batch_def)
    from Inl create_batch_err y have st: "stored w1 = stored w" by blast
    have acc: "\<forall>i \<in> set (acceptedIndices es). i < length rs" using len by (simp add: acceptedIndices_def)
    have nth: "rs' ! j = (if es ! j \<noteq> None
        then (rs ! j)\<lparr>br_Status := ''rejected'', br_Error := Some ?msg, br_ID := None\<rparr> else rs ! j)"
      if "j < length ns" for j
    proof -
      have "j \<in> set (acceptedIndices es) \<longleftrightarrow> es ! j \<noteq> None"
        using that len by (simp add: acceptedIndices_def)
      then show ?thesis unfolding eq(3) nth_reject [OF acc] by (rule if_cong) (rule refl)+
    qed
    have no: "br_ID (rs' ! j) = None" if "j < length ns" for j
      using that conv by (auto simp: nth converted_def)
    have "item_reported (stored w1) b j (ns ! j) (rs' ! j)" if "j < length ns" for j
      using that conv no [OF that] by (auto simp: nth converted_def item_reported_def)
    with eq st f len no show ?thesis by (intro none) (auto simp: in_set_conv_nth)
  next
    case (Inr st)
    with p False y have eq: "acc = st" "rs' = rs" "w' = w1" by (simp_all add: persist_batch_def)
    from create_batch_ok [OF k] y Inr have "list_all2 same_but_times (somes es) st"
      "distinct (map r_ID (somes es))" "\<forall>r \<in> set (somes es). stored w (r_ID r) = None"
      "stored w1 = stored w ++ map_of (map (\<lambda>r. (r_ID r, r)) st)" by blast+
    with eq f show ?thesis by (intro that(2)) simp_all
  qed
qed

lemma batch_spec:
  assumes k: "keyed w" and c: "svc_CreateBatch S ctx ns w = ((b, results, err), w')"
  shows "length results = length ns"
    and "\<forall>j < length ns. item_reported (stored w') b j (ns ! j) (results ! j)"
    and "\<forall>i. stored w' i \<noteq> stored w i \<longrightarrow> stored w i = None \<and> (\<exists>res \<in> set results. br_ID res = Some i)"
    and "if err = None
         then sent w' = sent w @ map (in_context ctx) (batch_messages (svc_lib S) (accepted_rows b ns results))
         else \<exists>pre. prefix pre (batch_messages (svc_lib S) (accepted_rows b ns results))
                \<and> sent w' = sent w @ map (in_context ctx) pre"
    and "keyed w'"
    and "distinct (map r_ID (accepted_rows b ns results))"
    and "\<forall>r \<in> set (accepted_rows b ns results). stored w (r_ID r) = None"
proof -
  obtain w0 where w0: "ids_New (svc_ids S) w = (b, w0)"
    using c by (auto simp: svc_CreateBatch_def split: prod.splits sum.splits)
  obtain es rs w1 where w1: "convert_all (svc_ids S) b 0 ns w0 = ((es, rs), w1)"
    by (cases "convert_all (svc_ids S) b 0 ns w0") auto
  obtain acc rs' w2 where w2: "persist_batch S es rs w1 = ((acc, rs'), w2)"
    by (cases "persist_batch S es rs w1") auto
  obtain x w3 where w3: "publish_batch_events S ctx acc w2 = (x, w3)"
    by (cases "publish_batch_events S ctx acc w2")
  have eq: "results = rs'" "w' = w3" "err = (case x of Inl e \<Rightarrow> Some e | Inr _ \<Rightarrow> None)"
    using c w0 w1 w2 w3 by (auto simp: svc_CreateBatch_def split: sum.splits)
  have f0: "stored w0 = stored w" "sent w0 = sent w" "keyed w0 = keyed w" using new_frame [of w] w0 by simp_all
  note cv = convert_all_spec [OF w1]
  have cv1: "stored w1 = stored w" "sent w1 = sent w" "keyed w1"
    and len: "length es = length ns" "length rs = length ns"
    and conv: "\<forall>j < length ns. converted b j (ns ! j) (es ! j) (rs ! j)"
    using cv f0 k by simp_all
  note pb = publish_batch_cases [OF w3]
  have main: "length results = length ns \<and>
    (\<forall>j < length ns. item_reported (stored w2) b j (ns ! j) (results ! j)) \<and>
    (\<forall>i. stored w2 i \<noteq> stored w i \<longrightarrow> stored w i = None \<and> (\<exists>res \<in> set results. br_ID res = Some i)) \<and>
    batch_messages (svc_lib S) acc = batch_messages (svc_lib S) (accepted_rows b ns results) \<and>
    distinct (map r_ID (accepted_rows b ns results)) \<and>
    (\<forall>r \<in> set (accepted_rows b ns results). stored w (r_ID r) = None) \<and> sent w2 = sent w \<and> keyed w2"
    using cv1(3) w2 len conv
  proof (cases rule: persist_batch_cases)
    case none
    with cv1 eq show ?thesis by (simp add: accepted_rows_none)
  next
    case stored
    have rows: "accepted_rows b ns results = somes es"
      using accepted_rows_eq [OF len conv] eq stored(1) by simp
    have rep: "item_reported (stored w2) b j (ns ! j) (rs ! j)" if j: "j < length ns" for j
    proof (cases "br_ID (rs ! j)")
      case None
      with conv j show ?thesis by (auto simp: converted_def item_reported_def)
    next
      case (Some u)
      have cj: "converted b j (ns ! j) (es ! j) (rs ! j)" using conv j by simp
      with Some have e: "es ! j = Some (row_of (ns ! j) (Some b) u)" by (simp add: converted_def)
      then have "row_of (ns ! j) (Some b) u \<in> set (somes es)"
        using j len by (auto simp: set_somes in_set_conv_nth)
      from batch_row_stored [OF stored(2,6) this]
      obtain r where "map_of (map (\<lambda>r. (r_ID r, r)) acc) u = Some r"
        "same_but_times (row_of (ns ! j) (Some b) u) r" by (auto simp: row_of_def)
      with stored(7) Some cj show ?thesis by (auto simp: converted_def item_reported_def)
    qed
    have new: "stored w i = None \<and> (\<exists>res \<in> set rs. br_ID res = Some i)" if i: "stored w2 i \<noteq> stored w i" for i
    proof -
      from i stored(7) cv1 have "i \<in> r_ID ` set acc"
        by (auto simp: map_add_def dest!: map_of_SomeD split: option.splits)
      then have "i \<in> set (map r_ID (somes es))" by (simp flip: batch_keys [OF stored(2)])
      then obtain e where e: "e \<in> set (somes es)" "r_ID e = i" by auto
      then obtain j where j: "j < length ns" "es ! j = Some e"
        using len by (auto simp: set_somes in_set_conv_nth)
      with conv have "br_ID (rs ! j) = Some i" using e(2) by (auto simp: converted_def row_of_def)
      moreover have "stored w i = None" using stored(5) e cv1 by auto
      ultimately show ?thesis using j len by (metis nth_mem)
    qed
    have "distinct (map r_ID (accepted_rows b ns results))"
      "\<forall>r \<in> set (accepted_rows b ns results). stored w (r_ID r) = None" using stored(5,6) rows cv1 by simp_all
    with rep new rows stored cv1 eq len show ?thesis by (auto simp: batch_messages_same)
  qed
  with pb eq show "length results = length ns"
    "\<forall>j < length ns. item_reported (stored w') b j (ns ! j) (results ! j)"
    "\<forall>i. stored w' i \<noteq> stored w i \<longrightarrow> stored w i = None \<and> (\<exists>res \<in> set results. br_ID res = Some i)"
    "keyed w'" "distinct (map r_ID (accepted_rows b ns results))"
    "\<forall>r \<in> set (accepted_rows b ns results). stored w (r_ID r) = None" by simp_all
  from main pb eq show "if err = None
         then sent w' = sent w @ map (in_context ctx) (batch_messages (svc_lib S) (accepted_rows b ns results))
         else \<exists>pre. prefix pre (batch_messages (svc_lib S) (accepted_rows b ns results))
                \<and> sent w' = sent w @ map (in_context ctx) pre"
    by (cases x) simp_all
qed

end

end
