(* ===== verification/ApiWorld.thy ===== *)
theory ApiWorld
  imports ApiService
begin

text \<open>
  Sequences of requests to the notification service, and the concrete service: the PostgreSQL
  repository, the NATS publisher and two generators of identifiers as parts of one world, the
  deployment cmd/api assembles. It interprets \<open>api_env\<close>, and the properties of the service are
  stated for it.
\<close>

section \<open>Sequences of calls\<close>

datatype request =
    CallCreate trace notification
  | CallCreateBatch trace "notification list"
  | CallGetByID uuid
  | CallList list_filter
  | CallCancel trace uuid
  | CallUpdateStatus uuid status

fun service_call :: "'w service_deps \<Rightarrow> request \<Rightarrow> 'w \<Rightarrow> 'w" where
  "service_call S (CallCreate c n) w = snd (svc_Create S c n w)"
| "service_call S (CallCreateBatch c ns) w = snd (svc_CreateBatch S c ns w)"
| "service_call S (CallGetByID i) w = snd (svc_GetByID S i w)"
| "service_call S (CallList f) w = snd (svc_List S f w)"
| "service_call S (CallCancel c i) w = snd (svc_Cancel S c i w)"
| "service_call S (CallUpdateStatus i st) w = snd (svc_UpdateStatus S i st w)"

definition service_calls :: "'w service_deps \<Rightarrow> request list \<Rightarrow> 'w \<Rightarrow> 'w" where
  "service_calls S calls w = fold (service_call S) calls w"

text \<open>What a row may be after any number of calls.\<close>

definition row_later :: "nrow \<Rightarrow> nrow \<Rightarrow> bool" where
  "row_later r r' \<longleftrightarrow>
     (\<exists>st. may_become\<^sup>*\<^sup>* (r_Status r) st \<and> same_but_times (r\<lparr>r_Status := st\<rparr>) r')"

lemma row_later_refl [simp]: "row_later r r"
  unfolding row_later_def by (rule exI [of _ "r_Status r"]) simp

lemma same_times_status:
  "same_but_times (r\<lparr>r_Status := st\<rparr>) r' \<Longrightarrow> same_but_times (r'\<lparr>r_Status := st'\<rparr>) r'' \<Longrightarrow>
     same_but_times (r\<lparr>r_Status := st'\<rparr>) r''"
proof -
  assume "same_but_times (r\<lparr>r_Status := st\<rparr>) r'" "same_but_times (r'\<lparr>r_Status := st'\<rparr>) r''"
  then obtain c u c' u' where "r' = r\<lparr>r_Status := st, r_CreatedAt := c, r_UpdatedAt := u\<rparr>"
    "r'' = r'\<lparr>r_Status := st', r_CreatedAt := c', r_UpdatedAt := u'\<rparr>"
    unfolding same_but_times_def by fastforce
  then show ?thesis by (simp add: same_but_times_def)
qed

lemma row_later_trans: "row_later r r' \<Longrightarrow> row_evolves r' r'' \<Longrightarrow> row_later r r''"
proof -
  assume "row_later r r'" "row_evolves r' r''"
  then obtain st st' where "may_become\<^sup>*\<^sup>* (r_Status r) st" "same_but_times (r\<lparr>r_Status := st\<rparr>) r'"
    "may_become (r_Status r') st'" "same_but_times (r'\<lparr>r_Status := st'\<rparr>) r''"
    by (auto simp: row_later_def row_evolves_def)
  moreover from this(2) have "r_Status r' = st" by (auto dest: same_but_timesD(7))
  ultimately show ?thesis
    unfolding row_later_def by (auto intro: rtranclp.rtrancl_into_rtrancl same_times_status)
qed

lemma terminal_forever: "may_become\<^sup>*\<^sup>* st st' \<Longrightarrow> terminal_status st \<Longrightarrow> st' = st"
  by (induction rule: rtranclp_induct) (auto dest: terminal_stays)

lemma row_later_terminal:
  assumes "row_later r r'" "terminal_status (r_Status r)"
  shows "same_but_times r r'"
proof -
  from assms obtain st where "may_become\<^sup>*\<^sup>* (r_Status r) st" "same_but_times (r\<lparr>r_Status := st\<rparr>) r'"
    by (auto simp: row_later_def)
  with assms(2) terminal_forever have "same_but_times (r\<lparr>r_Status := r_Status r\<rparr>) r'" by metis
  then show ?thesis by simp
qed

context api_env
begin

definition evolved :: "'w \<Rightarrow> 'w \<Rightarrow> bool" where
  "evolved w w' \<longleftrightarrow> keyed w' \<and> prefix (sent w) (sent w') \<and>
     (\<forall>i r. stored w i = Some r \<longrightarrow> (\<exists>r'. stored w' i = Some r' \<and> row_evolves r r'))"

lemma evolved_same: "stored w' = stored w \<Longrightarrow> sent w' = sent w \<Longrightarrow> keyed w' \<Longrightarrow> evolved w w'"
  by (auto simp: evolved_def)

lemma evolved_set:
  assumes "stored w i = Some r" "may_become (r_Status r) st" "same_but_times (r\<lparr>r_Status := st\<rparr>) r'"
    and "stored w' = (stored w)(i \<mapsto> r')" "prefix (sent w) (sent w')" "keyed w'"
  shows "evolved w w'"
proof -
  have "row_evolves r r'" using assms by (auto simp: row_evolves_def)
  with assms show ?thesis by (auto simp: evolved_def)
qed

lemma evolved_new:
  assumes "stored w i = None" "stored w' = (stored w)(i \<mapsto> r)" "prefix (sent w) (sent w')" "keyed w'"
  shows "evolved w w'"
  using assms by (auto simp: evolved_def)

lemma call_evolves:
  assumes k: "keyed w"
  shows "evolved w (service_call S c w)"
proof (cases c)
  case (CallCreate ctx n)
  obtain x w' where e: "svc_Create S ctx n w = (x, w')" by fastforce
  from k e have "evolved w w'"
    by (cases rule: create_cases) (auto intro: evolved_same evolved_new)
  with e CallCreate show ?thesis by simp
next
  case (CallCreateBatch ctx ns)
  obtain b results err w' where e: "svc_CreateBatch S ctx ns w = ((b, results, err), w')"
    by (cases "svc_CreateBatch S ctx ns w") auto
  note spec = batch_spec [OF k e]
  have "prefix (sent w) (sent w')" using spec(4) by (auto split: if_splits)
  moreover have "stored w' i = Some r" if "stored w i = Some r" for i r
    using spec(3) that by (metis option.distinct(1))
  ultimately have "evolved w w'" using spec(5) by (auto simp: evolved_def)
  with e CallCreateBatch show ?thesis by simp
next
  case (CallGetByID i)
  obtain x w' where e: "repo_GetByID (svc_repo S) i w = (x, w')" by fastforce
  from get_frame [OF e] k e CallGetByID show ?thesis by (auto simp: svc_GetByID_def intro: evolved_same)
next
  case (CallList f)
  with k keyed_list list_stored list_sent show ?thesis
    by (auto simp: svc_List_def intro: evolved_same)
next
  case (CallCancel ctx i)
  obtain x w' where e: "svc_Cancel S ctx i w = (x, w')" by fastforce
  from k e have "evolved w w'"
  proof (cases rule: cancel_cases)
    case (not_sent e r r')
    then have "prefix (sent w) (sent w')" by auto
    with not_sent show ?thesis by (intro evolved_set)
  qed (auto intro: evolved_same evolved_set)
  with e CallCancel show ?thesis by simp
next
  case (CallUpdateStatus i st)
  obtain x w' where e: "svc_UpdateStatus S i st w = (x, w')" by fastforce
  from k e have "evolved w w'"
    by (cases rule: update_cases) (auto intro: evolved_same evolved_set)
  with e CallUpdateStatus show ?thesis by simp
qed

lemma calls_later:
  "keyed w \<Longrightarrow> keyed (service_calls S cs w) \<and> prefix (sent w) (sent (service_calls S cs w)) \<and>
     (\<forall>i r. stored w i = Some r \<longrightarrow>
        (\<exists>r'. stored (service_calls S cs w) i = Some r' \<and> row_later r r'))"
proof (induction cs rule: rev_induct)
  case (snoc c cs)
  let ?w = "service_calls S cs w"
  have step: "service_calls S (cs @ [c]) w = service_call S c ?w" by (simp add: service_calls_def)
  from snoc have "keyed ?w" by simp
  from call_evolves [OF this, of c] snoc show ?case
    unfolding step evolved_def by (meson prefix_order.trans row_later_trans)
qed (simp add: service_calls_def)

end

section \<open>The concrete service\<close>

record api_world =
  aw_db :: pgdb
  aw_nats :: nats
  aw_v7 :: "uuid result tape"
  aw_v4 :: "uuid tape"

definition set_db :: "pgdb \<Rightarrow> api_world \<Rightarrow> api_world" where
  "set_db d w = w\<lparr>aw_db := d\<rparr>"

definition set_nats :: "nats \<Rightarrow> api_world \<Rightarrow> api_world" where
  "set_nats s w = w\<lparr>aw_nats := s\<rparr>"

lemma world_parts [simp]:
  "aw_db (set_db d w) = d" "aw_nats (set_db d w) = aw_nats w"
  "aw_nats (set_nats s w) = s" "aw_db (set_nats s w) = aw_db w"
  by (simp_all add: set_db_def set_nats_def)

definition api_ids :: "api_world idgen" where
  "api_ids = \<lparr>
     ids_NewV7 = (\<lambda>w. (tape_read (aw_v7 w), w\<lparr>aw_v7 := tape_next (aw_v7 w)\<rparr>)),
     ids_New = (\<lambda>w. (tape_read (aw_v4 w), w\<lparr>aw_v4 := tape_next (aw_v4 w)\<rparr>))\<rparr>"

definition api_publisher :: "api_world publisher" where
  "api_publisher = \<lparr>pub_Publish = (\<lambda>c t j. on_part aw_nats set_nats (pub_Publish nats_publisher c t j))\<rparr>"

definition api_deps :: "golib \<Rightarrow> api_world service_deps" where
  "api_deps L = \<lparr>svc_repo = repo_on_part aw_db set_db (pg_repo L), svc_pub = api_publisher,
     svc_ids = api_ids, svc_lib = L\<rparr>"

definition api_row :: "api_world \<Rightarrow> uuid \<Rightarrow> nrow option" where
  "api_row w = pg_stored (aw_db w)"

definition api_keyed :: "api_world \<Rightarrow> bool" where
  "api_keyed w = pg_keys (aw_db w)"

definition api_sent :: "api_world \<Rightarrow> nats_msg list" where
  "api_sent w = na_log (aw_nats w)"

lemma api_deps_sel [simp]:
  "svc_repo (api_deps L) = repo_on_part aw_db set_db (pg_repo L)"
  "pub_Publish (svc_pub (api_deps L)) = (\<lambda>c t j. on_part aw_nats set_nats (Publish c t j))"
  "svc_ids (api_deps L) = api_ids" "svc_lib (api_deps L) = L"
  by (simp_all add: api_deps_def api_publisher_def nats_publisher_def)

interpretation api: api_env "api_deps L" api_row api_keyed api_sent for L
proof (intro api_env.intro api_env_axioms.intro)
  show "notif_store (svc_repo (api_deps L)) api_row api_keyed"
    unfolding api_deps_sel api_row_def [abs_def] api_keyed_def [abs_def]
    by (intro notif_store_on_part pg_store.notif_store_axioms) simp
  show "publisher_port (pub_Publish (svc_pub (api_deps L))) api_sent"
    unfolding api_deps_sel api_sent_def [abs_def]
    by (intro publisher_port_on_part nats_pub.publisher_port_axioms) simp
qed (simp_all add: api_row_def api_keyed_def api_sent_def api_ids_def)

section \<open>Properties\<close>

text \<open>A world to run examples in: one pending row, no faults, and fresh identifiers 100, 101, ...\<close>

definition sample_notification :: notification where
  "sample_notification = \<lparr>n_channel = ChannelSMS, n_recipient = ''+905551234567'', n_content = ''hi'',
     n_priority = PriorityHigh, n_status = StatusPending, n_deliverAfter = None, n_maxAttempts = 3\<rparr>"

definition sample_row :: nrow where
  "sample_row = (row_of sample_notification None (UUID 7))\<lparr>r_CreatedAt := 5, r_UpdatedAt := 5\<rparr>"

definition sample_world :: api_world where
  "sample_world = \<lparr>
     aw_db = \<lparr>pg_rows = [sample_row], pg_now = 10, pg_faults = Tape (\<lambda>n. None) 0\<rparr>,
     aw_nats = \<lparr>na_log = [], na_replies = Tape (\<lambda>n. PubAck) 0, na_waits = Tape (\<lambda>n. True) 0\<rparr>,
     aw_v7 = Tape (\<lambda>n. Inr (UUID (of_nat (100 + n)))) 0,
     aw_v4 = Tape (\<lambda>n. UUID (of_nat (200 + n))) 0\<rparr>"

lemma sample_fits: "row_fits sample_row" "row_fits (sample_row\<lparr>r_Status := StatusCancelled\<rparr>)"
  by code_simp+

lemma sample_keyed: "api_keyed sample_world"
  by (simp add: api_keyed_def pg_keys_def sample_world_def sample_fits)

lemma sample_stored: "api_row sample_world (UUID 7) = Some sample_row"
  by (simp add: api_row_def pg_stored_def sample_world_def sample_row_def row_of_def)

text \<open>
  C8: for every sequence of requests to the notification service, and whatever faults the database
  and the broker produce, a stored notification is never lost and never changes its recipient,
  channel, content, priority, schedule, batch or number of attempts; its status moves only along
  the transition table, and messages are only ever appended to the stream.
\<close>

theorem rows_evolve_along_the_table:
  assumes "api_keyed w" "api_row w i = Some r"
  shows "\<exists>r'. api_row (service_calls (api_deps L) cs w) i = Some r' \<and>
    (\<exists>st. may_become\<^sup>*\<^sup>* (r_Status r) st \<and> same_but_times (r\<lparr>r_Status := st\<rparr>) r') \<and>
    prefix (api_sent w) (api_sent (service_calls (api_deps L) cs w))"
  using api.calls_later [OF assms(1), of L cs] assms(2) unfolding row_later_def by blast

theorem rows_evolve_witness:
  "\<exists>r'. api_row (service_calls (api_deps sample_lib)
        [CallCancel [] (UUID 7), CallUpdateStatus (UUID 7) StatusDelivered] sample_world) (UUID 7) = Some r' \<and>
      (\<exists>st. may_become\<^sup>*\<^sup>* (r_Status sample_row) st \<and> same_but_times (sample_row\<lparr>r_Status := st\<rparr>) r')"
  using rows_evolve_along_the_table [OF sample_keyed sample_stored] by blast


definition sample_cancelled :: api_world where
  "sample_cancelled =
     set_db (aw_db sample_world\<lparr>pg_rows := [sample_row\<lparr>r_Status := StatusCancelled\<rparr>]\<rparr>) sample_world"

lemma sample_cancelled_ok:
  "api_keyed sample_cancelled" "api_row sample_cancelled (UUID 7) = Some (sample_row\<lparr>r_Status := StatusCancelled\<rparr>)"
  by (simp_all add: sample_cancelled_def api_keyed_def pg_keys_def api_row_def pg_stored_def sample_fits)
     (simp add: sample_row_def row_of_def)


text \<open>
  C10: \<open>Create\<close>. On success exactly one new row, carrying the notification as pending under a fresh
  identifier, is stored, and exactly one message announcing it (scheduled or ready on its
  priority's topic) is published. On error either nothing happened, or the row was stored and
  its announcement is the only thing that may be missing.
\<close>

theorem create_effects:
  assumes "api_keyed w" "svc_Create (api_deps L) ctx n w = (x, w')"
  shows "case x of
      Inr r \<Rightarrow> same_but_times (row_of n None (r_ID r)) r \<and> api_row w (r_ID r) = None
        \<and> api_row w' = (api_row w)(r_ID r \<mapsto> r)
        \<and> api_sent w' = api_sent w @ [in_context ctx (created_message L r)]
    | Inl e \<Rightarrow> (api_row w' = api_row w \<and> api_sent w' = api_sent w)
        \<or> (\<exists>r i. same_but_times (row_of n None i) r \<and> api_row w i = None
             \<and> api_row w' = (api_row w)(i \<mapsto> r)
             \<and> api_sent w' \<in> {api_sent w, api_sent w @ [in_context ctx (created_message L r)]})"
  using assms
proof (cases rule: api.create_cases)
  case (not_sent e r i)
  then show ?thesis by (simp only: sum.case api_deps_sel) blast
qed simp_all

theorem create_effects_witness:
  "\<exists>r w'. svc_Create (api_deps sample_lib) [] sample_notification sample_world = (Inr r, w') \<and>
     same_but_times (row_of sample_notification None (r_ID r)) r \<and>
     api_row w' = (api_row sample_world)(r_ID r \<mapsto> r)"
proof -
  have ok: "is_ok (fst (svc_Create (api_deps sample_lib) [] sample_notification sample_world))" by code_simp
  obtain x w' where e: "svc_Create (api_deps sample_lib) [] sample_notification sample_world = (x, w')"
    by fastforce
  with ok obtain r where "x = Inr r" by (cases x) (auto simp: is_ok_def)
  with create_effects [OF sample_keyed e] e show ?thesis by auto
qed



text \<open>
  C12: \<open>UpdateStatus\<close> of the service succeeds only along the transition table, changes that row's
  status (and update time) alone, publishes nothing, and leaves everything as it was on error.
\<close>

theorem update_status_effects:
  assumes "api_keyed w" "svc_UpdateStatus (api_deps L) i st w = (x, w')"
  shows "api_sent w' = api_sent w \<and>
    (case x of
       Inl e \<Rightarrow> api_row w' = api_row w
     | Inr _ \<Rightarrow> (\<exists>r r'. api_row w i = Some r \<and> may_become (r_Status r) st
         \<and> same_but_times (r\<lparr>r_Status := st\<rparr>) r' \<and> api_row w' = (api_row w)(i \<mapsto> r')))"
  using assms
proof (cases rule: api.update_cases)
  case (ok r r')
  then show ?thesis by (simp only: sum.case) blast
qed simp

theorem update_status_effects_witness:
  "\<exists>w' r r'. svc_UpdateStatus (api_deps sample_lib) (UUID 7) StatusFailed sample_world = (Inr (), w') \<and>
     api_row sample_world (UUID 7) = Some r \<and> may_become (r_Status r) StatusFailed \<and>
     api_row w' = (api_row sample_world)(UUID 7 \<mapsto> r')"
proof -
  have ok: "is_ok (fst (svc_UpdateStatus (api_deps sample_lib) (UUID 7) StatusFailed sample_world))"
    by code_simp
  obtain x w' where e: "svc_UpdateStatus (api_deps sample_lib) (UUID 7) StatusFailed sample_world = (x, w')"
    by fastforce
  with ok obtain u where "x = Inr u" by (cases x) (auto simp: is_ok_def)
  with update_status_effects [OF sample_keyed e] e show ?thesis by auto
qed

text \<open>
  C13: \<open>CreateBatch\<close> accounts for every notification of the request: one result per index, in order;
  an accepted one has its pending row in the store under the reported identifier, a rejected one
  carries an error; nothing else in the store changes. The published messages are one scheduled event with
  every accepted scheduled notification, then one ready event per accepted immediate one in order, or a
  prefix of these when an error is returned.
\<close>

theorem create_batch_accounts:
  assumes "api_keyed w" "svc_CreateBatch (api_deps L) ctx ns w = ((b, results, err), w')"
  shows "length results = length ns \<and>
    (\<forall>j < length ns. item_reported (api_row w') b j (ns ! j) (results ! j)) \<and>
    (\<forall>i. api_row w' i \<noteq> api_row w i \<longrightarrow> api_row w i = None \<and> (\<exists>res \<in> set results. br_ID res = Some i)) \<and>
    (\<exists>pre. prefix pre (batch_messages L (accepted_rows b ns results))
       \<and> (err = None \<longrightarrow> pre = batch_messages L (accepted_rows b ns results))
       \<and> api_sent w' = api_sent w @ map (in_context ctx) pre)"
  using api.batch_spec [OF assms] by (cases err) auto

theorem create_batch_accounts_witness:
  "\<exists>b results w'. svc_CreateBatch (api_deps sample_lib) []
        [sample_notification, sample_notification\<lparr>n_deliverAfter := Some 99\<rparr>] sample_world
      = ((b, results, None), w') \<and>
     length results = 2 \<and> map br_Status results = [''accepted'', ''accepted''] \<and>
     item_reported (api_row w') b 1 (sample_notification\<lparr>n_deliverAfter := Some 99\<rparr>) (results ! 1)"
proof -
  let ?ns = "[sample_notification, sample_notification\<lparr>n_deliverAfter := Some 99\<rparr>]"
  have ok: "(case fst (svc_CreateBatch (api_deps sample_lib) [] ?ns sample_world) of
      (b, results, err) \<Rightarrow> err = None \<and> map br_Status results = [''accepted'', ''accepted''])"
    by code_simp
  obtain b results err w' where
    e: "svc_CreateBatch (api_deps sample_lib) [] ?ns sample_world = ((b, results, err), w')"
    by (metis prod.collapse)
  from create_batch_accounts [OF sample_keyed e] ok e show ?thesis by auto
qed

text \<open>
  C14: reading and writing the status are two statements without a lock, so a cancellation that
  read a pending row overwrites whatever status the row has reached in between (a delivered
  notification becomes cancelled), unless the database fails.
\<close>

theorem stale_cancel_overwrites:
  assumes "api_keyed w" "r_Status read = StatusPending" "api_row w i = Some r"
    and "tape_read (pg_faults (aw_db w)) = None"
  shows "\<exists>r'. api_row (snd (cancel_rest (api_deps L) ctx i (Inr read) w)) i = Some r' \<and>
    r_Status r' = StatusCancelled"
proof -
  obtain dn where T: "Transition StatusCancelled (ToDomain read) = Inr dn"
    using assms(2) Transition_ok_iff [of StatusCancelled "ToDomain read"]
    by (cases "Transition StatusCancelled (ToDomain read)") (auto simp: may_become_def is_ok_def)
  obtain x w1 where u: "repo_UpdateStatus (svc_repo (api_deps L)) i StatusCancelled w = (x, w1)"
    by fastforce
  have "is_ok (fst (pg_UpdateStatus i StatusCancelled (aw_db w)))"
    using assms(3,4) rows_map_filter_Nil [of i "pg_rows (aw_db w)"]
    by (auto simp: pg_UpdateStatus_def pg_exec_def sql_update_status_def api_row_def pg_stored_def
        is_ok_def Let_def text_fits_def utf8_chars_def StatusCancelled_def split: list.splits)
  with u obtain r' where x: "x = Inr r'" by (cases x) (auto simp: is_ok_def on_part_eq)
  from api.update_status_ok [OF assms(1) u [unfolded x]]
  have "api_row w1 i = Some r'" "r_Status r' = StatusCancelled" by (auto dest: same_but_timesD(7))
  moreover
  let ?j = "cancelled_to_json \<lparr>ce_NotificationID = uuid_text L i\<rparr>"
  obtain y w2 where p: "pub_Publish (svc_pub (api_deps L)) ctx TopicNotificationScheduleCancelled ?j w1 = (y, w2)"
    by fastforce
  have "api_row w2 = api_row w1" by (rule api.publish_frame(1) [OF p])
  moreover have "snd (cancel_rest (api_deps L) ctx i (Inr read) w) = w2"
    using u p x T by (cases y) (simp_all add: cancel_rest_def del: api_deps_sel(1,2))
  ultimately show ?thesis by simp
qed

theorem stale_cancel_overwrites_witness:
  "\<exists>r'. api_row (snd (cancel_rest (api_deps sample_lib) [] (UUID 7) (Inr sample_row)
       (service_calls (api_deps sample_lib) [CallUpdateStatus (UUID 7) StatusDelivered] sample_world)))
      (UUID 7) = Some r' \<and> r_Status r' = StatusCancelled"
proof -
  let ?w = "service_calls (api_deps sample_lib) [CallUpdateStatus (UUID 7) StatusDelivered] sample_world"
  have k: "api_keyed ?w" using api.calls_later [OF sample_keyed] by blast
  obtain r where r: "api_row ?w (UUID 7) = Some r"
    using api.calls_later [OF sample_keyed] sample_stored by blast
  have p: "r_Status sample_row = StatusPending" by (simp add: sample_row_def row_of_def)
  have f: "tape_read (pg_faults (aw_db ?w)) = None" by code_simp
  show ?thesis by (rule stale_cancel_overwrites [OF k p r f])
qed

end
