(* ===== verification/HttpApi.thy ===== *)
theory HttpApi
  imports HttpBase ApiWorld
begin

text \<open>
  The package api/internal/transport/http: the request and response bodies (dtos.go), the five
  handlers (notification.go) over the service interface, and the routes (router.go).
\<close>

section \<open>Request bodies\<close>

record create_request =
  cr_Recipient :: string
  cr_Channel :: string
  cr_Content :: string
  cr_Priority :: string
  cr_MaxAttempts :: "int option"
  cr_DeliverAfter :: "string option"

definition zero_create :: create_request where
  "zero_create = \<lparr>cr_Recipient = '''', cr_Channel = '''', cr_Content = '''', cr_Priority = '''',
     cr_MaxAttempts = None, cr_DeliverAfter = None\<rparr>"

definition create_fields :: "create_request field list" where
  "create_fields =
     [field ''recipient'' decode_string cr_Recipient (\<lambda>v e. e\<lparr>cr_Recipient := v\<rparr>),
      field ''channel'' decode_string cr_Channel (\<lambda>v e. e\<lparr>cr_Channel := v\<rparr>),
      field ''content'' decode_string cr_Content (\<lambda>v e. e\<lparr>cr_Content := v\<rparr>),
      field ''priority'' decode_string cr_Priority (\<lambda>v e. e\<lparr>cr_Priority := v\<rparr>),
      field ''max_attempts'' (decode_ptr decode_int 0) cr_MaxAttempts (\<lambda>v e. e\<lparr>cr_MaxAttempts := v\<rparr>),
      field ''deliver_after'' (decode_ptr decode_string '''') cr_DeliverAfter (\<lambda>v e. e\<lparr>cr_DeliverAfter := v\<rparr>)]"

definition create_of_json :: "json \<Rightarrow> create_request result" where
  "create_of_json j = decode_struct create_fields j zero_create"

record batch_request =
  bq_Notifications :: "create_request list"

definition batch_of_json :: "json \<Rightarrow> batch_request result" where
  "batch_of_json j = decode_struct
     [field ''notifications'' (decode_slice (decode_struct create_fields) zero_create)
        bq_Notifications (\<lambda>v e. e\<lparr>bq_Notifications := v\<rparr>)] j \<lparr>bq_Notifications = []\<rparr>"

text \<open>\<open>ToNotification\<close>: the setters in this order, the first failure returned.\<close>

definition ToNotification :: "golib \<Rightarrow> create_request \<Rightarrow> notification result" where
  "ToNotification L r =
     (case SetChannel (cr_Channel r) zero_notification of Inl e \<Rightarrow> Inl e | Inr n1 \<Rightarrow>
     (case SetRecipient L (cr_Recipient r) n1 of Inl e \<Rightarrow> Inl e | Inr n2 \<Rightarrow>
     (case SetContent (cr_Content r) n2 of Inl e \<Rightarrow> Inl e | Inr n3 \<Rightarrow>
     (case SetPriority (cr_Priority r) n3 of Inl e \<Rightarrow> Inl e | Inr n4 \<Rightarrow>
     (case (case cr_MaxAttempts r of None \<Rightarrow> Inr n4 | Some v \<Rightarrow> SetMaxAttempts v n4) of
        Inl e \<Rightarrow> Inl e | Inr n5 \<Rightarrow>
          (case cr_DeliverAfter r of
             None \<Rightarrow> Inr n5
           | Some s \<Rightarrow>
               (case parse_time L s of
                  None \<Rightarrow> Inl ErrInvalidDeliverAfter
                | Some t \<Rightarrow> Inr (SetDeliverAfter (Some t) n5))))))))"

section \<open>Response bodies\<close>

definition json_ptr :: "('a \<Rightarrow> json) \<Rightarrow> 'a option \<Rightarrow> json" where
  "json_ptr f x = (case x of None \<Rightarrow> JNull | Some v \<Rightarrow> f v)"

record notification_response =
  np_ID :: string
  np_BatchID :: "string option"
  np_Recipient :: string
  np_Channel :: string
  np_Content :: string
  np_Priority :: string
  np_Status :: string
  np_MaxAttempts :: int
  np_DeliverAfter :: "string option"
  np_CreatedAt :: string
  np_UpdatedAt :: string

definition toNotificationResponse :: "golib \<Rightarrow> nrow \<Rightarrow> notification_response" where
  "toNotificationResponse L n = \<lparr>
     np_ID = uuid_text L (r_ID n), np_BatchID = map_option (uuid_text L) (r_BatchID n),
     np_Recipient = r_Recipient n, np_Channel = r_Channel n, np_Content = r_Content n,
     np_Priority = r_Priority n, np_Status = r_Status n, np_MaxAttempts = r_MaxAttempts n,
     np_DeliverAfter = map_option (format_time L) (r_DeliverAfter n),
     np_CreatedAt = format_time L (r_CreatedAt n), np_UpdatedAt = format_time L (r_UpdatedAt n)\<rparr>"

definition toNotificationResponses :: "golib \<Rightarrow> nrow list \<Rightarrow> notification_response list" where
  "toNotificationResponses L ns = map (toNotificationResponse L) ns"

definition response_to_json :: "notification_response \<Rightarrow> json" where
  "response_to_json p = JObj
     [(''id'', JStr (np_ID p)), (''batch_id'', json_ptr JStr (np_BatchID p)),
      (''recipient'', JStr (np_Recipient p)), (''channel'', JStr (np_Channel p)),
      (''content'', JStr (np_Content p)), (''priority'', JStr (np_Priority p)),
      (''status'', JStr (np_Status p)), (''max_attempts'', JInt (np_MaxAttempts p)),
      (''deliver_after'', json_ptr JStr (np_DeliverAfter p)),
      (''created_at'', JStr (np_CreatedAt p)), (''updated_at'', JStr (np_UpdatedAt p))]"

record pagination_meta =
  pm_Page :: int
  pm_PageSize :: int
  pm_Total :: int
  pm_TotalPages :: int
  pm_NextCursor :: "string option"

record list_response =
  lr_Data :: "notification_response list"
  lr_Pagination :: pagination_meta

definition list_to_json :: "list_response \<Rightarrow> json" where
  "list_to_json l = (let p = lr_Pagination l in JObj
     [(''data'', JArr (map response_to_json (lr_Data l))),
      (''pagination'', JObj [(''page'', JInt (pm_Page p)), (''page_size'', JInt (pm_PageSize p)),
         (''total'', JInt (pm_Total p)), (''total_pages'', JInt (pm_TotalPages p)),
         (''next_cursor'', json_ptr JStr (pm_NextCursor p))])])"

definition cancel_response :: "golib \<Rightarrow> nrow \<Rightarrow> json" where
  "cancel_response L n = JObj [(''id'', JStr (uuid_text L (r_ID n))), (''status'', JStr (r_Status n)),
     (''updated_at'', JStr (format_time L (r_UpdatedAt n)))]"

record batch_item_result =
  bi_Index :: nat
  bi_Status :: string
  bi_ID :: "string option"
  bi_Error :: "error_body option"

definition batch_item_to_json :: "batch_item_result \<Rightarrow> json" where
  "batch_item_to_json b = JObj ([(''index'', JInt (int (bi_Index b))), (''status'', JStr (bi_Status b))]
     @ (case bi_ID b of None \<Rightarrow> [] | Some i \<Rightarrow> [(''id'', JStr i)])
     @ (case bi_Error b of None \<Rightarrow> [] | Some e \<Rightarrow> [(''error'', error_body_to_json e)]))"

record batch_response =
  bp_BatchID :: string
  bp_Total :: nat
  bp_Accepted :: nat
  bp_Rejected :: int
  bp_Results :: "batch_item_result list"

definition batch_to_json :: "batch_response \<Rightarrow> json" where
  "batch_to_json b = JObj
     [(''batch_id'', JStr (bp_BatchID b)), (''total'', JInt (int (bp_Total b))),
      (''accepted'', JInt (int (bp_Accepted b))), (''rejected'', JInt (bp_Rejected b)),
      (''results'', JArr (map batch_item_to_json (bp_Results b)))]"

section \<open>Parameters\<close>

text \<open>\<open>intParam\<close>, and the cursor as text.\<close>

definition intParam :: "string \<Rightarrow> int \<Rightarrow> int" where
  "intParam s def = (case atoi s of Some v \<Rightarrow> if v > 0 then v else def | None \<Rightarrow> def)"

definition decodeCursor :: "golib \<Rightarrow> string \<Rightarrow> uuid result" where
  "decodeCursor L s =
     (case uuid_parse L s of None \<Rightarrow> Inl (Opaque ''invalid UUID'') | Some i \<Rightarrow> Inr i)"

definition encodeCursor :: "golib \<Rightarrow> uuid option \<Rightarrow> string option" where
  "encodeCursor L i = map_option (uuid_text L) i"

definition page_size_param :: "http_req \<Rightarrow> int" where
  "page_size_param r = (let n = intParam (hr_query r ''page_size'') 20 in if n > 100 then 100 else n)"

text \<open>An optional parameter: absent, unparsable (ignored), or a value.\<close>

definition optional_param :: "(string \<Rightarrow> 'a option) \<Rightarrow> string \<Rightarrow> 'a option" where
  "optional_param parse s = (if s = '''' then None else parse s)"

definition list_filter_of :: "golib \<Rightarrow> http_req \<Rightarrow> list_filter" where
  "list_filter_of L r = \<lparr>
     lf_Status = hr_query r ''status'', lf_Channel = hr_query r ''channel'',
     lf_BatchID = optional_param (uuid_parse L) (hr_query r ''batch_id''),
     lf_DateFrom = optional_param (parse_time L) (hr_query r ''date_from''),
     lf_DateTo = optional_param (parse_time L) (hr_query r ''date_to''),
     lf_PageSize = page_size_param r, lf_CursorID = None,
     lf_Page = intParam (hr_query r ''page'') 1,
     lf_Sort = hr_query r ''sort'', lf_Order = hr_query r ''order''\<rparr>"

text \<open>\<open>(total + pageSize - 1) / pageSize\<close> in 64 bits; division by zero panics.\<close>

definition total_pages :: "int \<Rightarrow> int \<Rightarrow> int option" where
  "total_pages cnt pageSize =
     (if pageSize = 0 then None else Some (wrap64 (cnt + pageSize - 1) sdiv pageSize))"

section \<open>Handlers\<close>

text \<open>The service interface, and \<open>NewNotificationService\<close>.\<close>

record 'w notification_service =
  ns_Create :: "trace \<Rightarrow> notification \<Rightarrow> 'w \<Rightarrow> nrow result \<times> 'w"
  ns_GetByID :: "uuid \<Rightarrow> 'w \<Rightarrow> nrow result \<times> 'w"
  ns_List :: "list_filter \<Rightarrow> 'w \<Rightarrow> (nrow list \<times> int \<times> uuid option) result \<times> 'w"
  ns_Cancel :: "trace \<Rightarrow> uuid \<Rightarrow> 'w \<Rightarrow> nrow result \<times> 'w"
  ns_UpdateStatus :: "uuid \<Rightarrow> status \<Rightarrow> 'w \<Rightarrow> unit result \<times> 'w"
  ns_CreateBatch :: "trace \<Rightarrow> notification list \<Rightarrow> 'w \<Rightarrow> (uuid \<times> batch_result list \<times> go_error option) \<times> 'w"

definition NewNotificationService :: "'w service_deps \<Rightarrow> 'w notification_service" where
  "NewNotificationService S = \<lparr>ns_Create = svc_Create S, ns_GetByID = svc_GetByID S,
     ns_List = svc_List S, ns_Cancel = svc_Cancel S, ns_UpdateStatus = svc_UpdateStatus S,
     ns_CreateBatch = svc_CreateBatch S\<rparr>"

definition failed :: "go_error \<Rightarrow> writer \<Rightarrow> outcome \<times> writer" where
  "failed e w = (Returned (Some e), w)"

definition replied :: "int \<Rightarrow> json \<Rightarrow> writer \<Rightarrow> outcome \<times> writer" where
  "replied status body w = (Returned None, WriteJSON status body w)"

definition createNotification :: "golib \<Rightarrow> 'w notification_service \<Rightarrow> 'w app_handler" where
  "createNotification L svc r w s =
     (case DecodeBody create_of_json r of
        Inl e \<Rightarrow> (failed e w, s)
      | Inr req \<Rightarrow>
          (case ToNotification L req of
             Inl e \<Rightarrow> (failed e w, s)
           | Inr n \<Rightarrow>
               (case ns_Create svc (hr_ctx r) n s of
                  (Inl e, s1) \<Rightarrow> (failed e w, s1)
                | (Inr row, s1) \<Rightarrow>
                    (replied 201 (response_to_json (toNotificationResponse L row)) w, s1))))"

definition getNotification :: "golib \<Rightarrow> 'w notification_service \<Rightarrow> 'w app_handler" where
  "getNotification L svc r w s =
     (case uuid_parse L (hr_param r ''id'') of
        None \<Rightarrow> (failed (NewValidationError ''id'' ''must be a valid UUID'') w, s)
      | Some i \<Rightarrow>
          (case ns_GetByID svc i s of
             (Inl e, s1) \<Rightarrow> (failed e w, s1)
           | (Inr row, s1) \<Rightarrow>
               (replied 200 (response_to_json (toNotificationResponse L row)) w, s1)))"

definition list_page ::
  "golib \<Rightarrow> 'w notification_service \<Rightarrow> list_filter \<Rightarrow> writer \<Rightarrow> 'w \<Rightarrow> (outcome \<times> writer) \<times> 'w" where
  "list_page L svc f w s =
     (case ns_List svc f s of
        (Inl e, s1) \<Rightarrow> (failed e w, s1)
      | (Inr (ns, cnt, nextCursor), s1) \<Rightarrow>
          (case total_pages cnt (lf_PageSize f) of
             None \<Rightarrow> ((Panicked ''integer divide by zero'', w), s1)
           | Some pages \<Rightarrow>
               (replied 200 (list_to_json
                  \<lparr>lr_Data = toNotificationResponses L ns,
                   lr_Pagination = \<lparr>pm_Page = lf_Page f, pm_PageSize = lf_PageSize f, pm_Total = cnt,
                     pm_TotalPages = pages, pm_NextCursor = encodeCursor L nextCursor\<rparr>\<rparr>) w, s1)))"

definition listNotifications :: "golib \<Rightarrow> 'w notification_service \<Rightarrow> 'w app_handler" where
  "listNotifications L svc r w s =
     (let f = list_filter_of L r; cursorStr = hr_query r ''cursor''
      in if cursorStr = '''' then list_page L svc f w s
         else (case decodeCursor L cursorStr of
                 Inl e \<Rightarrow> (failed (NewValidationError ''cursor'' ''invalid'') w, s)
               | Inr i \<Rightarrow> list_page L svc (f\<lparr>lf_CursorID := Some i\<rparr>) w s))"

definition cancelNotification :: "golib \<Rightarrow> 'w notification_service \<Rightarrow> 'w app_handler" where
  "cancelNotification L svc r w s =
     (case uuid_parse L (hr_param r ''id'') of
        None \<Rightarrow> (failed (NewValidationError ''id'' ''must be a valid UUID'') w, s)
      | Some i \<Rightarrow>
          (case ns_Cancel svc (hr_ctx r) i s of
             (Inl e, s1) \<Rightarrow> (failed e w, s1)
           | (Inr row, s1) \<Rightarrow> (replied 200 (cancel_response L row) w, s1)))"

subsection \<open>Batches\<close>

text \<open>The first loop: rejected items with their results, valid ones with their index.\<close>

fun convert_items ::
  "golib \<Rightarrow> nat \<Rightarrow> create_request list \<Rightarrow> (nat \<times> notification) list \<times> batch_item_result list" where
  "convert_items L i [] = ([], [])"
| "convert_items L i (item # items) =
     (let (valid, rejected) = convert_items L (Suc i) items
      in case ToNotification L item of
           Inl e \<Rightarrow> (valid, \<lparr>bi_Index = i, bi_Status = ''rejected'', bi_ID = None,
               bi_Error = Some \<lparr>eb_Code = ''VALIDATION_ERROR'', eb_Message = err_text e, eb_Details = None\<rparr>\<rparr>
               # rejected)
         | Inr n \<Rightarrow> ((i, n) # valid, rejected))"

definition service_item :: "golib \<Rightarrow> nat \<Rightarrow> batch_result \<Rightarrow> batch_item_result" where
  "service_item L idx res = \<lparr>bi_Index = idx, bi_Status = br_Status res,
     bi_ID = map_option (uuid_text L) (br_ID res),
     bi_Error = map_option (\<lambda>m. \<lparr>eb_Code = ''INTERNAL_ERROR'', eb_Message = m, eb_Details = None\<rparr>)
       (br_Error res)\<rparr>"

text \<open>
  The second loop indexes \<open>valid\<close> with the position of the result: more results than valid items
  would be an index out of range.
\<close>

fun service_items ::
  "golib \<Rightarrow> (nat \<times> notification) list \<Rightarrow> batch_result list \<Rightarrow> batch_item_result list option" where
  "service_items L valid [] = Some []"
| "service_items L [] (res # ress) = None"
| "service_items L ((idx, n) # valid) (res # ress) =
     map_option ((#) (service_item L idx res)) (service_items L valid ress)"

definition createBatch :: "golib \<Rightarrow> 'w notification_service \<Rightarrow> 'w app_handler" where
  "createBatch L svc r w s =
     (case DecodeBody batch_of_json r of
        Inl e \<Rightarrow> (failed e w, s)
      | Inr req \<Rightarrow>
          if length (bq_Notifications req) > 1000
          then (failed (NewValidationError ''notifications'' ''max 1000 items'') w, s)
          else
            (case convert_items L 0 (bq_Notifications req) of
               (valid, rejected) \<Rightarrow>
                 (case ns_CreateBatch svc (hr_ctx r) (map snd valid) s of
                    ((batchID, results, Some e), s1) \<Rightarrow> (failed e w, s1)
                  | ((batchID, results, None), s1) \<Rightarrow>
                      (case service_items L valid results of
                         None \<Rightarrow> ((Panicked ''index out of range'', w), s1)
                       | Some items \<Rightarrow>
                           (let accepted = length (filter (\<lambda>res. br_ID res \<noteq> None) results)
                            in (replied 207 (batch_to_json
                                  \<lparr>bp_BatchID = uuid_text L batchID,
                                   bp_Total = length (bq_Notifications req), bp_Accepted = accepted,
                                   bp_Rejected = int (length (bq_Notifications req)) - int accepted,
                                   bp_Results = rejected @ items\<rparr>) w, s1))))))"

section \<open>Routes\<close>

definition notification_routes :: "golib \<Rightarrow> 'w notification_service \<Rightarrow> 'w app_router \<Rightarrow> 'w app_router" where
  "notification_routes L svc rs =
     router_Post ''/{id}/cancel'' (cancelNotification L svc)
       (router_Get ''/{id}'' (getNotification L svc)
         (router_Post ''/batch'' (createBatch L svc)
           (router_Get ''/'' (listNotifications L svc)
             (router_Post ''/'' (createNotification L svc) rs))))"

text \<open>\<open>NewRouter\<close>: \<open>ping\<close> is the database driver's ping under a timeout of two seconds.\<close>

definition NewRouter ::
  "golib \<Rightarrow> 'w handler_func \<Rightarrow> (trace \<Rightarrow> 'w \<Rightarrow> go_error option \<times> 'w) \<Rightarrow> 'w notification_service
   \<Rightarrow> 'w app_router" where
  "NewRouter L docs ping svc = NewHandler docs
     \<lparr>ho_RegisterRoutesFunc = Some (router_Route ''/api/v1/notifications'' (notification_routes L svc)),
      ho_ReadinessChecks = [\<lparr>rc_Name = ''postgresql'', rc_Check = ping\<rparr>],
      ho_OTelServiceName = ''api''\<rparr>"

end
