(* ===== verification/HttpLaws.thy ===== *)
theory HttpLaws
  imports HttpApi
begin

text \<open>
  What the HTTP layer guarantees: every route answers every request once and without a panic, the
  error classes of each route, what a request body must satisfy to become a notification, and the
  accounting of a batch request. The handlers' lemmas are proved in a locale over the service
  interface; the concrete service interprets it.
\<close>

section \<open>Requests that become notifications\<close>

text \<open>What \<open>ToNotification\<close> accepts, field by field, and the notification it stands for.\<close>

definition request_ok :: "golib \<Rightarrow> create_request \<Rightarrow> bool" where
  "request_ok L r \<longleftrightarrow>
     cr_Channel r \<in> {ChannelSMS, ChannelEmail, ChannelPush}
     \<and> valid_recipient L (cr_Channel r) (cr_Recipient r)
     \<and> cr_Content r \<noteq> ''''
     \<and> cr_Priority r \<in> {PriorityHigh, PriorityNormal, PriorityLow}
     \<and> (case cr_MaxAttempts r of None \<Rightarrow> True | Some v \<Rightarrow> 0 < v)
     \<and> (case cr_DeliverAfter r of None \<Rightarrow> True | Some s \<Rightarrow> parse_time L s \<noteq> None)"

definition request_notification :: "golib \<Rightarrow> create_request \<Rightarrow> notification" where
  "request_notification L r = \<lparr>n_channel = cr_Channel r, n_recipient = cr_Recipient r,
     n_content = cr_Content r, n_priority = cr_Priority r, n_status = '''',
     n_deliverAfter = (case cr_DeliverAfter r of None \<Rightarrow> None | Some s \<Rightarrow> parse_time L s),
     n_maxAttempts = (case cr_MaxAttempts r of None \<Rightarrow> 0 | Some v \<Rightarrow> v)\<rparr>"

text \<open>A step of a chain of fallible calls.\<close>

lemma chain_Inr:
  "(case x of Inl e \<Rightarrow> Inl e | Inr n \<Rightarrow> f n) = Inr m \<longleftrightarrow> (\<exists>n. x = Inr n \<and> f n = Inr m)"
  by (cases x) auto

lemma chain_Inl:
  "(case x of Inl e \<Rightarrow> Inl e | Inr n \<Rightarrow> f n) = Inl e' \<longleftrightarrow> x = Inl e' \<or> (\<exists>n. x = Inr n \<and> f n = Inl e')"
  by (cases x) auto

lemma optional_Inr:
  "(case v of None \<Rightarrow> Inr n | Some x \<Rightarrow> f x) = Inr m \<longleftrightarrow>
     (case v of None \<Rightarrow> m = n | Some x \<Rightarrow> f x = Inr m)"
  by (cases v) auto

lemma ToNotification_Inr:
  "ToNotification L r = Inr n \<longleftrightarrow> request_ok L r \<and> n = request_notification L r"
  unfolding ToNotification_def chain_Inr setter_Inr optional_Inr request_ok_def request_notification_def
  by (cases "cr_MaxAttempts r"; cases "cr_DeliverAfter r")
     (auto simp: SetDeliverAfter_def zero_notification_def split: option.split)

lemma optional_Inl:
  "(case v of None \<Rightarrow> Inr n | Some x \<Rightarrow> f x) = Inl e \<longleftrightarrow> (\<exists>x. v = Some x \<and> f x = Inl e)"
  by (cases v) auto

lemma ToNotification_Inl:
  assumes "ToNotification L r = Inl e"
  shows "as_domain e \<noteq> None"
proof -
  have time: "as_domain e \<noteq> None" if "(case parse_time L d of None \<Rightarrow> Inl ErrInvalidDeliverAfter
      | Some t \<Rightarrow> Inr (SetDeliverAfter (Some t) n)) = Inl e" for d n
    using that by (cases "parse_time L d") (auto simp: ErrInvalidDeliverAfter_def)
  from assms show ?thesis
    unfolding ToNotification_def chain_Inl optional_Inl
    by (elim disjE exE conjE; elim setter_errors time)
qed

section \<open>One answer\<close>

definition error_codes :: "int set" where
  "error_codes = {404, 409, 422, 500}"

definition error_answer :: "writer \<Rightarrow> bool" where
  "error_answer w \<longleftrightarrow> (\<exists>code body. code \<in> error_codes \<and> answered code body w)"

lemma error_answerI: "code \<in> error_codes \<Longrightarrow> error_answer (writeError code c m d fresh_writer)"
  unfolding error_answer_def using writeError_fresh by blast

lemma writeError_answers [simp]:
  "error_answer (writeError 404 c m d fresh_writer)" "error_answer (writeError 409 c m d fresh_writer)"
  "error_answer (writeError 422 c m d fresh_writer)" "error_answer (writeError 500 c m d fresh_writer)"
  by (rule error_answerI; simp add: error_codes_def)+

lemma error_answer_cases:
  "error_answer a \<Longrightarrow> (\<And>y. error_answer (f y)) \<Longrightarrow> error_answer (case x of None \<Rightarrow> a | Some y \<Rightarrow> f y)"
  "(\<And>c m. error_answer (g c m)) \<Longrightarrow> error_answer (case p of (c, m) \<Rightarrow> g c m)"
  "error_answer a \<Longrightarrow> error_answer b \<Longrightarrow> error_answer (if c then a else b)"
  by (simp_all split: option.split prod.split)

lemma render_error_answers: "error_answer (render_error e fresh_writer)"
  unfolding render_error_def by (intro error_answer_cases writeError_answers)

lemma render_domain_error:
  "as_domain e = Some (c, m) \<Longrightarrow> answered 422 (error_json c m None) (render_error e fresh_writer)"
  by (cases e) (simp_all add: render_error_def errors_as_def)

text \<open>A handler has either written one response and returned nil, or returned an error.\<close>

definition proper :: "int \<Rightarrow> outcome \<times> writer \<Rightarrow> bool" where
  "proper code p \<longleftrightarrow> (\<exists>body. p = (Returned None, WriteJSON code body fresh_writer))
     \<or> (\<exists>e. p = (Returned (Some e), fresh_writer))"

lemma proper_failed [simp]: "proper code (failed e fresh_writer)"
  by (auto simp: proper_def failed_def)

lemma proper_replied [simp]: "proper code (replied code body fresh_writer)"
  by (auto simp: proper_def replied_def)

definition answers :: "int set \<Rightarrow> 'w handler_func \<Rightarrow> http_req \<Rightarrow> 'w \<Rightarrow> bool" where
  "answers codes h r s \<longleftrightarrow> (\<exists>w s' code body. h r fresh_writer s = ((None, w), s') \<and>
     code \<in> codes \<and> answered code body w)"

lemma errHandler_answers:
  assumes h: "\<And>p s'. h r fresh_writer s = (p, s') \<Longrightarrow> proper code p"
  shows "answers (insert code error_codes) (errHandler h) r s"
proof -
  obtain p s' where p: "h r fresh_writer s = (p, s')" by fastforce
  from h [OF p] consider body where "p = (Returned None, WriteJSON code body fresh_writer)"
    | e where "p = (Returned (Some e), fresh_writer)"
    unfolding proper_def by blast
  then show ?thesis
  proof cases
    case 1
    then have "errHandler h r fresh_writer s = ((None, WriteJSON code body fresh_writer), s')"
      by (simp add: errHandler_def p)
    then show ?thesis unfolding answers_def using WriteJSON_fresh by blast
  next
    case 2
    then have "errHandler h r fresh_writer s = ((None, render_error e fresh_writer), s')"
      by (simp add: errHandler_def p)
    then show ?thesis
      unfolding answers_def using render_error_answers [of e] unfolding error_answer_def by blast
  qed
qed

section \<open>The service behind the handlers\<close>

text \<open>What the handlers need of the service: one result per item, and a count that is not negative.\<close>

locale service_port =
  fixes svc :: "'w notification_service" and ok :: "'w \<Rightarrow> bool"
  assumes batch_length:
      "ok s \<Longrightarrow> ns_CreateBatch svc ctx ns s = ((b, results, err), s') \<Longrightarrow> length results = length ns"

lemma service_items_total:
  "length results = length valid \<Longrightarrow>
     service_items L valid results = Some (map2 (service_item L) (map fst valid) results)"
proof (induction valid arbitrary: results)
  case (Cons v valid)
  then show ?case by (cases results; cases v) auto
qed simp

lemma page_size_param_bounds: "1 \<le> page_size_param r \<and> page_size_param r \<le> 100"
  by (auto simp: page_size_param_def intParam_def Let_def split: option.splits)

lemma lf_PageSize_filter [simp]: "lf_PageSize (list_filter_of L r) = page_size_param r"
  by (simp add: list_filter_of_def)

context service_port
begin

lemma create_proper:
  assumes "createNotification L svc r fresh_writer s = (p, s')"
  shows "proper 201 p"
  using assms by (auto simp: createNotification_def split: sum.splits prod.splits)

lemma get_proper:
  assumes "getNotification L svc r fresh_writer s = (p, s')"
  shows "proper 200 p"
  using assms by (auto simp: getNotification_def split: sum.splits prod.splits option.splits)

lemma cancel_proper:
  assumes "cancelNotification L svc r fresh_writer s = (p, s')"
  shows "proper 200 p"
  using assms by (auto simp: cancelNotification_def split: sum.splits prod.splits option.splits)

lemma list_page_proper:
  assumes "list_page L svc f fresh_writer s = (p, s')" "lf_PageSize f \<noteq> 0"
  shows "proper 200 p"
  using assms by (auto simp: list_page_def total_pages_def split: sum.splits prod.splits option.splits)

lemma list_proper:
  assumes "listNotifications L svc r fresh_writer s = (p, s')"
  shows "proper 200 p"
proof -
  have "page_size_param r \<noteq> 0" using page_size_param_bounds [of r] by linarith
  with assms show ?thesis
    by (auto simp: listNotifications_def Let_def intro: list_page_proper split: if_splits sum.splits)
qed

lemma batch_proper:
  assumes "ok s" "createBatch L svc r fresh_writer s = (p, s')"
  shows "proper 207 p"
proof (cases "DecodeBody batch_of_json r")
  case (Inl e)
  with assms show ?thesis by (auto simp: createBatch_def)
next
  case (Inr req)
  show ?thesis
  proof (cases "length (bq_Notifications req) > 1000")
    case True
    with Inr assms show ?thesis by (auto simp: createBatch_def)
  next
    case False
    obtain valid rejected where c: "convert_items L 0 (bq_Notifications req) = (valid, rejected)"
      by fastforce
    obtain b results err s1 where
      n: "ns_CreateBatch svc (hr_ctx r) (map snd valid) s = ((b, results, err), s1)"
      by (metis prod.collapse)
    from batch_length [OF assms(1) n] have "length results = length valid" by simp
    from service_items_total [OF this] Inr False c n assms(2) show ?thesis
      by (cases err) (auto simp: createBatch_def Let_def)
  qed
qed

lemma route_answers:
  assumes "ok s" "rt \<in> set (NewRouter L docs ping svc)" "rt_pattern rt \<noteq> ''/api/v1/docs/*''"
  shows "answers ({200, 201, 207, 503} \<union> error_codes) (rt_handler rt) r s"
proof -
  have weak: "answers C' h r s" if "answers C h r s" "C \<subseteq> C'" for C C' h
    using that unfolding answers_def by blast
  obtain chk deg s1 where
    c: "run_checks [\<lparr>rc_Name = ''postgresql'', rc_Check = ping\<rparr>] (hr_ctx r) [] False s = ((chk, deg), s1)"
    by (metis prod.collapse)
  have ready: "answers {200, 503} (readinessCheck [\<lparr>rc_Name = ''postgresql'', rc_Check = ping\<rparr>]) r s"
    unfolding answers_def readinessCheck_def
    using c by (cases deg) (simp_all del: run_checks.simps, (blast intro: WriteJSON_fresh)+)
  have live: "answers {200} livenessCheck r s"
    unfolding answers_def livenessCheck_def using WriteJSON_fresh by blast
  have h: "answers (insert 201 error_codes) (errHandler (createNotification L svc)) r s"
    "answers (insert 200 error_codes) (errHandler (listNotifications L svc)) r s"
    "answers (insert 207 error_codes) (errHandler (createBatch L svc)) r s"
    "answers (insert 200 error_codes) (errHandler (getNotification L svc)) r s"
    "answers (insert 200 error_codes) (errHandler (cancelNotification L svc)) r s"
    by (rule errHandler_answers; elim create_proper list_proper batch_proper [OF assms(1)] get_proper
        cancel_proper)+
  let ?docs = "\<lparr>rt_method = ''GET'', rt_pattern = ''/api/v1/docs/*'', rt_handler = docs\<rparr>"
  obtain rts where rts: "NewRouter L docs ping svc = ?docs # rts"
    "map rt_handler rts = [livenessCheck, readinessCheck [\<lparr>rc_Name = ''postgresql'', rc_Check = ping\<rparr>],
      errHandler (createNotification L svc), errHandler (listNotifications L svc),
      errHandler (createBatch L svc), errHandler (getNotification L svc), errHandler (cancelNotification L svc)]"
    by (simp add: NewRouter_def NewHandler_def register_def router_Route_def notification_routes_def
        router_Post_def router_Get_def)
  have "\<forall>h \<in> set (map rt_handler rts). answers ({200, 201, 207, 503} \<union> error_codes) h r s"
    unfolding rts(2) list.set ball_simps
    by (intro conjI TrueI; rule weak [OF live] weak [OF ready] h [THEN weak]; blast)
  moreover from assms(2,3) have "rt \<in> set rts" unfolding rts(1) by auto
  ultimately show ?thesis by simp
qed

end

section \<open>The concrete service\<close>

definition api_service :: "golib \<Rightarrow> api_world notification_service" where
  "api_service L = NewNotificationService (api_deps L)"

lemma api_service_sel [simp]:
  "ns_Create (api_service L) = svc_Create (api_deps L)" "ns_GetByID (api_service L) = svc_GetByID (api_deps L)"
  "ns_List (api_service L) = svc_List (api_deps L)" "ns_Cancel (api_service L) = svc_Cancel (api_deps L)"
  "ns_CreateBatch (api_service L) = svc_CreateBatch (api_deps L)"
  "ns_UpdateStatus (api_service L) = svc_UpdateStatus (api_deps L)"
  by (simp_all add: api_service_def NewNotificationService_def)

interpretation http: service_port "api_service L" api_keyed for L
  by unfold_locales (simp add: api.batch_spec(1))

section \<open>Batch items\<close>

lemma convert_items_spec:
  "convert_items L i items = (valid, rejected) \<Longrightarrow>
     valid = map (\<lambda>(j, x). (j, request_notification L x))
               (filter (\<lambda>(j, x). request_ok L x) (enumerate i items))
     \<and> map bi_Index rejected = map fst (filter (\<lambda>(j, x). \<not> request_ok L x) (enumerate i items))
     \<and> (\<forall>b \<in> set rejected. bi_ID b = None \<and> bi_Status b = ''rejected'' \<and> bi_Error b \<noteq> None)"
proof (induction items arbitrary: i valid rejected)
  case (Cons x items)
  obtain v r where c: "convert_items L (Suc i) items = (v, r)" by fastforce
  note IH = Cons.IH [OF c]
  show ?case
  proof (cases "ToNotification L x")
    case (Inl e)
    then have "\<not> request_ok L x" using ToNotification_Inr [of L x "request_notification L x"] by auto
    with Cons.prems IH Inl c show ?thesis by (auto simp: Let_def)
  next
    case (Inr n)
    then have "request_ok L x" "n = request_notification L x" by (simp_all add: ToNotification_Inr)
    with Cons.prems IH Inr c show ?thesis by (auto simp: Let_def)
  qed
qed simp

lemma enumerate_split:
  "mset (map fst (filter (\<lambda>x. \<not> P x) (enumerate i xs)) @ map fst (filter P (enumerate i xs)))
     = mset [i ..< i + length xs]"
proof -
  let ?E = "mset (enumerate i xs)"
  have "mset (map fst (filter (\<lambda>x. \<not> P x) (enumerate i xs)) @ map fst (filter P (enumerate i xs)))
      = image_mset fst (filter_mset (\<lambda>x. \<not> P x) ?E) + image_mset fst (filter_mset P ?E)"
    by (simp only: mset_append mset_map mset_filter)
  also have "\<dots> = image_mset fst (filter_mset P ?E + filter_mset (\<lambda>x. \<not> P x) ?E)"
    by (simp only: image_mset_union add.commute)
  also have "\<dots> = image_mset fst ?E" by (simp only: multiset_partition [symmetric])
  also have "\<dots> = mset (map fst (enumerate i xs))" by (simp only: mset_map)
  finally show ?thesis by (simp only: map_fst_enumerate)
qed

text \<open>What the reply says of one item of the request, against the rows stored afterwards.\<close>

definition item_says ::
  "golib \<Rightarrow> (uuid \<Rightarrow> nrow option) \<Rightarrow> uuid \<Rightarrow> create_request \<Rightarrow> batch_item_result \<Rightarrow> bool" where
  "item_says L m b req item \<longleftrightarrow>
     (case bi_ID item of
        None \<Rightarrow> bi_Status item = ''rejected'' \<and> bi_Error item \<noteq> None
      | Some t \<Rightarrow> request_ok L req \<and> bi_Status item = ''accepted'' \<and> bi_Error item = None
          \<and> (\<exists>u r. t = uuid_text L u \<and> m u = Some r
               \<and> same_but_times (row_of (request_notification L req) (Some b) u) r))"

lemma service_item_says:
  assumes "item_reported m b j (request_notification L req) res" "request_ok L req"
  shows "item_says L m b req (service_item L i res)"
  using assms by (auto simp: item_reported_def item_says_def service_item_def split: option.splits)

text \<open>The items of a reply: those refused by the conversion, then the service's.\<close>

lemma items_accepted:
  assumes conv: "convert_items L 0 reqs = (valid, rejected)" and len: "length results = length valid"
  shows "length (filter (\<lambda>x. bi_ID x \<noteq> None) (rejected @ map2 (service_item L) (map fst valid) results))
     = length (filter (\<lambda>res. br_ID res \<noteq> None) results)"
proof -
  have "length (filter (\<lambda>x. bi_ID x \<noteq> None) (map2 (service_item L) (map fst valid) results))
      = length (filter (\<lambda>res. br_ID res \<noteq> None) results)"
    using len by (induction results valid rule: list_induct2) (auto simp: service_item_def)
  moreover have "filter (\<lambda>x. bi_ID x \<noteq> None) rejected = []"
    using convert_items_spec [OF conv] by (simp add: filter_empty_conv)
  ultimately show ?thesis by simp
qed

lemma items_indices:
  assumes conv: "convert_items L 0 reqs = (valid, rejected)" and len: "length results = length valid"
  shows "mset (map bi_Index (rejected @ map2 (service_item L) (map fst valid) results)) = mset [0 ..< length reqs]"
proof -
  have "map bi_Index (map2 (service_item L) (map fst valid) results) = map fst valid"
    using len by (induction results valid rule: list_induct2) (auto simp: service_item_def)
  also have "\<dots> = map fst (filter (\<lambda>p. request_ok L (snd p)) (enumerate 0 reqs))"
    using convert_items_spec [OF conv] by (simp add: case_prod_unfold comp_def)
  finally show ?thesis
    using convert_items_spec [OF conv] enumerate_split [of "\<lambda>p. request_ok L (snd p)" 0 reqs]
    by (simp add: case_prod_unfold)
qed

lemma items_say:
  assumes conv: "convert_items L 0 reqs = (valid, rejected)" and len: "length results = length valid"
    and rep: "\<forall>j < length valid. item_reported m b j (snd (valid ! j)) (results ! j)"
    and item: "item \<in> set (rejected @ map2 (service_item L) (map fst valid) results)"
  shows "item_says L m b (reqs ! bi_Index item) item"
proof (cases "item \<in> set rejected")
  case True
  then show ?thesis using convert_items_spec [OF conv] by (auto simp: item_says_def)
next
  case False
  with item obtain j where j: "j < length valid" "item = service_item L (fst (valid ! j)) (results ! j)"
    using len by (auto simp: in_set_conv_nth)
  then have "valid ! j \<in> set valid" by simp
  with convert_items_spec [OF conv] obtain i x where v: "valid ! j = (i, request_notification L x)"
    "request_ok L x" "(i, x) \<in> set (enumerate 0 reqs)" by auto
  from v(3) have x: "reqs ! i = x" by (simp add: in_set_enumerate_eq)
  have "bi_Index item = i" using j(2) v(1) by (simp add: service_item_def)
  moreover from rep j(1) v(1) have "item_reported m b j (request_notification L x) (results ! j)" by fastforce
  from service_item_says [OF this v(2)] j(2) have "item_says L m b x item" by simp
  ultimately show ?thesis using x by simp
qed

section \<open>Properties\<close>

text \<open>
  C30: every route of the service but the documentation pages answers every request, whatever its
  parameters and body and whatever faults the database and the broker produce, with exactly one
  JSON response: no handler panics, none writes twice or not at all, and the access log records
  the status that was sent.
\<close>

theorem every_route_answers:
  assumes "api_keyed s" "rt \<in> set (NewRouter L docs ping (api_service L))"
    "rt_pattern rt \<noteq> ''/api/v1/docs/*''"
  shows "\<exists>w s' code body. requestLogger (rt_handler rt) r fresh_writer s = ((None, w,
        [LogRequest (hr_method r) (hr_path r), LogResponse (hr_method r) (hr_path r) code]), s')
      \<and> answered code body w \<and> code \<in> {200, 201, 207, 404, 409, 422, 500, 503}"
proof -
  have f: "fresh_writer\<lparr>wr_status := 200\<rparr> = fresh_writer" by (simp add: fresh_writer_def)
  from http.route_answers [OF assms] obtain w s' code body where
    a: "rt_handler rt r fresh_writer s = ((None, w), s')" "code \<in> {200, 201, 207, 503} \<union> error_codes"
      "answered code body w"
    unfolding answers_def by blast
  then have "requestLogger (rt_handler rt) r fresh_writer s = ((None, w,
      [LogRequest (hr_method r) (hr_path r), LogResponse (hr_method r) (hr_path r) code]), s')"
    by (simp add: requestLogger_def f answered_def)
  with a show ?thesis unfolding error_codes_def by blast
qed

definition sample_request :: "json \<Rightarrow> http_req" where
  "sample_request j = \<lparr>hr_ctx = [], hr_method = ''POST'', hr_path = ''/api/v1/notifications/batch'',
     hr_param = (\<lambda>k. ''9''), hr_query = (\<lambda>k. ''''), hr_body = Inr j\<rparr>"

theorem every_route_answers_witness:
  "\<exists>rt \<in> set (NewRouter sample_lib livenessCheck (\<lambda>c s. (None, s)) (api_service sample_lib)).
     rt_pattern rt = ''/api/v1/notifications/batch'' \<and>
     (\<exists>w s' code. requestLogger (rt_handler rt) (sample_request JNull) fresh_writer sample_world = ((None, w,
        [LogRequest ''POST'' ''/api/v1/notifications/batch'',
         LogResponse ''POST'' ''/api/v1/notifications/batch'' code]), s'))"
proof -
  let ?rt = "\<lparr>rt_method = ''POST'', rt_pattern = ''/api/v1/notifications/batch'',
     rt_handler = errHandler (createBatch sample_lib (api_service sample_lib))\<rparr>"
  have rt: "?rt \<in> set (NewRouter sample_lib livenessCheck (\<lambda>c s. (None, s)) (api_service sample_lib))"
    by (simp add: NewRouter_def NewHandler_def register_def router_Route_def notification_routes_def
        router_Post_def router_Get_def)
  have p: "rt_pattern ?rt = ''/api/v1/notifications/batch''" by simp
  have "rt_pattern ?rt \<noteq> ''/api/v1/docs/*''" by simp
  from every_route_answers [OF sample_keyed rt this, of "sample_request JNull"] obtain w s' code where
    "requestLogger (rt_handler ?rt) (sample_request JNull) fresh_writer sample_world = ((None, w,
        [LogRequest ''POST'' ''/api/v1/notifications/batch'',
         LogResponse ''POST'' ''/api/v1/notifications/batch'' code]), s')"
    by (auto simp: sample_request_def)
  with rt p show ?thesis by blast
qed


definition sample_create :: create_request where
  "sample_create = \<lparr>cr_Recipient = ''+905551234567'', cr_Channel = ''sms'', cr_Content = ''hi'',
     cr_Priority = ''low'', cr_MaxAttempts = Some 2, cr_DeliverAfter = None\<rparr>"


text \<open>
  An identifier that is not stored. \<open>GET\<close> answers 500 with the code INTERNAL_ERROR (the
  repository's sentinel is no typed error and the service passes it through), while cancelling the
  same identifier answers 404 with the code NOT_FOUND.
\<close>

theorem unknown_id_answers:
  assumes "api_row s i = None" "uuid_parse L (hr_param r ''id'') = Some i"
    "tape_read (pg_faults (aw_db s)) = None"
  shows "(\<exists>w s'. errHandler (getNotification L (api_service L)) r fresh_writer s = ((None, w), s')
       \<and> answered 500 (error_json ''INTERNAL_ERROR'' ''not found'' None) w)
    \<and> (\<exists>w s'. errHandler (cancelNotification L (api_service L)) r fresh_writer s = ((None, w), s')
       \<and> answered 404 (error_json ''NOT_FOUND'' ''notification not found'' None) w)"
proof -
  have "filter (\<lambda>r. r_ID r = i) (pg_rows (aw_db s)) = []"
    using assms(1) by (simp add: rows_map_filter_Nil api_row_def pg_stored_def)
  then have "\<exists>d'. pg_GetByID i (aw_db s) = (Inl ErrNotFound, d')"
    using assms(3) by (simp add: pg_GetByID_def pg_exec_def sql_select_id_def Let_def errors_is_def)
  then obtain s' where g: "repo_GetByID (svc_repo (api_deps L)) i s = (Inl ErrNotFound, s')"
    by (auto simp: on_part_eq)
  have c: "svc_Cancel (api_deps L) c i s = (Inl (NotFoundError ''notification not found''), s')" for c
    using g by (simp add: svc_Cancel_def cancel_rest_def errors_is_def)
  show ?thesis
    using g c assms(2)
    by (simp add: errHandler_def getNotification_def cancelNotification_def svc_GetByID_def failed_def
        render_error_def errors_as_def)
qed

theorem unknown_id_answers_witness:
  "\<exists>w s'. errHandler (getNotification sample_lib (api_service sample_lib)) (sample_request JNull)
       fresh_writer sample_world = ((None, w), s')
     \<and> answered 500 (error_json ''INTERNAL_ERROR'' ''not found'' None) w"
proof -
  have "api_row sample_world (UUID 9) = None"
    by (simp add: api_row_def pg_stored_def sample_world_def sample_row_def row_of_def)
  moreover have "uuid_parse sample_lib (hr_param (sample_request JNull) ''id'') = Some (UUID 9)" by code_simp
  moreover have "tape_read (pg_faults (aw_db sample_world)) = None" by (simp add: sample_world_def)
  ultimately show ?thesis by (rule unknown_id_answers [THEN conjunct1])
qed

text \<open>
  C32: a batch request that is answered by its handler. It had at most 1000 items; the reply has
  one result for every index of the request and no other, an accepted result names a row that is
  now stored and carries exactly that item, a rejected one carries an error, an item that does not
  pass validation is never accepted, and the counts add up.
\<close>

theorem batch_reply_accounts:
  assumes "api_keyed s" "createBatch L (api_service L) r w s = ((Returned None, w'), s')"
  shows "\<exists>req b items. DecodeBody batch_of_json r = Inr req \<and> length (bq_Notifications req) \<le> 1000
    \<and> w' = WriteJSON 207 (batch_to_json \<lparr>bp_BatchID = uuid_text L b,
          bp_Total = length (bq_Notifications req), bp_Accepted = length (filter (\<lambda>x. bi_ID x \<noteq> None) items),
          bp_Rejected = int (length (filter (\<lambda>x. bi_ID x = None) items)), bp_Results = items\<rparr>) w
    \<and> mset (map bi_Index items) = mset [0 ..< length (bq_Notifications req)]
    \<and> (\<forall>item \<in> set items. item_says L (api_row s') b (bq_Notifications req ! bi_Index item) item)"
proof -
  obtain req where req: "DecodeBody batch_of_json r = Inr req"
    using assms(2) by (cases "DecodeBody batch_of_json r") (auto simp: createBatch_def failed_def)
  let ?reqs = "bq_Notifications req"
  have n: "length ?reqs \<le> 1000"
    using assms(2) req by (auto simp: createBatch_def failed_def split: if_splits)
  obtain valid rejected where c: "convert_items L 0 ?reqs = (valid, rejected)" by fastforce
  obtain b results err s1 where
    call: "svc_CreateBatch (api_deps L) (hr_ctx r) (map snd valid) s = ((b, results, err), s1)"
    by (metis prod.collapse)
  note rep = api.batch_spec [OF assms(1) call]
  have len: "length results = length valid" using rep(1) by simp
  let ?items = "rejected @ map2 (service_item L) (map fst valid) results"
  note acc = items_accepted [OF c len] and idx = items_indices [OF c len]
  from assms(2) req n c call service_items_total [OF len, of L] acc
  have err: "err = None" and w': "w' = WriteJSON 207 (batch_to_json
      \<lparr>bp_BatchID = uuid_text L b, bp_Total = length ?reqs,
       bp_Accepted = length (filter (\<lambda>x. bi_ID x \<noteq> None) ?items),
       bp_Rejected = int (length ?reqs) - int (length (filter (\<lambda>x. bi_ID x \<noteq> None) ?items)),
       bp_Results = ?items\<rparr>) w" and s1: "s1 = s'"
    by (cases err; auto simp: createBatch_def failed_def replied_def Let_def simp del: filter_append)+
  have "length ?items = length ?reqs" using arg_cong [OF idx, of size] by simp
  then have "int (length ?reqs) - int (length (filter (\<lambda>x. bi_ID x \<noteq> None) ?items))
      = int (length (filter (\<lambda>x. bi_ID x = None) ?items))"
    using sum_length_filter_compl [of "\<lambda>x. bi_ID x = None" ?items] by simp
  moreover have "\<forall>j < length valid. item_reported (api_row s') b j (snd (valid ! j)) (results ! j)"
    using rep(2) s1 by simp
  from items_say [OF c len this]
  have "\<forall>item \<in> set ?items. item_says L (api_row s') b (?reqs ! bi_Index item) item" by blast
  ultimately show ?thesis using req n w' idx by metis
qed

definition sample_batch :: json where
  "sample_batch = JObj [(''notifications'', JArr
     [JObj [(''recipient'', JStr ''+905551234567''), (''channel'', JStr ''sms''),
            (''content'', JStr ''hi''), (''priority'', JStr ''low'')],
      JObj [(''recipient'', JStr ''someone''), (''channel'', JStr ''fax''),
            (''content'', JStr ''hi''), (''priority'', JStr ''low'')]])]"

theorem batch_reply_accounts_witness:
  "\<exists>b items w' s'. createBatch sample_lib (api_service sample_lib) (sample_request sample_batch)
       fresh_writer sample_world = ((Returned None, w'), s')
     \<and> mset (map bi_Index items) = {#0, 1#}
     \<and> w' = WriteJSON 207 (batch_to_json \<lparr>bp_BatchID = uuid_text sample_lib b, bp_Total = 2,
          bp_Accepted = length (filter (\<lambda>x. bi_ID x \<noteq> None) items),
          bp_Rejected = int (length (filter (\<lambda>x. bi_ID x = None) items)), bp_Results = items\<rparr>) fresh_writer"
proof -
  let ?r = "sample_request sample_batch"
  have "fst (fst (createBatch sample_lib (api_service sample_lib) ?r fresh_writer sample_world)) = Returned None"
    by code_simp
  then obtain w' s' where
    c: "createBatch sample_lib (api_service sample_lib) ?r fresh_writer sample_world = ((Returned None, w'), s')"
    by (metis prod.collapse)
  have "(case DecodeBody batch_of_json ?r of Inl e \<Rightarrow> False | Inr q \<Rightarrow> length (bq_Notifications q) = 2)"
    by code_simp
  then have two: "length (bq_Notifications req) = 2" if "DecodeBody batch_of_json ?r = Inr req" for req
    using that by simp
  from batch_reply_accounts [OF sample_keyed c] obtain req b items where
    r: "DecodeBody batch_of_json ?r = Inr req"
    "w' = WriteJSON 207 (batch_to_json \<lparr>bp_BatchID = uuid_text sample_lib b,
          bp_Total = length (bq_Notifications req), bp_Accepted = length (filter (\<lambda>x. bi_ID x \<noteq> None) items),
          bp_Rejected = int (length (filter (\<lambda>x. bi_ID x = None) items)), bp_Results = items\<rparr>) fresh_writer"
    "mset (map bi_Index items) = mset [0 ..< length (bq_Notifications req)]" by blast
  have "mset [0 ..< 2] = {#0, 1#}" by (simp add: upt_rec)
  with c r two [OF r(1)] show ?thesis by metis
qed

end
