(* ===== verification/ListPages.thy ===== *)
theory ListPages
  imports HttpLaws
begin

text \<open>
  Listing with a cursor: following \<open>next_cursor\<close> from page to page against the repository of
  \<open>NotifRepo\<close>, compared with the one sorted list the pages cut; and the numbers of the list reply.
\<close>

section \<open>Following the cursor\<close>

text \<open>What a client does: ask for the page after a cursor until no next cursor comes.\<close>

fun follow :: "golib \<Rightarrow> list_filter \<Rightarrow> nat \<Rightarrow> uuid \<Rightarrow> pgdb \<Rightarrow> nrow list list option" where
  "follow L f 0 c d = None"
| "follow L f (Suc fuel) c d =
     (case pg_List L (f\<lparr>lf_CursorID := Some c\<rparr>) d of
        (Inl e, d1) \<Rightarrow> None
      | (Inr (page, cnt, None), d1) \<Rightarrow> Some [page]
      | (Inr (page, cnt, Some c'), d1) \<Rightarrow> map_option ((#) page) (follow L f fuel c' d1))"

definition before :: "list_filter \<Rightarrow> uuid \<Rightarrow> nrow list \<Rightarrow> nrow list" where
  "before f c rows = sort_desc r_ID (filter (\<lambda>r. applyFilters f r \<and> r_ID r < c) rows)"

definition never_faults :: "pgdb \<Rightarrow> bool" where
  "never_faults d \<longleftrightarrow> constantly None (pg_faults d)"

lemma applyFilters_cursor [simp]: "applyFilters (f\<lparr>lf_CursorID := c\<rparr>) = applyFilters f"
  by (simp add: applyFilters_def fun_eq_iff)

lemma page_size_cursor [simp]: "page_size (f\<lparr>lf_CursorID := c\<rparr>) = page_size f"
  by (simp add: page_size_def)

lemma page_size_pos: "1 \<le> page_size f"
  by (simp add: page_size_def)

lemma exec_select:
  assumes "never_faults d"
  shows "\<exists>d'. pg_exec (\<lambda>now rows. Inr (q rows, rows)) d = (Inr (q (pg_rows d)), d')
    \<and> pg_rows d' = pg_rows d \<and> never_faults d'"
  using assms by (simp add: pg_exec_def Let_def never_faults_def constantly_read)

lemma List_cursor:
  assumes "never_faults d"
  shows "\<exists>d' cnt. pg_List L (f\<lparr>lf_CursorID := Some c\<rparr>) d = (Inr (fst (cut_page (page_size f)
      (take (nat (page_size f + 1)) (before f c (pg_rows d)))), cnt,
      snd (cut_page (page_size f) (take (nat (page_size f + 1)) (before f c (pg_rows d))))), d')
    \<and> pg_rows d' = pg_rows d \<and> never_faults d'"
proof -
  from exec_select [OF assms, of "\<lambda>rows. int (length (filter (applyFilters f) rows))"] obtain d1 where
    1: "pg_exec (\<lambda>now rows. Inr (int (length (filter (applyFilters f) rows)), rows)) d
      = (Inr (int (length (filter (applyFilters f) (pg_rows d)))), d1)" "pg_rows d1 = pg_rows d" "never_faults d1"
    by auto
  from exec_select [OF 1(3), of "list_query L (f\<lparr>lf_CursorID := Some c\<rparr>) (page_size f)"] obtain d2 where
    "pg_exec (\<lambda>now rows. Inr (list_query L (f\<lparr>lf_CursorID := Some c\<rparr>) (page_size f) rows, rows)) d1
      = (Inr (list_query L (f\<lparr>lf_CursorID := Some c\<rparr>) (page_size f) (pg_rows d)), d2)"
    "pg_rows d2 = pg_rows d1" "never_faults d2"
    using 1(2) by auto
  moreover have "list_query L (f\<lparr>lf_CursorID := Some c\<rparr>) (page_size f) (pg_rows d)
      = take (nat (page_size f + 1)) (before f c (pg_rows d))"
    by (simp add: list_query_def before_def)
  ultimately show ?thesis using 1 by (simp add: pg_List_def Let_def split: prod.split)
qed

text \<open>In a strictly descending list the rows below the last row of a page are the rest.\<close>

definition descending :: "nrow list \<Rightarrow> bool" where
  "descending rs \<longleftrightarrow> sorted_wrt (\<lambda>r r'. r_ID r' < r_ID r) rs"

lemma before_descending:
  assumes "distinct (map r_ID rows)"
  shows "descending (before f c rows)"
proof -
  have s: "sorted (map r_ID (rev (before f c rows)))" unfolding before_def by (rule sorted_desc_sort_desc)
  have "distinct (map r_ID (before f c rows))"
    using assms by (auto simp: before_def distinct_map intro: inj_on_subset)
  then have "distinct (map r_ID (rev (before f c rows)))" by (simp add: rev_map [symmetric])
  with s have "sorted_wrt (<) (map r_ID (rev (before f c rows)))" by (simp add: strict_sorted_iff)
  then show ?thesis by (simp add: descending_def sorted_wrt_map sorted_wrt_rev)
qed

lemma below_nth:
  "descending rs \<Longrightarrow> n < length rs \<Longrightarrow> filter (\<lambda>r. r_ID r < r_ID (rs ! n)) rs = drop (Suc n) rs"
proof (induction rs arbitrary: n)
  case (Cons r rs)
  show ?case
  proof (cases n)
    case 0
    with Cons.prems show ?thesis by (auto simp: descending_def)
  next
    case (Suc m)
    with Cons.prems have "rs ! m \<in> set rs" "\<forall>x \<in> set rs. r_ID x < r_ID r" by (auto simp: descending_def)
    then have "\<not> r_ID r < r_ID (rs ! m)" by (meson order_less_asym)
    with Cons Suc show ?thesis by (simp add: descending_def)
  qed
qed simp

lemma before_next:
  assumes "distinct (map r_ID rows)" "n < length (before f c rows)"
  shows "before f (r_ID (before f c rows ! n)) rows = drop (Suc n) (before f c rows)"
proof -
  let ?k = "r_ID (before f c rows ! n)"
  have "before f c rows ! n \<in> set (before f c rows)" using assms(2) by simp
  then have "?k < c" by (simp add: before_def)
  then have "(applyFilters f r \<and> r_ID r < ?k) = (r_ID r < ?k \<and> applyFilters f r \<and> r_ID r < c)" for r
    by auto
  then have "before f ?k rows = filter (\<lambda>r. r_ID r < ?k) (before f c rows)"
    by (simp add: before_def filter_sort_desc conj_commute)
  with below_nth [OF before_descending [OF assms(1)] assms(2)] show ?thesis by simp
qed

lemma follow_pages:
  assumes "never_faults d" "distinct (map r_ID (pg_rows d))" "length (before f c (pg_rows d)) < fuel"
  shows "\<exists>pages. follow L f fuel c d = Some pages \<and> concat pages = before f c (pg_rows d)
    \<and> (\<forall>p \<in> set pages. int (length p) \<le> page_size f)"
  using assms
proof (induction fuel arbitrary: c d)
  case (Suc fuel)
  let ?B = "before f c (pg_rows d)" and ?p = "page_size f"
  have p: "1 \<le> ?p" by (rule page_size_pos)
  from List_cursor [OF Suc.prems(1)] obtain d' cnt where
    l: "pg_List L (f\<lparr>lf_CursorID := Some c\<rparr>) d = (Inr (fst (cut_page ?p (take (nat (?p + 1)) ?B)), cnt,
      snd (cut_page ?p (take (nat (?p + 1)) ?B))), d')" "pg_rows d' = pg_rows d" "never_faults d'" by blast
  show ?case
  proof (cases "int (length ?B) \<le> ?p")
    case True
    then have "cut_page ?p (take (nat (?p + 1)) ?B) = (?B, None)" using p by (simp add: cut_page_def)
    with l True show ?thesis by simp
  next
    case False
    then have len: "nat ?p < length ?B" using p by (simp add: nat_less_iff)
    let ?c = "r_ID (?B ! (nat ?p - 1))"
    have cut: "cut_page ?p (take (nat (?p + 1)) ?B) = (take (nat ?p) ?B, Some ?c)"
      using len p by (simp add: cut_page_def nat_add_distrib nat_diff_distrib min_def nth_take) arith
    have rest: "before f ?c (pg_rows d') = drop (nat ?p) ?B"
      using before_next [OF Suc.prems(2), of "nat ?p - 1" f c] len p l(2) by simp
    with Suc.prems(3) p len have "length (before f ?c (pg_rows d')) < fuel" by simp
    from Suc.IH [OF l(3) _ this] Suc.prems(2) l(2) rest obtain pages where
      "follow L f fuel ?c d' = Some pages" "concat pages = drop (nat ?p) ?B"
      "\<forall>p \<in> set pages. int (length p) \<le> ?p" by auto
    with l(1) cut p show ?thesis by (intro exI [of _ "take (nat ?p) ?B # pages"]) simp
  qed
qed simp

section \<open>The numbers of a list reply\<close>

lemma ceiling_pages:
  fixes cnt n :: int
  assumes "1 \<le> n" "0 \<le> cnt" "cnt < 2 ^ 62" "n \<le> 2 ^ 62"
  shows "\<exists>p. total_pages cnt n = Some p \<and> cnt \<le> p * n \<and> (p - 1) * n < cnt + (if cnt = 0 then n else 0)
    \<and> 0 \<le> p"
proof -
  have "int64 (cnt + n - 1)" using assms by (simp add: int64_def)
  moreover have "(cnt + n - 1) sdiv n = (cnt + n - 1) div n"
    using assms by (cases "cnt + n - 1 = 0") (auto simp: signed_divide_int_def sgn_if)
  ultimately have t: "total_pages cnt n = Some ((cnt + n - 1) div n)" using assms by (simp add: total_pages_def)
  let ?p = "(cnt + n - 1) div n"
  have "?p * n + (cnt + n - 1) mod n = cnt + n - 1" by (rule div_mult_mod_eq)
  moreover have "0 \<le> (cnt + n - 1) mod n" "(cnt + n - 1) mod n < n" using assms by simp_all
  ultimately have "cnt \<le> ?p * n" "?p * n \<le> cnt + n - 1" by linarith+
  moreover from this have "(?p - 1) * n < cnt + (if cnt = 0 then n else 0)"
    using assms by (auto simp: left_diff_distrib)
  moreover have "0 \<le> ?p" using assms by (simp add: pos_imp_zdiv_nonneg_iff)
  ultimately show ?thesis using t by blast
qed

lemma List_reply:
  assumes "pg_List L f d = (Inr (page, cnt, cur), d')"
  shows "cnt = int (length (filter (applyFilters f) (pg_rows d)))" "int (length page) \<le> page_size f"
    "\<forall>r \<in> set page. r \<in> set (pg_rows d) \<and> applyFilters f r"
proof -
  obtain x d1 where x: "pg_exec (\<lambda>now rows. Inr (int (length (filter (applyFilters f) rows)), rows)) d = (x, d1)"
    by fastforce
  obtain y d2 where y: "pg_exec (\<lambda>now rows. Inr (list_query L f (page_size f) rows, rows)) d1 = (y, d2)"
    by fastforce
  note rows = select_rows [OF x]
  from assms x y obtain n ns where n: "x = Inr n" "y = Inr ns" "cnt = n" "(page, cur) = cut_page (page_size f) ns"
    by (auto simp: pg_List_def Let_def split: sum.splits prod.splits)
  from pg_exec_Inr [OF x [unfolded n(1)]] n(3)
  show "cnt = int (length (filter (applyFilters f) (pg_rows d)))" by auto
  from pg_exec_Inr [OF y [unfolded n(2)]] rows have ns: "ns = list_query L f (page_size f) (pg_rows d)" by auto
  have len: "int (length ns) \<le> page_size f + 1"
    using page_size_pos [of f] unfolding ns list_query_def by (auto simp: Let_def split: option.split)
  from n(4) have p: "page = (if int (length ns) = page_size f + 1 then take (nat (page_size f)) ns else ns)"
    by (auto simp: cut_page_def split: if_splits)
  with len page_size_pos [of f] show "int (length page) \<le> page_size f" by auto
  have "set page \<subseteq> set ns" unfolding p by (auto dest: in_set_takeD)
  moreover have "\<forall>r \<in> set ns. r \<in> set (pg_rows d) \<and> applyFilters f r"
    unfolding ns list_query_def
    by (auto simp: Let_def dest!: in_set_takeD in_set_dropD split: option.splits if_splits)
  ultimately show "\<forall>r \<in> set page. r \<in> set (pg_rows d) \<and> applyFilters f r" by blast
qed

section \<open>Properties\<close>


definition sample_table :: pgdb where
  "sample_table = \<lparr>pg_rows = [sample_row\<lparr>r_ID := UUID 3\<rparr>, sample_row\<lparr>r_ID := UUID 1\<rparr>, sample_row\<lparr>r_ID := UUID 2\<rparr>],
     pg_now = 10, pg_faults = Tape (\<lambda>n. None) 0\<rparr>"

definition sample_filter :: list_filter where
  "sample_filter = \<lparr>lf_Status = '''', lf_Channel = '''', lf_BatchID = None, lf_DateFrom = None,
     lf_DateTo = None, lf_PageSize = 1, lf_CursorID = None, lf_Page = 1, lf_Sort = '''', lf_Order = ''''\<rparr>"


text \<open>The stored rows a list request asks for.\<close>

definition matching :: "golib \<Rightarrow> http_req \<Rightarrow> api_world \<Rightarrow> nrow list" where
  "matching L r s = filter (applyFilters (list_filter_of L r)) (pg_rows (aw_db s))"

lemma list_world:
  assumes "listNotifications L svc r w s = ((Returned None, w'), s')"
  obtains g where "list_page L svc g w s = ((Returned None, w'), s')"
    "g = list_filter_of L r \<or> (\<exists>i. g = (list_filter_of L r)\<lparr>lf_CursorID := Some i\<rparr>)"
proof (cases "hr_query r ''cursor'' = ''''")
  case True
  with assms show ?thesis by (intro that [of "list_filter_of L r"]) (simp_all add: listNotifications_def Let_def)
next
  case False
  show ?thesis
  proof (cases "decodeCursor L (hr_query r ''cursor'')")
    case (Inl e)
    with assms False show ?thesis by (simp add: listNotifications_def Let_def failed_def)
  next
    case (Inr i)
    have "list_page L svc ((list_filter_of L r)\<lparr>lf_CursorID := Some i\<rparr>) w s = ((Returned None, w'), s')"
      using assms False Inr by (simp add: listNotifications_def Let_def)
    then show ?thesis by (rule that) blast
  qed
qed

text \<open>
  The numbers of a list reply. The page size is between 1 and 100 whatever the query says, the
  page is never longer and holds stored rows that match the filter, the total counts all matching
  rows, and the number of pages is the total divided by the page size, rounded up (for a table of
  fewer than 2 ^ 62 rows, where the sum does not wrap).
\<close>

theorem list_reply_numbers:
  assumes "listNotifications L (api_service L) r w s = ((Returned None, w'), s')"
    "length (pg_rows (aw_db s)) < 2 ^ 62"
  shows "\<exists>page p cur. w' = WriteJSON 200 (list_to_json \<lparr>lr_Data = toNotificationResponses L page,
        lr_Pagination = \<lparr>pm_Page = intParam (hr_query r ''page'') 1, pm_PageSize = page_size_param r,
          pm_Total = int (length (matching L r s)), pm_TotalPages = p,
          pm_NextCursor = cur\<rparr>\<rparr>) w
    \<and> 1 \<le> page_size_param r \<and> page_size_param r \<le> 100 \<and> int (length page) \<le> page_size_param r
    \<and> set page \<subseteq> set (matching L r s)
    \<and> int (length (matching L r s)) \<le> p * page_size_param r
    \<and> (matching L r s \<noteq> [] \<longrightarrow>
         (p - 1) * page_size_param r < int (length (matching L r s)))"
proof -
  let ?f = "list_filter_of L r" and ?n = "page_size_param r"
  let ?cnt = "int (length (matching L r s))"
  have n: "1 \<le> ?n" "?n \<le> 100" using page_size_param_bounds by blast+
  from assms(1) obtain g where g: "list_page L (api_service L) g w s = ((Returned None, w'), s')"
    "g = ?f \<or> (\<exists>i. g = ?f\<lparr>lf_CursorID := Some i\<rparr>)" by (rule list_world)
  have cursor: "applyFilters (f\<lparr>lf_CursorID := c\<rparr>) = applyFilters f" for f :: list_filter and c
    by (simp add: applyFilters_def fun_eq_iff)
  have f: "lf_PageSize ?f = ?n" "lf_Page ?f = intParam (hr_query r ''page'') 1"
    by (simp_all add: list_filter_of_def)
  from g(2) have gf: "applyFilters g = applyFilters ?f" "page_size g = ?n" "lf_PageSize g = ?n"
    "lf_Page g = intParam (hr_query r ''page'') 1"
    using n f by (auto simp: page_size_def cursor)
  obtain x s1 where x: "svc_List (api_deps L) g s = (x, s1)" by fastforce
  from g(1) x obtain page cnt cur where "x = Inr (page, cnt, cur)"
    by (cases x) (auto simp: list_page_def failed_def)
  with x have pg: "pg_List L g (aw_db s) = (Inr (page, cnt, cur), aw_db s1)"
    by (auto simp: svc_List_def dest: on_partD)
  note rep = List_reply [OF pg, unfolded gf, folded matching_def]
  have sub: "set page \<subseteq> set (matching L r s)" using rep(3) by (auto simp: matching_def)
  have "?cnt < 2 ^ 62" using assms(2) unfolding matching_def by (auto intro: le_less_trans [OF length_filter_le])
  from ceiling_pages [OF n(1) _ this] n obtain p where p: "total_pages ?cnt ?n = Some p" "?cnt \<le> p * ?n"
    "(p - 1) * ?n < ?cnt + (if ?cnt = 0 then ?n else 0)" by auto
  from g(1) x \<open>x = Inr (page, cnt, cur)\<close> gf rep(1) p(1) have "w' = WriteJSON 200 (list_to_json
      \<lparr>lr_Data = toNotificationResponses L page, lr_Pagination = \<lparr>pm_Page = intParam (hr_query r ''page'') 1,
        pm_PageSize = ?n, pm_Total = ?cnt, pm_TotalPages = p, pm_NextCursor = encodeCursor L cur\<rparr>\<rparr>) w"
    by (simp add: list_page_def replied_def)
  moreover have "matching L r s \<noteq> [] \<longrightarrow> (p - 1) * ?n < ?cnt"
    using p(3) by (auto split: if_splits)
  ultimately show ?thesis using n rep(2) sub p(2) by blast
qed

end
