(* ===== verification/Subscriber.thy ===== *)
theory Subscriber
  imports Nats
begin

text \<open>
  The consuming side of shared/messaging/nats: decoding one fetched message, the two fetch loops
  of subscriber.go, and the loops of foreach.go that hand messages to a handler. What the broker
  returns to each fetch and the moment the context is cancelled are inputs; every answer (ack,
  nak, delayed nak) the code sends is recorded with the message it is for.
\<close>

section \<open>Messages and answers\<close>

datatype ack = Ack | Nak | NakWithDelay duration

text \<open>
  A message as fetched: an identity, the header, the payload (None where it is not JSON), and the
  broker's delivery counter (None where the metadata is missing).
\<close>

record in_msg =
  im_Msg :: nat
  im_Header :: trace
  im_Data :: "json option"
  im_NumDelivered :: "nat option"

text \<open>The struct \<open>Result\<close>.\<close>

record 'e delivered =
  rm_Ctx :: trace
  rm_Event :: 'e
  rm_Msg :: nat
  rm_AttemptNumber :: int

type_synonym answers = "(nat \<times> ack) list"

text \<open>How a subscription reads its subject: the decoder of the event and the context of a new consumer span.\<close>

record 'e subscription =
  su_unmarshal :: "json \<Rightarrow> 'e result"
  su_start :: "trace \<Rightarrow> trace"

definition attempt_number :: "nat option \<Rightarrow> int" where
  "attempt_number n = (case n of None \<Rightarrow> 1 | Some k \<Rightarrow> min (int k) (2 ^ 63 - 1))"

definition decode :: "'e subscription \<Rightarrow> in_msg \<Rightarrow> answers \<times> 'e delivered option" where
  "decode S m =
     (let msgCtx = su_start S (im_Header m); attemptNumber = attempt_number (im_NumDelivered m)
      in case im_Data m of
           None \<Rightarrow> ([(im_Msg m, Nak)], None)
         | Some j \<Rightarrow>
             (case su_unmarshal S j of
                Inl e \<Rightarrow> ([(im_Msg m, Nak)], None)
              | Inr e \<Rightarrow> ([], Some \<lparr>rm_Ctx = msgCtx, rm_Event = e, rm_Msg = im_Msg m,
                                  rm_AttemptNumber = attemptNumber\<rparr>)))"

section \<open>Fetch loops\<close>

text \<open>
  One turn of a loop: what \<open>Fetch\<close> returned, and how many sends into the channel went through
  before the context was cancelled (None: all of them). The loop ends with the list of turns: its
  condition finds the context cancelled.
\<close>

datatype fetched = Fetched "in_msg list" | FetchError

type_synonym turn = "fetched \<times> nat option"

text \<open>The inner loop of \<open>Subscribe\<close>; the last component is whether the loop goes on.\<close>

fun push_each ::
  "'e subscription \<Rightarrow> nat option \<Rightarrow> in_msg list \<Rightarrow> answers \<times> 'e delivered list \<times> bool" where
  "push_each S room [] = ([], [], True)"
| "push_each S room (m # ms) =
     (case decode S m of
        (as, None) \<Rightarrow> (case push_each S room ms of (bs, out, go) \<Rightarrow> (as @ bs, out, go))
      | (as, Some r) \<Rightarrow>
          (case room of
             Some 0 \<Rightarrow> (as @ [(im_Msg m, Nak)], [], False)
           | Some (Suc k) \<Rightarrow> (case push_each S (Some k) ms of (bs, out, go) \<Rightarrow> (as @ bs, r # out, go))
           | None \<Rightarrow> (case push_each S None ms of (bs, out, go) \<Rightarrow> (as @ bs, r # out, go))))"

fun Subscribe :: "'e subscription \<Rightarrow> turn list \<Rightarrow> answers \<times> 'e delivered list" where
  "Subscribe S [] = ([], [])"
| "Subscribe S ((FetchError, _) # ts) = Subscribe S ts"
| "Subscribe S ((Fetched ms, room) # ts) =
     (case push_each S room ms of
        (as, out, go) \<Rightarrow>
          (if go then (case Subscribe S ts of (bs, out') \<Rightarrow> (as @ bs, out @ out')) else (as, out)))"

text \<open>The decoding loop of \<open>SubscribeBatch\<close>.\<close>

fun decode_fetch :: "'e subscription \<Rightarrow> in_msg list \<Rightarrow> answers \<times> 'e delivered list" where
  "decode_fetch S [] = ([], [])"
| "decode_fetch S (m # ms) =
     (case decode S m of
        (as, None) \<Rightarrow> (case decode_fetch S ms of (bs, out) \<Rightarrow> (as @ bs, out))
      | (as, Some r) \<Rightarrow> (case decode_fetch S ms of (bs, out) \<Rightarrow> (as @ bs, r # out)))"

fun SubscribeBatch :: "'e subscription \<Rightarrow> turn list \<Rightarrow> answers \<times> 'e delivered list list" where
  "SubscribeBatch S [] = ([], [])"
| "SubscribeBatch S ((FetchError, _) # ts) = SubscribeBatch S ts"
| "SubscribeBatch S ((Fetched ms, room) # ts) =
     (case decode_fetch S ms of
        (as, batch) \<Rightarrow>
          (if batch = [] then (case SubscribeBatch S ts of (bs, out) \<Rightarrow> (as @ bs, out))
           else if room = Some 0 then (as @ map (\<lambda>r. (rm_Msg r, Nak)) batch, [])
           else (case SubscribeBatch S ts of (bs, out) \<Rightarrow> (as @ bs, batch # out))))"

section \<open>Handler loops\<close>

text \<open>What each select of \<open>ForEach\<close> picked: the context's end, a value, or the channel's close.\<close>

datatype 'm pick = PickDone | PickValue 'm | PickClosed

fun ForEach :: "('m \<Rightarrow> 'w \<Rightarrow> 'w) \<Rightarrow> 'm pick list \<Rightarrow> 'w \<Rightarrow> 'w" where
  "ForEach fn [] w = w"
| "ForEach fn (PickDone # ps) w = w"
| "ForEach fn (PickClosed # ps) w = w"
| "ForEach fn (PickValue m # ps) w = ForEach fn ps (fn m w)"

text \<open>\<open>ForEachBatch\<close> is the same loop over a channel of batches.\<close>

definition ForEachBatch :: "('m list \<Rightarrow> 'w \<Rightarrow> 'w) \<Rightarrow> 'm list pick list \<Rightarrow> 'w \<Rightarrow> 'w" where
  "ForEachBatch fn ps w = ForEach fn ps w"

section \<open>Lemmas\<close>

lemma attempt_number_pos: "n \<noteq> Some 0 \<Longrightarrow> 1 \<le> attempt_number n"
  by (auto simp: attempt_number_def split: option.splits)

lemma decode_cases:
  obtains (bad) "decode S m = ([(im_Msg m, Nak)], None)"
    | (good) j e where "im_Data m = Some j" "su_unmarshal S j = Inr e"
      "decode S m = ([], Some \<lparr>rm_Ctx = su_start S (im_Header m), rm_Event = e, rm_Msg = im_Msg m,
                               rm_AttemptNumber = attempt_number (im_NumDelivered m)\<rparr>)"
proof (cases "im_Data m")
  case None
  then show ?thesis by (intro bad) (simp add: decode_def)
next
  case (Some j)
  show ?thesis
  proof (cases "su_unmarshal S j")
    case (Inl e)
    with Some show ?thesis by (intro bad) (simp add: decode_def)
  next
    case (Inr e)
    with Some show ?thesis by (intro good [of j e]) (simp_all add: decode_def)
  qed
qed

text \<open>The messages of the turns that a loop gets to see.\<close>

fun fetched_msgs :: "turn list \<Rightarrow> in_msg list" where
  "fetched_msgs [] = []"
| "fetched_msgs ((FetchError, _) # ts) = fetched_msgs ts"
| "fetched_msgs ((Fetched ms, _) # ts) = ms @ fetched_msgs ts"

definition all_nak :: "answers \<Rightarrow> bool" where
  "all_nak as \<longleftrightarrow> list_all (\<lambda>a. snd a = Nak) as"

lemma all_nak_simps [simp]:
  "all_nak []" "all_nak (a # as) \<longleftrightarrow> snd a = Nak \<and> all_nak as" "all_nak (as @ bs) \<longleftrightarrow> all_nak as \<and> all_nak bs"
  "all_nak (map (\<lambda>r. (f r, Nak)) rs)"
  by (auto simp: all_nak_def list_all_iff)

text \<open>The messages dealt with are those naked and those handed on.\<close>

definition accounts :: "in_msg list \<Rightarrow> answers \<Rightarrow> 'e delivered list \<Rightarrow> bool" where
  "accounts ms as out \<longleftrightarrow>
     all_nak as \<and> mset (map im_Msg ms) = mset (map fst as) + mset (map rm_Msg out)"

lemma accounts_Nil [simp]: "accounts [] [] []"
  by (simp add: accounts_def)

lemma accounts_nak: "accounts ms as out \<Longrightarrow> accounts (m # ms) ((im_Msg m, Nak) # as) out"
  by (simp add: accounts_def)

lemma accounts_out: "accounts ms as out \<Longrightarrow> rm_Msg r = im_Msg m \<Longrightarrow> accounts (m # ms) as (r # out)"
  by (simp add: accounts_def)

lemma accounts_append:
  "accounts ms as out \<Longrightarrow> accounts ms' as' out' \<Longrightarrow> accounts (ms @ ms') (as @ as') (out @ out')"
  by (simp add: accounts_def)

lemma decode_fetch_accounts: "decode_fetch S ms = (as, out) \<Longrightarrow> accounts ms as out"
proof (induction ms arbitrary: as out)
  case (Cons m ms)
  obtain bs out' where r: "decode_fetch S ms = (bs, out')" by fastforce
  from Cons.IH [OF r] Cons.prems r show ?case
    by (cases rule: decode_cases [of S m]) (auto intro: accounts_nak accounts_out)
qed simp

lemma push_each_accounts:
  "push_each S room ms = (as, out, go) \<Longrightarrow>
     \<exists>n \<le> length ms. accounts (take n ms) as out \<and> (go \<or> room = None \<longrightarrow> go \<and> n = length ms)"
proof (induction ms arbitrary: room as out go)
  case (Cons m ms)
  show ?case
  proof (cases rule: decode_cases [of S m])
    case bad
    obtain bs out' go' where r: "push_each S room ms = (bs, out', go')" by (metis prod.exhaust)
    from Cons.IH [OF r] obtain n where n: "n \<le> length ms" "accounts (take n ms) bs out'"
      "go' \<or> room = None \<longrightarrow> go' \<and> n = length ms" by blast
    from Cons.prems r bad have "as = (im_Msg m, Nak) # bs" "out = out'" "go = go'" by simp_all
    with n show ?thesis by (intro exI [of _ "Suc n"]) (simp add: accounts_nak)
  next
    case (good j e)
    show ?thesis
    proof (cases "room = Some 0")
      case True
      with Cons.prems good have "as = [(im_Msg m, Nak)]" "out = []" "\<not> go" by simp_all
      with True show ?thesis by (intro exI [of _ "Suc 0"]) (simp add: accounts_def)
    next
      case False
      define room' where "room' = map_option (\<lambda>k. k - 1) room"
      obtain bs out' go' where r: "push_each S room' ms = (bs, out', go')" by (metis prod.exhaust)
      from Cons.IH [OF r] obtain n where n: "n \<le> length ms" "accounts (take n ms) bs out'"
        "go' \<or> room' = None \<longrightarrow> go' \<and> n = length ms" by blast
      obtain r0 where "as = bs" "out = r0 # out'" "rm_Msg r0 = im_Msg m" "go = go'"
        using Cons.prems r False good by (auto simp: room'_def split: option.splits nat.splits)
      with n show ?thesis
        by (intro exI [of _ "Suc n"]) (simp add: accounts_out room'_def)
    qed
  qed
qed simp

section \<open>Properties\<close>

text \<open>
  The batch subscription answers for every message it fetched. Whatever the payloads are and
  whenever the context is cancelled, the messages of the fetches it has dealt with are exactly
  those it handed on and those it naked, each once; it stops before the last fetch only after a cancelled send.
\<close>

theorem subscribe_batch_accounts:
  assumes "SubscribeBatch S ts = (as, batches)"
  shows "\<exists>k \<le> length ts. accounts (fetched_msgs (take k ts)) as (concat batches) \<and>
    (k < length ts \<longrightarrow> 0 < k \<and> snd (ts ! (k - 1)) = Some 0)"
  using assms
proof (induction S ts arbitrary: as batches rule: SubscribeBatch.induct)
  case (2 S room ts)
  then obtain k where "k \<le> length ts" "accounts (fetched_msgs (take k ts)) as (concat batches)"
    "k < length ts \<longrightarrow> 0 < k \<and> snd (ts ! (k - 1)) = Some 0" by auto
  then show ?case by (intro exI [of _ "Suc k"]) auto
next
  case (3 S ms room ts)
  obtain bs batch where d: "decode_fetch S ms = (bs, batch)" by fastforce
  note acc = decode_fetch_accounts [OF d]
  show ?case
  proof (cases "batch \<noteq> [] \<and> room = Some 0")
    case True
    with 3(3) d have "as = bs @ map (\<lambda>r. (rm_Msg r, Nak)) batch" "batches = []" by simp_all
    with acc True show ?thesis by (intro exI [of _ 1]) (simp add: accounts_def comp_def)
  next
    case False
    obtain cs out where r: "SubscribeBatch S ts = (cs, out)" by fastforce
    have eq: "as = bs @ cs" "concat batches = batch @ concat out"
      using 3(3) d r False by (auto split: if_splits)
    have "\<exists>k \<le> length ts. accounts (fetched_msgs (take k ts)) cs (concat out) \<and>
        (k < length ts \<longrightarrow> 0 < k \<and> snd (ts ! (k - 1)) = Some 0)"
      using 3(1) [OF d [symmetric] _ r] 3(2) [OF d [symmetric] _ _ r] False by blast
    then obtain k where "k \<le> length ts" "accounts (fetched_msgs (take k ts)) cs (concat out)"
      "k < length ts \<longrightarrow> 0 < k \<and> snd (ts ! (k - 1)) = Some 0" by blast
    with acc eq show ?thesis
      by (intro exI [of _ "Suc k"]) (auto intro: accounts_append)
  qed
qed simp

text \<open>A subscription to run examples on: the payload is a string, the context the header.\<close>

definition sample_subscription :: "string subscription" where
  "sample_subscription = \<lparr>su_unmarshal = (\<lambda>j. case j of JStr s \<Rightarrow> Inr s | _ \<Rightarrow> Inl EOF), su_start = (\<lambda>c. c)\<rparr>"

definition sample_msgs :: "in_msg list" where
  "sample_msgs = [
     \<lparr>im_Msg = 1, im_Header = [], im_Data = Some (JStr ''a''), im_NumDelivered = Some 1\<rparr>,
     \<lparr>im_Msg = 2, im_Header = [], im_Data = None, im_NumDelivered = Some 1\<rparr>,
     \<lparr>im_Msg = 3, im_Header = [], im_Data = Some (JStr ''c''), im_NumDelivered = Some 2\<rparr>]"

theorem subscribe_batch_accounts_witness:
  "\<exists>as. SubscribeBatch sample_subscription [(Fetched sample_msgs, Some 0)] = (as, []) \<and>
     accounts sample_msgs as ([] :: string delivered list)"
proof -
  obtain as out where e: "SubscribeBatch sample_subscription [(Fetched sample_msgs, Some 0)] = (as, out)"
    by fastforce
  have "snd (SubscribeBatch sample_subscription [(Fetched sample_msgs, Some 0)]) = []" by code_simp
  with e have "out = []" by simp
  from subscribe_batch_accounts [OF e] obtain k where "k \<le> 1"
    "accounts (fetched_msgs (take k [(Fetched sample_msgs, Some 0)])) as ([] :: string delivered list)"
    "k < 1 \<longrightarrow> 0 < k" unfolding \<open>out = []\<close> by auto
  then have "accounts sample_msgs as ([] :: string delivered list)" by (cases k) auto
  with e \<open>out = []\<close> show ?thesis by simp
qed

text \<open>
  C23: the single-message subscription loses nothing while its context lives: every fetched message
  is handed on or naked, exactly once. When the context is cancelled during a send, the messages
  it has answered for are a prefix of the fetched ones; the rest of that fetch is left unanswered.
\<close>

theorem subscribe_accounts:
  assumes "Subscribe S ts = (as, out)"
  shows "\<exists>n \<le> length (fetched_msgs ts). accounts (take n (fetched_msgs ts)) as out \<and>
    ((\<forall>t \<in> set ts. snd t = None) \<longrightarrow> n = length (fetched_msgs ts))"
  using assms
proof (induction S ts arbitrary: as out rule: Subscribe.induct)
  case (3 S ms room ts)
  obtain bs out1 go where p: "push_each S room ms = (bs, out1, go)" by (metis prod.exhaust)
  from push_each_accounts [OF p] obtain n where n: "n \<le> length ms" "accounts (take n ms) bs out1"
    "go \<or> room = None \<longrightarrow> go \<and> n = length ms" by blast
  show ?case
  proof (cases go)
    case True
    obtain cs out2 where r: "Subscribe S ts = (cs, out2)" by fastforce
    have eq: "as = bs @ cs" "out = out1 @ out2" using 3(2) p r True by simp_all
    from 3(1) [OF p [symmetric] refl True r] obtain k where "k \<le> length (fetched_msgs ts)"
      "accounts (take k (fetched_msgs ts)) cs out2"
      "(\<forall>t \<in> set ts. snd t = None) \<longrightarrow> k = length (fetched_msgs ts)" by blast
    with n True eq show ?thesis
      by (intro exI [of _ "length ms + k"]) (auto intro: accounts_append)
  next
    case False
    with 3(2) p have "as = bs" "out = out1" by simp_all
    with n False show ?thesis by (intro exI [of _ n]) auto
  qed
qed auto

theorem subscribe_accounts_witness:
  "\<exists>as out. Subscribe sample_subscription [(Fetched sample_msgs, None)] = (as, out) \<and>
     accounts sample_msgs as out"
proof -
  obtain as out where e: "Subscribe sample_subscription [(Fetched sample_msgs, None)] = (as, out)"
    by fastforce
  from subscribe_accounts [OF e] have "accounts sample_msgs as out" by auto
  with e show ?thesis by blast
qed

end
