(* ===== verification/ApiConsumers.thy ===== *)
theory ApiConsumers
  imports HttpLaws Subscriber
begin

text \<open>
  The package api/internal/transport/messaging: the consumer of delivery results, which moves the
  stored status, and the consumer of due notifications, which reads a batch of rows and publishes
  them to the processor.
\<close>

section \<open>Delivery results\<close>

definition result_processOne ::
  "golib \<Rightarrow> 'w notification_service \<Rightarrow> result_event delivered \<Rightarrow> 'w \<Rightarrow> ack \<times> 'w" where
  "result_processOne L svc result w =
     (case uuid_parse L (rs_NotificationID (rm_Event result)) of
        None \<Rightarrow> (Nak, w)
      | Some notifID \<Rightarrow>
          (case ns_UpdateStatus svc notifID (rs_Status (rm_Event result)) w of
             (Inl e, w1) \<Rightarrow> (Nak, w1)
           | (Inr _, w1) \<Rightarrow> (Ack, w1)))"

definition answer_one :: "('e delivered \<Rightarrow> 'w \<Rightarrow> ack \<times> 'w) \<Rightarrow> 'e delivered \<Rightarrow> answers \<times> 'w \<Rightarrow> answers \<times> 'w" where
  "answer_one handle m s = (case handle m (snd s) of (a, w) \<Rightarrow> (fst s @ [(rm_Msg m, a)], w))"

definition result_Run ::
  "golib \<Rightarrow> 'w notification_service \<Rightarrow> result_event delivered pick list \<Rightarrow> 'w \<Rightarrow> answers \<times> 'w" where
  "result_Run L svc picks w = ForEach (answer_one (result_processOne L svc)) picks ([], w)"

section \<open>Due notifications\<close>

text \<open>
  The read port and the publisher. \<open>du_order\<close> is the order in which a Go map is ranged over: any
  permutation.
\<close>

record 'w due_consumer =
  du_GetByIDs :: "uuid list \<Rightarrow> 'w \<Rightarrow> nrow list result \<times> 'w"
  du_pub :: "'w publisher"
  du_lib :: golib
  du_order :: "(uuid \<times> due_event delivered) list \<Rightarrow> (uuid \<times> due_event delivered) list"

text \<open>
  The first loop: unparsable identifiers are refused at once, the others are collected in order,
  and \<open>resultByID\<close> keeps the last message of each identifier.
\<close>

definition parse_one ::
  "golib \<Rightarrow> due_event delivered \<Rightarrow> answers \<times> uuid list \<times> (uuid \<times> due_event delivered) list
   \<Rightarrow> answers \<times> uuid list \<times> (uuid \<times> due_event delivered) list" where
  "parse_one L result s =
     (case s of (acks, ids, resultByID) \<Rightarrow>
        (case uuid_parse L (de_NotificationID (rm_Event result)) of
           None \<Rightarrow> (acks @ [(rm_Msg result, Nak)], ids, resultByID)
         | Some i \<Rightarrow> (acks, ids @ [i], AList.update i result resultByID)))"

definition parse_batch ::
  "golib \<Rightarrow> due_event delivered list \<Rightarrow> answers \<times> uuid list \<times> (uuid \<times> due_event delivered) list" where
  "parse_batch L batch = fold (parse_one L) batch ([], [], [])"

definition notifByID :: "nrow list \<Rightarrow> uuid \<Rightarrow> nrow option" where
  "notifByID notifs = map_of (rev (map (\<lambda>n. (r_ID n, n)) notifs))"

text \<open>One turn of the second loop.\<close>

definition dispatch_one ::
  "'w due_consumer \<Rightarrow> (uuid \<Rightarrow> nrow option) \<Rightarrow> uuid \<times> due_event delivered \<Rightarrow> answers \<times> 'w \<Rightarrow> answers \<times> 'w" where
  "dispatch_one C byID p s =
     (case (p, s) of ((i, result), (acks, w)) \<Rightarrow>
        (case byID i of
           None \<Rightarrow> (acks @ [(rm_Msg result, Nak)], w)
         | Some notif \<Rightarrow>
             (case pub_Publish (du_pub C) (rm_Ctx result) (TopicByPriority (r_Priority notif))
                     (ready_to_json \<lparr>re_NotificationID = uuid_text (du_lib C) (r_ID notif),
                        re_Channel = r_Channel notif, re_Recipient = r_Recipient notif,
                        re_Content = r_Content notif, re_Priority = r_Priority notif,
                        re_MaxAttempts = r_MaxAttempts notif\<rparr>) w of
                (Inl e, w1) \<Rightarrow> (acks @ [(rm_Msg result, Nak)], w1)
              | (Inr _, w1) \<Rightarrow> (acks @ [(rm_Msg result, Ack)], w1))))"

definition handleBatch :: "'w due_consumer \<Rightarrow> due_event delivered list \<Rightarrow> 'w \<Rightarrow> answers \<times> 'w" where
  "handleBatch C batch w =
     (case parse_batch (du_lib C) batch of
        (acks, ids, resultByID) \<Rightarrow>
          if ids = [] then (acks, w)
          else (case du_GetByIDs C ids w of
                  (Inl e, w1) \<Rightarrow>
                    (acks @ map (\<lambda>(i, result). (rm_Msg result, Nak)) (du_order C resultByID), w1)
                | (Inr notifs, w1) \<Rightarrow>
                    fold (dispatch_one C (notifByID notifs)) (du_order C resultByID) (acks, w1)))"

definition batch_step ::
  "'w due_consumer \<Rightarrow> due_event delivered list \<Rightarrow> answers \<times> 'w \<Rightarrow> answers \<times> 'w" where
  "batch_step C batch s = (case handleBatch C batch (snd s) of (a, w) \<Rightarrow> (fst s @ a, w))"

definition due_Run ::
  "'w due_consumer \<Rightarrow> due_event delivered list pick list \<Rightarrow> 'w \<Rightarrow> answers \<times> 'w" where
  "due_Run C picks w = ForEachBatch (batch_step C) picks ([], w)"

section \<open>Parsing a batch\<close>

definition parsed :: "golib \<Rightarrow> due_event delivered \<Rightarrow> uuid option" where
  "parsed L m = uuid_parse L (de_NotificationID (rm_Event m))"

text \<open>The last message of a batch for an identifier.\<close>

definition last_for :: "golib \<Rightarrow> due_event delivered list \<Rightarrow> uuid \<Rightarrow> due_event delivered option" where
  "last_for L batch i = find (\<lambda>m. parsed L m = Some i) (rev batch)"

lemma find_member: "find P xs = Some x \<Longrightarrow> x \<in> set xs \<and> P x"
  by (induction xs) (auto split: if_splits)

lemma last_for_SomeD: "last_for L batch i = Some m \<Longrightarrow> m \<in> set batch \<and> parsed L m = Some i"
  by (auto simp: last_for_def dest!: find_member)

lemma last_for_ex: "m \<in> set batch \<Longrightarrow> parsed L m = Some i \<Longrightarrow> \<exists>m'. last_for L batch i = Some m'"
  by (cases "last_for L batch i") (auto simp: last_for_def find_None_iff)

lemma parse_batch_snoc:
  "parse_batch L (batch @ [m]) = parse_one L m (parse_batch L batch)"
  by (simp add: parse_batch_def)

lemma parse_batch_spec:
  assumes "parse_batch L batch = (acks, ids, byID)"
  shows "acks = map (\<lambda>m. (rm_Msg m, Nak)) (filter (\<lambda>m. parsed L m = None) batch)"
    and "ids = somes (map (parsed L) batch)"
    and "distinct (map fst byID)" and "map_of byID = last_for L batch"
  using assms
proof (induction batch arbitrary: acks ids byID rule: rev_induct)
  case Nil
  { case 1 then show ?case by (simp add: parse_batch_def) }
  { case 2 then show ?case by (simp add: parse_batch_def) }
  { case 3 then show ?case by (simp add: parse_batch_def) }
  { case 4 then show ?case by (simp add: parse_batch_def last_for_def fun_eq_iff) }
next
  case (snoc m batch)
  obtain a i b where p: "parse_batch L batch = (a, i, b)" by (metis prod_cases3)
  note IH = snoc.IH [OF p]
  have s: "somes (xs @ [y]) = somes xs @ (case y of None \<Rightarrow> [] | Some v \<Rightarrow> [v])" for xs :: "'x option list" and y
    by (induction xs rule: somes.induct) (auto split: option.splits)
  have step: "(acks, ids, byID) = (case parsed L m of
      None \<Rightarrow> (a @ [(rm_Msg m, Nak)], i, b) | Some k \<Rightarrow> (a, i @ [k], AList.update k m b))"
    if "parse_batch L (batch @ [m]) = (acks, ids, byID)" for acks ids byID
    using that by (simp add: parse_batch_snoc p parse_one_def parsed_def split: option.splits)
  { case 1 from step [OF this] IH(1) show ?case by (auto split: option.splits) }
  { case 2 from step [OF this] IH(2) show ?case by (auto simp: s split: option.splits) }
  { case 3 from step [OF this] IH(3) show ?case by (auto simp: distinct_update split: option.splits) }
  { case 4 from step [OF this] IH(4) show ?case
      by (auto simp: last_for_def fun_eq_iff update_conv' split: option.splits) }
qed

section \<open>What the consumers rely on\<close>

text \<open>
  The read port gives stored rows with the identifiers asked for and leaves the store and the
  stream alone, the publisher keeps its promises and leaves the store alone, and the order of a
  map is a permutation.
\<close>

locale due_env = publisher_port "pub_Publish (du_pub C)" sent
  for C :: "'w due_consumer" and sent :: "'w \<Rightarrow> nats_msg list" +
  fixes stored :: "'w \<Rightarrow> uuid \<Rightarrow> nrow option" and ok :: "'w \<Rightarrow> bool"
  assumes get_ok: "ok w \<Longrightarrow> du_GetByIDs C ids w = (Inr rs, w') \<Longrightarrow>
        distinct (map r_ID rs) \<and> (\<forall>r. r \<in> set rs \<longleftrightarrow> (\<exists>i \<in> set ids. stored w i = Some r \<and> r_ID r = i))"
    and get_frame: "du_GetByIDs C ids w = (x, w') \<Longrightarrow> stored w' = stored w \<and> sent w' = sent w"
    and publish_frame: "pub_Publish (du_pub C) c t j w = (q, w') \<Longrightarrow> stored w' = stored w"
    and stored_id: "stored w i = Some r \<Longrightarrow> r_ID r = i"
    and order: "mset (du_order C ps) = mset ps"

text \<open>The ready message of a row in the context of the due message that asked for it.\<close>

definition due_ready :: "golib \<Rightarrow> due_event delivered \<Rightarrow> nrow \<Rightarrow> nats_msg" where
  "due_ready L m r = in_context (rm_Ctx m) (ready_message L r)"

text \<open>One turn's answer, and what it may have added to the stream.\<close>

definition turn_ok ::
  "golib \<Rightarrow> (uuid \<Rightarrow> nrow option) \<Rightarrow> uuid \<times> due_event delivered \<Rightarrow> ack \<Rightarrow> nats_msg list \<Rightarrow> bool" where
  "turn_ok L m p a new \<longleftrightarrow> (case m (fst p) of
       None \<Rightarrow> a = Nak \<and> new = []
     | Some r \<Rightarrow> a = Ack \<and> new = [due_ready L (snd p) r]
         \<or> a = Nak \<and> (new = [] \<or> new = [due_ready L (snd p) r]))"

context due_env
begin

lemma dispatch_turn:
  assumes "dispatch_one C byID p (acks, w) = (acks', w')"
  shows "\<exists>a new. acks' = acks @ [(rm_Msg (snd p), a)] \<and> sent w' = sent w @ new \<and> stored w' = stored w
    \<and> turn_ok (du_lib C) byID p a new"
proof -
  obtain i m where p: "p = (i, m)" by (cases p)
  show ?thesis
  proof (cases "byID i")
    case None
    with assms p show ?thesis by (auto simp: dispatch_one_def turn_ok_def)
  next
    case (Some r)
    let ?m = "ready_message (du_lib C) r"
    obtain q w1 where q: "pub_Publish (du_pub C) (rm_Ctx m) (fst ?m) (snd ?m) w = (q, w1)" by fastforce
    note pa = publish_appends [OF q] and fr = publish_frame [OF q]
    from q have "pub_Publish (du_pub C) (rm_Ctx m) (TopicByPriority (r_Priority r))
                     (ready_to_json \<lparr>re_NotificationID = uuid_text (du_lib C) (r_ID r),
                        re_Channel = r_Channel r, re_Recipient = r_Recipient r,
                        re_Content = r_Content r, re_Priority = r_Priority r,
                        re_MaxAttempts = r_MaxAttempts r\<rparr>) w = (q, w1)"
      by (simp add: ready_message_def ready_From_def)
    with assms p Some have "acks' = acks @ [(rm_Msg m, if is_ok q then Ack else Nak)] \<and> w' = w1"
      by (cases q) (auto simp: dispatch_one_def)
    with pa fr p Some show ?thesis
      by (auto simp: turn_ok_def due_ready_def in_context_def is_ok_def split: sum.splits)
  qed
qed

lemma dispatch_all:
  "fold (dispatch_one C byID) ps (acks, w) = (acks', w') \<Longrightarrow>
     stored w' = stored w \<and> (\<exists>as news. length as = length ps \<and> length news = length ps
       \<and> acks' = acks @ zip (map (\<lambda>p. rm_Msg (snd p)) ps) as \<and> sent w' = sent w @ concat news
       \<and> (\<forall>k < length ps. turn_ok (du_lib C) byID (ps ! k) (as ! k) (news ! k)))"
proof (induction ps arbitrary: acks w)
  case (Cons p ps)
  obtain acks1 w1 where s: "dispatch_one C byID p (acks, w) = (acks1, w1)" by fastforce
  from dispatch_turn [OF s] obtain a new where
    t: "acks1 = acks @ [(rm_Msg (snd p), a)]" "sent w1 = sent w @ new" "stored w1 = stored w"
    "turn_ok (du_lib C) byID p a new" by blast
  from Cons.prems s have "fold (dispatch_one C byID) ps (acks1, w1) = (acks', w')" by simp
  from Cons.IH [OF this] t(3) obtain as news where
    r: "length as = length ps" "length news = length ps" "stored w' = stored w"
    "acks' = acks1 @ zip (map (\<lambda>p. rm_Msg (snd p)) ps) as" "sent w' = sent w1 @ concat news"
    "\<forall>k < length ps. turn_ok (du_lib C) byID (ps ! k) (as ! k) (news ! k)" by auto
  have "\<forall>k < length (p # ps). turn_ok (du_lib C) byID ((p # ps) ! k) ((a # as) ! k) ((new # news) ! k)"
    using t(4) r(6) by (auto simp: nth_Cons split: nat.split)
  with r t show ?case
    by (intro conjI exI [of _ "a # as"] exI [of _ "new # news"]) simp_all
qed simp

lemma handleBatch_spec:
  assumes "ok w" "handleBatch C batch w = (acks, w')"
  shows "stored w' = stored w \<and> (\<exists>ps as news. length as = length ps \<and> length news = length ps
     \<and> distinct (map fst ps) \<and> (\<forall>i m. (i, m) \<in> set ps \<longleftrightarrow> last_for (du_lib C) batch i = Some m)
     \<and> acks = map (\<lambda>m. (rm_Msg m, Nak)) (filter (\<lambda>m. parsed (du_lib C) m = None) batch)
          @ zip (map (\<lambda>p. rm_Msg (snd p)) ps) as
     \<and> sent w' = sent w @ concat news
     \<and> (\<forall>k < length ps. turn_ok (du_lib C) (stored w) (ps ! k) (as ! k) (news ! k)
          \<or> as ! k = Nak \<and> news ! k = []))"
proof -
  let ?L = "du_lib C"
  obtain bad ids byID where p: "parse_batch ?L batch = (bad, ids, byID)" by (metis prod_cases3)
  note spec = parse_batch_spec [OF p]
  let ?ps = "du_order C byID"
  have perm: "mset ?ps = mset byID" by (rule order)
  then have ps: "distinct (map fst ?ps)" "set ?ps = set byID"
    using spec(3) by (metis mset_map mset_eq_imp_distinct_iff, metis set_mset_mset)
  have mem: "(i, m) \<in> set ?ps \<longleftrightarrow> last_for ?L batch i = Some m" for i m
    unfolding ps(2) spec(4) [symmetric] using spec(3) by (metis map_of_eq_Some_iff)
  show ?thesis
  proof (cases "ids = []")
    case True
    have "parsed ?L m = None" if "m \<in> set batch" for m
    proof (rule ccontr)
      assume "parsed ?L m \<noteq> None"
      then obtain i where "parsed ?L m = Some i" by blast
      with that have "i \<in> set ids" unfolding spec(2) set_somes by force
      with True show False by simp
    qed
    then have "last_for ?L batch i = None" for i by (auto simp: last_for_def find_None_iff)
    then have "?ps = []" using mem by (metis option.distinct(1) list.set_intros(1) neq_Nil_conv surj_pair)
    with True assms(2) p spec(1) mem show ?thesis
      by (auto simp: handleBatch_def intro!: exI [of _ "[]"])
  next
    case False
    obtain x w1 where g: "du_GetByIDs C ids w = (x, w1)" by fastforce
    note fr = get_frame [OF g]
    show ?thesis
    proof (cases x)
      case (Inl e)
      with assms(2) p g False have "acks = bad @ map (\<lambda>(i, result). (rm_Msg result, Nak)) ?ps" "w' = w1"
        by (simp_all add: handleBatch_def)
      moreover have "map (\<lambda>(i, result). (rm_Msg result, Nak)) ?ps
          = zip (map (\<lambda>p. rm_Msg (snd p)) ?ps) (replicate (length ?ps) Nak)"
        by (induction ?ps) (auto simp: zip_replicate2)
      ultimately show ?thesis using fr ps(1) mem spec(1)
        by (intro conjI exI [of _ ?ps] exI [of _ "replicate (length ?ps) Nak"] exI [of _ "replicate (length ?ps) []"]) auto
    next
      case (Inr rs)
      note rows = get_ok [OF assms(1) g [unfolded Inr]]
      have found: "notifByID rs i = stored w i" if "(i, m) \<in> set ?ps" for i m
      proof -
        from that mem have "m \<in> set batch" "parsed ?L m = Some i" by (auto dest: last_for_SomeD)
        then have "Some i \<in> set (map (parsed ?L) batch)" by (metis image_eqI list.set_map)
        then have i: "i \<in> set ids" unfolding spec(2) set_somes by simp
        have "distinct (map fst (rev (map (\<lambda>n. (r_ID n, n)) rs)))"
          using rows by (simp add: rev_map comp_def distinct_map)
        then have "notifByID rs i = Some r \<longleftrightarrow> r \<in> set rs \<and> r_ID r = i" for r
          unfolding notifByID_def by (auto simp: map_of_eq_Some_iff)
        with rows stored_id i have "notifByID rs i = Some r \<longleftrightarrow> stored w i = Some r" for r by metis
        then show ?thesis by (metis not_Some_eq)
      qed
      from assms(2) p g False Inr have "fold (dispatch_one C (notifByID rs)) ?ps (bad, w1) = (acks, w')"
        by (simp add: handleBatch_def)
      from dispatch_all [OF this] fr obtain as news where d: "stored w' = stored w"
        "length as = length ?ps" "length news = length ?ps"
        "acks = bad @ zip (map (\<lambda>p. rm_Msg (snd p)) ?ps) as" "sent w' = sent w @ concat news"
        "\<forall>k < length ?ps. turn_ok ?L (notifByID rs) (?ps ! k) (as ! k) (news ! k)" by auto
      have "turn_ok ?L (stored w) (?ps ! k) (as ! k) (news ! k)" if "k < length ?ps" for k
        using d(6) that found [of "fst (?ps ! k)" "snd (?ps ! k)"] by (auto simp: turn_ok_def)
      with d ps(1) mem spec(1) show ?thesis by blast
    qed
  qed
qed

end

section \<open>The concrete consumers\<close>

definition api_due ::
  "golib \<Rightarrow> ((uuid \<times> due_event delivered) list \<Rightarrow> (uuid \<times> due_event delivered) list)
   \<Rightarrow> api_world due_consumer" where
  "api_due L ord = \<lparr>du_GetByIDs = repo_GetByIDs (svc_repo (api_deps L)), du_pub = svc_pub (api_deps L),
     du_lib = L, du_order = ord\<rparr>"

lemma api_row_id: "api_row w i = Some r \<Longrightarrow> r_ID r = i"
  by (auto simp: api_row_def pg_stored_def dest: rows_map_id)

lemma api_due_env:
  assumes "\<And>ps. mset (ord ps) = mset ps"
  shows "due_env (api_due L ord) api_sent api_row api_keyed"
proof (intro due_env.intro due_env_axioms.intro)
  show "publisher_port (pub_Publish (du_pub (api_due L ord))) api_sent"
    using api.publisher_port_axioms by (simp add: api_due_def)
next
  fix w ids rs w'
  assume "api_keyed w" "du_GetByIDs (api_due L ord) ids w = (Inr rs, w')"
  then show "distinct (map r_ID rs) \<and>
      (\<forall>r. r \<in> set rs \<longleftrightarrow> (\<exists>i \<in> set ids. api_row w i = Some r \<and> r_ID r = i))"
    using api.get_by_ids_ok [of w L ids rs w'] by (simp add: api_due_def)
next
  fix ids w x w'
  assume "du_GetByIDs (api_due L ord) ids w = (x, w')"
  then show "api_row w' = api_row w \<and> api_sent w' = api_sent w"
    using api.get_by_ids_stored [of L ids w] api.get_by_ids_sent [of L ids w]
    by (auto simp: api_due_def)
next
  fix c t j w q w'
  assume "pub_Publish (du_pub (api_due L ord)) c t j w = (q, w')"
  then show "api_row w' = api_row w" using api.publish_frame(1) by (simp add: api_due_def del: api_deps_sel)
qed (auto simp: api_due_def assms dest: api_row_id)

interpretation due: due_env "api_due L (\<lambda>ps. ps)" api_sent api_row api_keyed for L
  by (rule api_due_env) simp

text \<open>The answers a message has got.\<close>

definition answers_for :: "answers \<Rightarrow> 'e delivered \<Rightarrow> ack list" where
  "answers_for acks m = map snd (filter (\<lambda>x. fst x = rm_Msg m) acks)"

lemma answers_for_append: "answers_for (a @ b) m = answers_for a m @ answers_for b m"
  by (simp add: answers_for_def)

lemma filter_zip_key:
  "distinct xs \<Longrightarrow> length as = length xs \<Longrightarrow> k < length xs \<Longrightarrow> filter (\<lambda>x. fst x = xs ! k) (zip xs as) = [(xs ! k, as ! k)]"
proof (induction xs as arbitrary: k rule: list_induct2')
  case (4 x xs a as)
  show ?case
  proof (cases k)
    case 0
    with 4 have "filter (\<lambda>y. fst y = x) (zip xs as) = []"
      by (auto simp: filter_empty_conv dest: set_zip_leftD)
    with 0 show ?thesis by simp
  next
    case (Suc n)
    with 4 have "xs ! n \<in> set xs" by simp
    with 4 Suc show ?thesis by auto
  qed
qed simp_all

lemma filter_key: "distinct (map f xs) \<Longrightarrow> x \<in> set xs \<Longrightarrow> filter (\<lambda>y. f y = f x) xs = [x]"
proof (induction xs)
  case (Cons y xs)
  then show ?case by (cases "y = x") (auto simp: filter_empty_conv image_iff)
qed simp

lemma filter_zip_no_key: "x \<notin> set xs \<Longrightarrow> filter (\<lambda>y. fst y = x) (zip xs as) = []"
  by (auto simp: filter_empty_conv dest: set_zip_leftD)

text \<open>The answers of a batch, message by message.\<close>

lemma batch_answers:
  assumes ps: "distinct (map fst ps)" "\<forall>i m. (i, m) \<in> set ps \<longleftrightarrow> last_for L batch i = Some m"
    and as: "length as = length ps"
    and acks: "acks = map (\<lambda>m. (rm_Msg m, Nak)) (filter (\<lambda>m. parsed L m = None) batch)
          @ zip (map (\<lambda>p. rm_Msg (snd p)) ps) as"
    and inj: "distinct (map rm_Msg batch)" and m: "m \<in> set batch"
  shows "parsed L m = None \<Longrightarrow> answers_for acks m = [Nak]"
    and "parsed L m = Some i \<Longrightarrow> last_for L batch i \<noteq> Some m \<Longrightarrow> answers_for acks m = []"
    and "k < length ps \<Longrightarrow> ps ! k = (i, m) \<Longrightarrow> answers_for acks m = [as ! k]"
proof -
  let ?bad = "filter (\<lambda>m. parsed L m = None) batch" and ?msgs = "map (\<lambda>p. rm_Msg (snd p)) ps"
  have same: "m' = m''" if "m' \<in> set batch" "m'' \<in> set batch" "rm_Msg m' = rm_Msg m''" for m' m''
    using inj that by (auto simp: distinct_map inj_on_def)
  have mem: "m' \<in> set batch \<and> parsed L m' = Some j" if "(j, m') \<in> set ps" for j m'
    using that ps(2) last_for_SomeD by blast
  have no_zip: "answers_for (zip ?msgs as) m = []" if "\<forall>j. (j, m) \<notin> set ps"
  proof -
    have "rm_Msg m \<notin> set ?msgs" using that mem same [OF m] by fastforce
    then show ?thesis by (simp add: answers_for_def filter_zip_no_key)
  qed
  have no_bad: "answers_for (map (\<lambda>m. (rm_Msg m, Nak)) ?bad) m = []" if "parsed L m \<noteq> None"
    using that same [OF m] by (fastforce simp: answers_for_def filter_empty_conv)
  show "answers_for acks m = [Nak]" if p: "parsed L m = None"
  proof -
    have "filter (\<lambda>x. rm_Msg x = rm_Msg m) batch = [m]" by (rule filter_key [OF inj m])
    then have "filter (\<lambda>x. rm_Msg x = rm_Msg m) ?bad = [m]"
      using p by (simp add: filter_filter conj_commute) (simp flip: filter_filter)
    then have "answers_for (map (\<lambda>m. (rm_Msg m, Nak)) ?bad) m = [Nak]"
      by (simp add: answers_for_def filter_map comp_def)
    moreover have "\<forall>j. (j, m) \<notin> set ps" using p mem by fastforce
    ultimately show ?thesis using no_zip by (simp add: acks answers_for_append)
  qed
  show "answers_for acks m = []" if p: "parsed L m = Some i" "last_for L batch i \<noteq> Some m"
  proof -
    have "\<forall>j. (j, m) \<notin> set ps" using p mem ps(2) by fastforce
    with no_zip no_bad p(1) show ?thesis by (simp add: acks answers_for_append)
  qed
  show "answers_for acks m = [as ! k]" if k: "k < length ps" "ps ! k = (i, m)"
  proof -
    have "(i, m) \<in> set ps" using k by (metis nth_mem)
    with mem have "parsed L m = Some i" by blast
    have "distinct ?msgs"
    proof -
      have "p = q" if "p \<in> set ps" "q \<in> set ps" "rm_Msg (snd p) = rm_Msg (snd q)" for p q
      proof -
        from that mem have "snd p = snd q" "parsed L (snd p) = Some (fst p)" "parsed L (snd q) = Some (fst q)"
          by (metis same prod.collapse)+
        then show ?thesis by (simp add: prod_eq_iff)
      qed
      then have "inj_on (\<lambda>p. rm_Msg (snd p)) (set ps)" by (rule inj_onI)
      then show ?thesis using ps(1) by (simp add: distinct_map)
    qed
    from filter_zip_key [OF this, of as k] k as
    have "answers_for (zip ?msgs as) m = [as ! k]" by (simp add: answers_for_def)
    with no_bad \<open>parsed L m = Some i\<close> show ?thesis by (simp add: acks answers_for_append)
  qed
qed

section \<open>Properties\<close>

text \<open>
  C34: a batch of due messages. The store is unchanged. A message whose identifier does not parse
  gets one nak; of several messages for the same notification only the last gets an answer, the
  earlier ones get none and stay unacknowledged; the last one gets exactly one answer, and an
  acknowledgement only if the row is stored and its ready message, in the message's own context,
  was published on the topic of its priority (whatever the row's status is). Every message that
  is published is the ready message of a stored row that the batch asked for.
\<close>

theorem due_batch_accounts:
  assumes "api_keyed w" "\<And>ps. mset (ord ps) = mset ps" "distinct (map rm_Msg batch)"
    "handleBatch (api_due L ord) batch w = (acks, w')"
  shows "api_row w' = api_row w \<and> (\<exists>new. api_sent w' = api_sent w @ new
    \<and> (\<forall>x \<in> set new. \<exists>i m r. last_for L batch i = Some m \<and> api_row w i = Some r \<and> x = due_ready L m r)
    \<and> (\<forall>m \<in> set batch. case parsed L m of
          None \<Rightarrow> answers_for acks m = [Nak]
        | Some i \<Rightarrow>
            if last_for L batch i \<noteq> Some m then answers_for acks m = []
            else answers_for acks m = [Nak] \<or> answers_for acks m = [Ack] \<and>
                   (\<exists>r. api_row w i = Some r \<and> due_ready L m r \<in> set new)))"
proof -
  have L: "du_lib (api_due L ord) = L" by (simp add: api_due_def)
  from due_env.handleBatch_spec [OF api_due_env [OF assms(2)] assms(1,4), unfolded L]
  obtain ps as news where s: "api_row w' = api_row w" "length as = length ps" "length news = length ps"
    "distinct (map fst ps)" "\<forall>i m. (i, m) \<in> set ps \<longleftrightarrow> last_for L batch i = Some m"
    "acks = map (\<lambda>m. (rm_Msg m, Nak)) (filter (\<lambda>m. parsed L m = None) batch)
       @ zip (map (\<lambda>p. rm_Msg (snd p)) ps) as"
    "api_sent w' = api_sent w @ concat news"
    "\<forall>k < length ps. turn_ok L (api_row w) (ps ! k) (as ! k) (news ! k) \<or> as ! k = Nak \<and> news ! k = []"
    by blast
  note ans = batch_answers [OF s(4,5,2,6) assms(3)]
  show ?thesis
  proof (intro conjI exI [of _ "concat news"] ballI)
    show "api_row w' = api_row w" "api_sent w' = api_sent w @ concat news" by (rule s)+
  next
    fix x
    assume "x \<in> set (concat news)"
    then obtain ns where "ns \<in> set news" and x: "x \<in> set ns" by auto
    then obtain k where k: "k < length ps" "x \<in> set (news ! k)" using s(3) by (metis in_set_conv_nth)
    obtain i m where p: "ps ! k = (i, m)" by (cases "ps ! k")
    with k(1) s(5) have "last_for L batch i = Some m" by (metis nth_mem)
    with k p s(8) show "\<exists>i m r. last_for L batch i = Some m \<and> api_row w i = Some r \<and> x = due_ready L m r"
      by (fastforce simp: turn_ok_def split: option.splits)
  next
    fix m
    assume m: "m \<in> set batch"
    show "case parsed L m of None \<Rightarrow> answers_for acks m = [Nak]
        | Some i \<Rightarrow> if last_for L batch i \<noteq> Some m then answers_for acks m = []
            else answers_for acks m = [Nak] \<or> answers_for acks m = [Ack] \<and>
                   (\<exists>r. api_row w i = Some r \<and> due_ready L m r \<in> set (concat news))"
    proof (cases "parsed L m")
      case None
      with ans(1) [OF m] show ?thesis by simp
    next
      case (Some i)
      show ?thesis
      proof (cases "last_for L batch i = Some m")
        case False
        with Some ans(2) [OF m Some] show ?thesis by simp
      next
        case True
        then obtain k where k: "k < length ps" "ps ! k = (i, m)" using s(5) by (metis in_set_conv_nth)
        from ans(3) [OF m k] have a: "answers_for acks m = [as ! k]" .
        have "news ! k \<in> set news" using k(1) s(3) by simp
        then have sub: "set (news ! k) \<subseteq> set (concat news)" by auto
        from s(8) k have "turn_ok L (api_row w) (i, m) (as ! k) (news ! k) \<or> as ! k = Nak" by metis
        then have "as ! k = Nak \<or> as ! k = Ack \<and>
            (\<exists>r. api_row w i = Some r \<and> due_ready L m r \<in> set (news ! k))"
          by (auto simp: turn_ok_def split: option.splits)
        with sub have "as ! k = Nak \<or> as ! k = Ack \<and>
            (\<exists>r. api_row w i = Some r \<and> due_ready L m r \<in> set (concat news))" by blast
        then show ?thesis unfolding Some option.case a True by auto
      qed
    qed
  qed
qed

definition due_message :: "nat \<Rightarrow> string \<Rightarrow> due_event delivered" where
  "due_message n i = \<lparr>rm_Ctx = [], rm_Event = \<lparr>de_NotificationID = i\<rparr>, rm_Msg = n, rm_AttemptNumber = 1\<rparr>"

definition sample_due :: "due_event delivered list" where
  "sample_due = [due_message 0 ''7'', due_message 1 ''x'', due_message 2 ''7'']"

theorem due_batch_accounts_witness:
  "\<exists>acks w'. handleBatch (api_due sample_lib rev) sample_due sample_world = (acks, w')
     \<and> answers_for acks (due_message 0 ''7'') = [] \<and> answers_for acks (due_message 1 ''x'') = [Nak]
     \<and> answers_for acks (due_message 2 ''7'') \<in> {[Nak], [Ack]}"
proof -
  obtain acks w' where h: "handleBatch (api_due sample_lib rev) sample_due sample_world = (acks, w')"
    by fastforce
  have d: "distinct (map rm_Msg sample_due)" by (simp add: sample_due_def due_message_def)
  have p: "parsed sample_lib (due_message 0 ''7'') = Some (UUID 7)"
    "parsed sample_lib (due_message 1 ''x'') = None" "parsed sample_lib (due_message 2 ''7'') = Some (UUID 7)"
    by code_simp+
  then have l: "last_for sample_lib sample_due (UUID 7) = Some (due_message 2 ''7'')"
    by (simp add: last_for_def sample_due_def)
  have "due_message 2 ''7'' \<noteq> due_message 0 ''7''" by (simp add: due_message_def)
  with due_batch_accounts [OF sample_keyed _ d h] p l have "answers_for acks (due_message 0 ''7'') = []"
    "answers_for acks (due_message 1 ''x'') = [Nak]" "answers_for acks (due_message 2 ''7'') \<in> {[Nak], [Ack]}"
    by (auto simp: sample_due_def split: option.splits if_splits)
  with h show ?thesis by blast
qed

text \<open>
  C35: one delivery result. It is acknowledged exactly when the status of its row was moved along the
  transition table to the event's status; otherwise (an identifier that does not parse, an unknown
  row, a move the table does not allow, a failing database) the answer is a nak and no row has
  changed. Nothing is published.
\<close>

theorem delivery_result_settles:
  assumes "api_keyed w" "result_processOne L (api_service L) m w = (a, w')"
  shows "api_sent w' = api_sent w \<and>
    ((a = Nak \<and> api_row w' = api_row w)
     \<or> (a = Ack \<and> (\<exists>i r r'. uuid_parse L (rs_NotificationID (rm_Event m)) = Some i \<and> api_row w i = Some r
          \<and> may_become (r_Status r) (rs_Status (rm_Event m))
          \<and> same_but_times (r\<lparr>r_Status := rs_Status (rm_Event m)\<rparr>) r'
          \<and> api_row w' = (api_row w)(i \<mapsto> r'))))"
proof (cases "uuid_parse L (rs_NotificationID (rm_Event m))")
  case None
  with assms(2) show ?thesis by (simp add: result_processOne_def)
next
  case (Some i)
  let ?st = "rs_Status (rm_Event m)"
  obtain x w1 where u: "svc_UpdateStatus (api_deps L) i ?st w = (x, w1)" by fastforce
  with assms(2) Some have a: "a = (if is_ok x then Ack else Nak)" "w' = w1"
    by (cases x; auto simp: result_processOne_def)+
  from assms(1) u show ?thesis
  proof (cases rule: api.update_cases)
    case failed
    with a show ?thesis by simp
  next
    case (ok r r')
    with a Some show ?thesis by auto
  qed
qed

definition sample_result :: "status \<Rightarrow> result_event delivered" where
  "sample_result st = \<lparr>rm_Ctx = [], rm_Event = \<lparr>rs_NotificationID = ''7'', rs_Status = st, rs_AttemptNumber = 1,
     rs_HTTPStatusCode = 202, rs_ErrorMessage = '''', rs_ProviderMessageID = '''', rs_LatencyMS = 3\<rparr>,
     rm_Msg = 0, rm_AttemptNumber = 1\<rparr>"

theorem delivery_result_settles_witness:
  "\<exists>w' r'. result_processOne sample_lib (api_service sample_lib) (sample_result StatusDelivered) sample_world
       = (Ack, w') \<and> api_row w' (UUID 7) = Some r' \<and> r_Status r' = StatusDelivered"
proof -
  have ack: "fst (result_processOne sample_lib (api_service sample_lib) (sample_result StatusDelivered) sample_world)
      = Ack" by code_simp
  then obtain w' where
    h: "result_processOne sample_lib (api_service sample_lib) (sample_result StatusDelivered) sample_world = (Ack, w')"
    by (metis prod.collapse)
  have p: "uuid_parse sample_lib (rs_NotificationID (rm_Event (sample_result StatusDelivered))) = Some (UUID 7)"
    by code_simp
  from delivery_result_settles [OF sample_keyed h] obtain i r r' where
    "uuid_parse sample_lib (rs_NotificationID (rm_Event (sample_result StatusDelivered))) = Some i"
    "same_but_times (r\<lparr>r_Status := StatusDelivered\<rparr>) r'" "api_row w' = (api_row sample_world)(i \<mapsto> r')"
    by (auto simp: sample_result_def)
  with p h show ?thesis by (auto dest: same_but_timesD(7))
qed



end
