(* ===== verification/DeliveryServices.thy ===== *)
theory DeliveryServices
  imports Complex_Main Ports
begin

text \<open>
  The services the delivery pipeline calls: the retry delay of
  processor/internal/service/retry.go with its floating-point steps, the per-channel rate limiter
  (ratelimit.go), the Redis lock (shared/lock), the HTTP client (shared/httpclient) and the
  delivery client over it (ntfndeliveryclient.go), and the outcome metrics (metrics.go).
\<close>

section \<open>Retry delay\<close>

subsection \<open>Double precision\<close>

text \<open>
  Rounding to a \<open>float64\<close>: the grid exponent of a value (from the subnormals upwards), then
  rounding to the grid, ties to even. Overflow to infinity does not arise for the values below.
\<close>

definition round_even :: "rat \<Rightarrow> int" where
  "round_even z =
     (let f = floor z; d = z - of_int f
      in if d < 1 / 2 then f else if 1 / 2 < d then f + 1 else if even f then f else f + 1)"

fun two_to :: "int \<Rightarrow> rat" where
  "two_to e = (if 0 \<le> e then 2 ^ nat e else 1 / 2 ^ nat (- e))"

declare two_to.simps [simp del]

fun grid_exponent :: "nat \<Rightarrow> int \<Rightarrow> rat \<Rightarrow> int" where
  "grid_exponent 0 e x = e"
| "grid_exponent (Suc fuel) e x = (if x < two_to (e + 53) then e else grid_exponent fuel (e + 1) x)"

definition float64 :: "rat \<Rightarrow> rat" where
  "float64 x =
     (let e = grid_exponent 2046 (- 1074) \<bar>x\<bar>
      in if x = 0 then 0 else sgn x * of_int (round_even (\<bar>x\<bar> / two_to e)) * two_to e)"

text \<open>The constant 0.2 as a double, and the conversion of a double to an integer: towards zero.\<close>

definition one_fifth :: rat where
  "one_fifth = 3602879701896397 / 2 ^ 54"

definition trunc :: "rat \<Rightarrow> int" where
  "trunc x = (if x < 0 then - floor (- x) else floor x)"

subsection \<open>RetryDelay\<close>

definition MaxAttempts :: int where "MaxAttempts = 4"
definition retryBase :: duration where "retryBase = 60 * 1000000000"
definition retryMaxWait :: duration where "retryMaxWait = 480 * 1000000000"

text \<open>
  60s * 2^(attempt-2) is exact in double precision, so the conversion to a duration is the
  truncation of it; a result outside 64 bits is implementation-defined in Go, the parameter
  \<open>conv\<close> (on amd64 it is the smallest integer). \<open>u\<close> is the value \<open>rand.Float64\<close> returned.
\<close>

definition retry_base :: "(int \<Rightarrow> duration) \<Rightarrow> int \<Rightarrow> duration" where
  "retry_base conv attempt =
     (let k = wrap64 (attempt - 2)
      in if k < 0 then retryBase div 2 ^ nat (- k)
         else if 28 \<le> k then conv attempt
         else retryBase * 2 ^ nat k)"

definition RetryDelay :: "(int \<Rightarrow> duration) \<Rightarrow> rat \<Rightarrow> int \<Rightarrow> duration" where
  "RetryDelay conv u attempt =
     (let base0 = retry_base conv attempt;
          base = (if retryMaxWait < base0 then retryMaxWait else base0);
          jitter = trunc (float64 (float64 (u * float64 (of_int base)) * one_fifth))
      in wrap64 (base + jitter))"

lemma round_even_le: "z \<le> of_int n \<Longrightarrow> round_even z \<le> n"
proof -
  assume z: "z \<le> of_int n"
  have "round_even z = floor z \<or> round_even z = floor z + 1 \<and> of_int (floor z) < z"
    by (auto simp: round_even_def Let_def)
  with z show ?thesis by linarith
qed

lemma round_even_nonneg: "0 \<le> z \<Longrightarrow> 0 \<le> round_even z"
  by (auto simp: round_even_def Let_def)

lemma round_even_int [simp]: "round_even (of_int n) = n"
  by (simp add: round_even_def)

lemma two_to_pos [simp]: "0 < two_to e"
  by (simp add: two_to.simps)

lemma grid_exponent_le:
  "x < two_to (m + 53) \<Longrightarrow> e \<le> m \<Longrightarrow> grid_exponent fuel e x \<le> m"
proof (induction fuel arbitrary: e)
  case (Suc fuel)
  then show ?case by (cases "e = m") auto
qed simp

text \<open>Below 2^52 every half integer is on the grid, so rounding does not pass one.\<close>

lemma float64_le_half:
  assumes "0 \<le> x" "x < 2 ^ 52" "x \<le> of_int m / 2"
  shows "0 \<le> float64 x \<and> float64 x \<le> of_int m / 2"
proof -
  define e where "e = grid_exponent 2046 (- 1074) x"
  have "e \<le> - 1" unfolding e_def using assms by (intro grid_exponent_le) (simp_all add: two_to.simps)
  define k where "k = nat (- e - 1)"
  have k: "two_to e = 1 / (2 * 2 ^ k)"
  proof -
    have "nat (- e) = Suc k" using \<open>e \<le> - 1\<close> by (simp add: k_def)
    then show ?thesis using \<open>e \<le> - 1\<close> by (simp add: two_to.simps)
  qed
  have "\<bar>x\<bar> / two_to e \<le> of_int (m * 2 ^ k)"
    using assms(1,3) by (simp add: k field_simps)
  then have r: "round_even (\<bar>x\<bar> / two_to e) \<le> m * 2 ^ k" by (rule round_even_le)
  have r0: "0 \<le> round_even (\<bar>x\<bar> / two_to e)"
    by (intro round_even_nonneg divide_nonneg_pos) simp_all
  from assms(1,3) have m: "0 \<le> m" using order_trans by fastforce
  have "of_int (round_even (\<bar>x\<bar> / two_to e)) * two_to e \<le> of_int (m * 2 ^ k) * two_to e"
    using r by (intro mult_right_mono) (simp_all only: of_int_le_iff less_imp_le two_to_pos)
  also have "\<dots> = of_int m / 2" by (simp add: k)
  finally have up: "of_int (round_even (x / two_to e)) * two_to e \<le> of_int m / 2" using assms(1) by simp
  have "0 \<le> of_int (round_even (x / two_to e)) * two_to e"
    using r0 assms(1) by (intro mult_nonneg_nonneg) (simp_all add: less_imp_le)
  with up show ?thesis
    using assms(1) m by (auto simp: float64_def Let_def sgn_if e_def)
qed

text \<open>A multiple of 2^10 up to 480s is a double.\<close>

lemma float64_int:
  assumes "0 \<le> n" "n < 2 ^ 52"
  shows "float64 (of_int n) = of_int n"
proof (cases "n = 0")
  case False
  define e where "e = grid_exponent 2046 (- 1074) (of_int n)"
  have "(of_int n :: rat) < of_int (2 ^ 52)" using assms(2) by (simp only: of_int_less_iff)
  then have "e \<le> - 1" unfolding e_def using assms by (intro grid_exponent_le) (simp_all add: two_to.simps)
  then have t: "two_to e = 1 / 2 ^ nat (- e)" by (simp add: two_to.simps)
  have "\<bar>of_int n :: rat\<bar> / two_to e = of_int (n * 2 ^ nat (- e))" using assms(1) by (simp add: t)
  then have "round_even (\<bar>of_int n\<bar> / two_to e) = n * 2 ^ nat (- e)" by (simp only: round_even_int)
  with assms False t show ?thesis by (simp add: float64_def Let_def sgn_if e_def)
qed (simp add: float64_def)

lemma jitter_bounds:
  assumes u: "0 \<le> u" "u < 1" and b: "0 \<le> b" "b \<le> retryMaxWait" "5 dvd b"
  shows "0 \<le> trunc (float64 (float64 (u * float64 (of_int b)) * one_fifth)) \<and>
    trunc (float64 (float64 (u * float64 (of_int b)) * one_fifth)) \<le> b div 5"
proof -
  have bq: "(0 :: rat) \<le> of_int b" "(of_int b :: rat) \<le> 480000000000"
    using b(1) b(2) by (simp_all add: retryMaxWait_def)
  have fb: "float64 (of_int b) = of_int b" using b by (intro float64_int) (simp_all add: retryMaxWait_def)
  have ub: "0 \<le> u * of_int b" "u * of_int b \<le> of_int b"
    using u bq by (simp_all add: mult_left_le_one_le)
  let ?p = "float64 (u * of_int b)"
  have p: "0 \<le> ?p" "?p \<le> of_int b"
    using float64_le_half [of "u * of_int b" "2 * b"] ub bq by auto
  obtain c where c: "b = 5 * c" using b(3) by blast
  have "?p * one_fifth \<le> of_int b * one_fifth" using p by (intro mult_right_mono) (simp_all add: one_fifth_def)
  also have "\<dots> \<le> of_int (2 * c + 1) / 2" using bq by (simp add: c one_fifth_def)
  finally have "0 \<le> float64 (?p * one_fifth) \<and> float64 (?p * one_fifth) \<le> of_int (2 * c + 1) / 2"
    using p bq by (intro float64_le_half) (auto simp: one_fifth_def)
  then have "0 \<le> float64 (?p * one_fifth)" "floor (float64 (?p * one_fifth)) \<le> c"
    by (simp_all add: floor_le_iff)
  then show ?thesis unfolding fb by (simp add: trunc_def c)
qed

lemma retry_base_values:
  assumes "2 \<le> attempt" "attempt < 30"
  shows "retry_base conv attempt = retryBase * 2 ^ nat (attempt - 2)"
  using assms by (simp add: retry_base_def int64_def)

text \<open>The delay before the given attempt without its jitter: doubled per attempt, up to the maximum.\<close>

definition planned_delay :: "int \<Rightarrow> duration" where
  "planned_delay attempt = min (retryBase * 2 ^ nat (attempt - 2)) retryMaxWait"

lemma planned_delay_bounds:
  "2 \<le> attempt \<Longrightarrow> retryBase \<le> planned_delay attempt \<and> planned_delay attempt \<le> retryMaxWait
     \<and> 5 dvd planned_delay attempt"
  by (auto simp: planned_delay_def retryBase_def retryMaxWait_def min_def)

lemma retry_delay_planned:
  assumes "2 \<le> attempt" "attempt < 2 ^ 63" "attempt < 30 \<or> retryMaxWait \<le> conv attempt"
  shows "(if retryMaxWait < retry_base conv attempt then retryMaxWait else retry_base conv attempt)
     = planned_delay attempt"
proof (cases "attempt < 30")
  case True
  with assms(1) show ?thesis by (simp add: retry_base_values planned_delay_def min_def)
next
  case False
  have "(2 :: int) ^ 28 \<le> 2 ^ nat (attempt - 2)" using False by (intro power_increasing) simp_all
  then have "planned_delay attempt = retryMaxWait"
    by (simp add: planned_delay_def retryBase_def retryMaxWait_def)
  moreover have "retry_base conv attempt = conv attempt"
    using False assms(2) by (simp add: retry_base_def int64_def)
  ultimately show ?thesis using assms(3) False by simp
qed

lemma RetryDelay_bounds:
  assumes "2 \<le> attempt" "attempt < 2 ^ 63" "attempt < 30 \<or> retryMaxWait \<le> conv attempt"
    and "0 \<le> u" "u < 1"
  shows "planned_delay attempt \<le> RetryDelay conv u attempt"
    "RetryDelay conv u attempt \<le> planned_delay attempt + planned_delay attempt div 5"
proof -
  let ?d = "planned_delay attempt"
  have d: "retryBase \<le> ?d" "?d \<le> retryMaxWait" "5 dvd ?d"
    using planned_delay_bounds [OF assms(1)] by simp_all
  note j = jitter_bounds [OF assms(4,5) _ d(2,3)]
  have "0 \<le> ?d" using d(1) by (simp add: retryBase_def)
  have "RetryDelay conv u attempt
      = wrap64 (?d + trunc (float64 (float64 (u * float64 (of_int ?d)) * one_fifth)))"
    by (simp only: RetryDelay_def Let_def retry_delay_planned [of attempt conv, OF assms(1-3)])
  also have "\<dots> = ?d + trunc (float64 (float64 (u * float64 (of_int ?d)) * one_fifth))"
    using j [OF \<open>0 \<le> ?d\<close>] \<open>0 \<le> ?d\<close> d(2)
    by (intro wrap64_id) (auto simp: int64_def retryMaxWait_def)
  finally show "?d \<le> RetryDelay conv u attempt" "RetryDelay conv u attempt \<le> ?d + ?d div 5"
    using j [OF \<open>0 \<le> ?d\<close>] by simp_all
qed

section \<open>Rate limiter\<close>

text \<open>
  \<open>redis_rate\<close> decides: its \<open>Allow\<close> gets a key and a limit and reports how many requests are
  allowed and after what time to retry.
\<close>

record rate_limit =
  rl_Rate :: int
  rl_Burst :: int
  rl_Period :: duration

record rate_result =
  rr_Allowed :: int
  rr_RetryAfter :: duration

definition defaultLimit :: rate_limit where
  "defaultLimit = \<lparr>rl_Rate = 100, rl_Burst = 120, rl_Period = 1000000000\<rparr>"

record 'w redis_limiter =
  li_Allow :: "string \<Rightarrow> rate_limit \<Rightarrow> 'w \<Rightarrow> rate_result result \<times> 'w"
  li_channelLimits :: "string \<Rightarrow> rate_limit option"

definition limit_key :: "string \<Rightarrow> string" where
  "limit_key channel = ''ratelimit:{'' @ channel @ ''}''"

definition IsAllowed :: "'w redis_limiter \<Rightarrow> string \<Rightarrow> 'w \<Rightarrow> (bool \<times> duration) result \<times> 'w" where
  "IsAllowed l channel w =
     (let limit = (case li_channelLimits l channel of Some x \<Rightarrow> x | None \<Rightarrow> defaultLimit)
      in case li_Allow l (limit_key channel) limit w of
           (Inl e, w1) \<Rightarrow> (Inl (Wrap ''rate limiter: '' e ''''), w1)
         | (Inr res, w1) \<Rightarrow>
             (if 0 < rr_Allowed res then (Inr (True, 0), w1)
              else (Inr (False, rr_RetryAfter res), w1)))"

lemma limit_key_inj: "limit_key c = limit_key c' \<longleftrightarrow> c = c'"
  by (simp add: limit_key_def)

section \<open>Lock\<close>

text \<open>The interface \<open>Locker\<close> and what it promises about the identifiers that are locked.\<close>

record 'w locker =
  lk_TryLock :: "string \<Rightarrow> 'w \<Rightarrow> bool result \<times> 'w"
  lk_Unlock :: "string \<Rightarrow> 'w \<Rightarrow> unit result \<times> 'w"

locale locker_port =
  fixes try_lock :: "string \<Rightarrow> 'w \<Rightarrow> bool result \<times> 'w"
    and unlock :: "string \<Rightarrow> 'w \<Rightarrow> unit result \<times> 'w"
    and held :: "'w \<Rightarrow> string \<Rightarrow> bool"
  assumes lock_taken: "try_lock i w = (Inr True, w') \<Longrightarrow> \<not> held w i \<and> held w' i"
    and lock_missed: "try_lock i w = (Inr False, w') \<Longrightarrow> held w i \<and> held w' = held w"
    and lock_others: "try_lock i w = (r, w') \<Longrightarrow> j \<noteq> i \<Longrightarrow> held w' j = held w j"
    and unlocked: "unlock i w = (Inr u, w') \<Longrightarrow> \<not> held w' i"
    and unlock_others: "unlock i w = (q, w') \<Longrightarrow> j \<noteq> i \<Longrightarrow> held w' j = held w j"

text \<open>
  The Redis keys with their expiry, the clock, and for each command to come whether it fails, and
  if so whether the server ran it nevertheless.
\<close>

record redis =
  rd_keys :: "string \<Rightarrow> time option"
  rd_now :: time
  rd_faults :: "(string \<times> bool) option tape"

definition live :: "redis \<Rightarrow> string \<Rightarrow> bool" where
  "live s key \<longleftrightarrow> (case rd_keys s key of None \<Rightarrow> False | Some t \<Rightarrow> rd_now s < t)"

definition redis_command :: "(redis \<Rightarrow> 'a \<times> redis) \<Rightarrow> redis \<Rightarrow> 'a result \<times> redis" where
  "redis_command f s =
     (let s1 = s\<lparr>rd_faults := tape_next (rd_faults s)\<rparr>
      in case tape_read (rd_faults s) of
           None \<Rightarrow> (let (x, s2) = f s1 in (Inr x, s2))
         | Some (msg, executed) \<Rightarrow> (Inl (Opaque msg), if executed then snd (f s1) else s1))"

definition set_nx :: "string \<Rightarrow> duration \<Rightarrow> redis \<Rightarrow> bool \<times> redis" where
  "set_nx key ttl s =
     (if live s key then (False, s)
      else (True, s\<lparr>rd_keys := (rd_keys s)(key \<mapsto> rd_now s + ttl)\<rparr>))"

definition del_key :: "string \<Rightarrow> redis \<Rightarrow> unit \<times> redis" where
  "del_key key s = ((), s\<lparr>rd_keys := (rd_keys s)(key := None)\<rparr>)"

definition lockTTL :: duration where "lockTTL = 10 * 1000000000"

definition lock_key :: "string \<Rightarrow> string" where
  "lock_key i = ''notify:lock:'' @ i"

definition TryLock :: "string \<Rightarrow> redis \<Rightarrow> bool result \<times> redis" where
  "TryLock i s =
     (case redis_command (set_nx (lock_key i) lockTTL) s of
        (Inl e, s1) \<Rightarrow> (Inl e, s1)
      | (Inr acquired, s1) \<Rightarrow> (Inr acquired, s1))"

definition Unlock :: "string \<Rightarrow> redis \<Rightarrow> unit result \<times> redis" where
  "Unlock i s =
     (case redis_command (del_key (lock_key i)) s of
        (Inl e, s1) \<Rightarrow> (Inl e, s1)
      | (Inr _, s1) \<Rightarrow> (Inr (), s1))"

definition redis_locker :: "redis locker" where
  "redis_locker = \<lparr>lk_TryLock = TryLock, lk_Unlock = Unlock\<rparr>"

definition lock_held :: "redis \<Rightarrow> string \<Rightarrow> bool" where
  "lock_held s i = live s (lock_key i)"

lemmas lock_defs =
  TryLock_def Unlock_def redis_command_def set_nx_def del_key_def lock_held_def lock_key_def live_def
  lockTTL_def

interpretation redis_lock: locker_port TryLock Unlock lock_held
proof
  fix i s s'
  assume "TryLock i s = (Inr True, s')"
  then show "\<not> lock_held s i \<and> lock_held s' i"
    by (auto simp: lock_defs Let_def split: option.splits if_splits prod.splits)
next
  fix i s s'
  assume "TryLock i s = (Inr False, s')"
  then show "lock_held s i \<and> lock_held s' = lock_held s"
    by (auto simp: lock_defs Let_def fun_eq_iff split: option.splits if_splits prod.splits)
next
  fix i s r s' j
  assume "TryLock i s = (r, s')" "j \<noteq> (i :: string)"
  then show "lock_held s' j = lock_held s j"
    by (auto simp: lock_defs Let_def split: option.splits if_splits prod.splits)
next
  fix i s u s'
  assume "Unlock i s = (Inr u, s')"
  then show "\<not> lock_held s' i"
    by (auto simp: lock_defs Let_def split: option.splits if_splits prod.splits)
next
  fix i s r s' j
  assume "Unlock i s = (r, s')" "j \<noteq> (i :: string)"
  then show "lock_held s' j = lock_held s j"
    by (auto simp: lock_defs Let_def split: option.splits if_splits prod.splits)
qed

section \<open>HTTP client and delivery client\<close>

text \<open>
  The transport is a parameter: the error of building a request for a URL, and the exchange, which
  yields a status code or an error. Marshalling never fails for the payloads the program sends.
\<close>

record http_request =
  hq_Method :: string
  hq_URL :: string
  hq_Header :: "(string \<times> string) list"
  hq_Body :: "json option"

record 'w http_client =
  hc_baseURL :: string
  hc_build :: "string \<Rightarrow> string \<Rightarrow> go_error option"
  hc_Do :: "http_request \<Rightarrow> 'w \<Rightarrow> int result \<times> 'w"

definition Request :: "'w http_client \<Rightarrow> string \<Rightarrow> string \<Rightarrow> json option \<Rightarrow> 'w \<Rightarrow> int result \<times> 'w" where
  "Request c meth path payload w =
     (let url = hc_baseURL c @ path
      in case hc_build c meth url of
           Some e \<Rightarrow> (Inl (Wrap ''build request: '' e ''''), w)
         | None \<Rightarrow>
             (let req = \<lparr>hq_Method = meth, hq_URL = url,
                    hq_Header = (if payload \<noteq> None then [(''Content-Type'', ''application/json'')] else []),
                    hq_Body = payload\<rparr>
              in case hc_Do c req w of
                   (Inl e, w1) \<Rightarrow> (Inl (Wrap (meth @ '' '' @ url @ '': '') e ''''), w1)
                 | (Inr code, w1) \<Rightarrow> (Inr code, w1)))"

record delivery_result =
  dr_Success :: bool
  dr_Retryable :: bool
  dr_StatusCode :: int
  dr_LatencyMS :: int
  dr_ProviderMsgID :: string
  dr_ErrorMessage :: string

definition delivery_body :: "string \<Rightarrow> string \<Rightarrow> string \<Rightarrow> json" where
  "delivery_body recipient channel content =
     JObj [(''to'', JStr recipient), (''channel'', JStr channel), (''content'', JStr content)]"

text \<open>The switch on the status code.\<close>

definition classify :: "int \<Rightarrow> int \<Rightarrow> delivery_result" where
  "classify code latency =
     (let result = \<lparr>dr_Success = False, dr_Retryable = False, dr_StatusCode = code,
            dr_LatencyMS = latency, dr_ProviderMsgID = '''', dr_ErrorMessage = ''''\<rparr>
      in if code = 202 then result\<lparr>dr_Success := True\<rparr>
         else if code = 400 \<or> code = 401 \<or> code = 403
         then result\<lparr>dr_ErrorMessage := ''non-retryable provider error: '' @ int_text code\<rparr>
         else result\<lparr>dr_Retryable := True,
                dr_ErrorMessage := ''retryable provider error: '' @ int_text code\<rparr>)"

text \<open>\<open>clock\<close> reads the monotonic clock; \<open>Since\<close> is \<open>Sub\<close> and \<open>Milliseconds\<close> divides with truncation.\<close>

definition Send ::
  "'w http_client \<Rightarrow> ('w \<Rightarrow> time \<times> 'w) \<Rightarrow> string \<Rightarrow> string \<Rightarrow> string \<Rightarrow> 'w \<Rightarrow> delivery_result \<times> 'w" where
  "Send c clock recipient channel content w =
     (let (start, w1) = clock w;
          (resp, w2) = Request c ''POST'' '''' (Some (delivery_body recipient channel content)) w1;
          (finish, w3) = clock w2;
          latency = time_sub finish start sdiv 1000000
      in case resp of
           Inl e \<Rightarrow> (\<lparr>dr_Success = False, dr_Retryable = True, dr_StatusCode = 0,
                      dr_LatencyMS = latency, dr_ProviderMsgID = '''', dr_ErrorMessage = err_text e\<rparr>, w3)
         | Inr code \<Rightarrow> (classify code latency, w3))"

section \<open>Metrics\<close>

record metrics =
  me_sent :: nat
  me_failed :: nat
  me_latency :: "int list"

definition RecordNotificationSent :: "int \<Rightarrow> metrics \<Rightarrow> metrics" where
  "RecordNotificationSent latency m =
     m\<lparr>me_sent := me_sent m + 1, me_latency := me_latency m @ [latency]\<rparr>"

definition RecordNotificationFailed :: "int \<Rightarrow> metrics \<Rightarrow> metrics" where
  "RecordNotificationFailed latency m =
     m\<lparr>me_failed := me_failed m + 1, me_latency := me_latency m @ [latency]\<rparr>"

section \<open>Properties\<close>

text \<open>
  C21: the delay before attempt \<open>n\<close> (the second or a later one) is 60s doubled for every attempt after
  the second, at most 480s, plus a jitter of at most a fifth of it, whatever number the random
  generator returned and with every floating-point rounding; from attempt 30 on this needs the
  machine to convert an overflowing double to a large duration.
\<close>

theorem retry_delay_bounds:
  assumes "2 \<le> attempt" "attempt < 2 ^ 63" "attempt < 30 \<or> retryMaxWait \<le> conv attempt"
    and "0 \<le> u" "u < 1"
  shows "min (60000000000 * 2 ^ nat (attempt - 2)) 480000000000 \<le> RetryDelay conv u attempt \<and>
    5 * RetryDelay conv u attempt \<le> 6 * min (60000000000 * 2 ^ nat (attempt - 2)) 480000000000"
proof -
  have p: "planned_delay attempt = min (60000000000 * 2 ^ nat (attempt - 2)) 480000000000"
    by (simp add: planned_delay_def retryBase_def retryMaxWait_def)
  have "5 * (planned_delay attempt div 5) = planned_delay attempt"
    using planned_delay_bounds [OF assms(1)] by simp
  with RetryDelay_bounds [of attempt conv u, OF assms] p show ?thesis by linarith
qed

theorem retry_delay_bounds_witness:
  "120000000000 \<le> RetryDelay (\<lambda>_. 0) (1 / 2) 3 \<and> RetryDelay (\<lambda>_. 0) (1 / 2) 3 \<le> 144000000000"
  using retry_delay_bounds [of 3 "\<lambda>_. 0" "1 / 2"] by simp

text \<open>
  From attempt 30 on the conversion overflows: on a machine that yields the smallest integer
  (amd64) the delay without jitter is about minus 292 years, so the message is redelivered at once.
\<close>

theorem retry_delay_overflows:
  assumes "30 \<le> attempt" "attempt < 2 ^ 63" "conv attempt = - (2 ^ 63)"
  shows "RetryDelay conv 0 attempt = - (2 ^ 63)"
proof -
  have "retry_base conv attempt = - (2 ^ 63)"
    using assms by (simp add: retry_base_def int64_def)
  moreover have "trunc (float64 (float64 0 * one_fifth)) = 0" by (simp add: float64_def trunc_def)
  ultimately show ?thesis by (simp add: RetryDelay_def retryMaxWait_def int64_def)
qed

theorem retry_delay_overflows_witness: "RetryDelay (\<lambda>_. - (2 ^ 63)) 0 40 = - (2 ^ 63)"
  using retry_delay_overflows [of 40 "\<lambda>_. - (2 ^ 63)"] by simp

text \<open>
  The lock is a lease. Once taken it is refused to everyone for ten seconds, as long as no one
  deletes its key, and from then on it is granted again although its first holder may still be at work.
\<close>

theorem lock_is_a_lease:
  assumes "TryLock i s = (Inr True, s1)" "rd_keys s2 (lock_key i) = rd_keys s1 (lock_key i)"
    and "tape_read (rd_faults s2) = None"
  shows "fst (TryLock i s2) = Inr (rd_now s + 10000000000 \<le> rd_now s2)"
proof -
  have "rd_keys s1 (lock_key i) = Some (rd_now s + lockTTL)"
    using assms(1) by (auto simp: TryLock_def redis_command_def set_nx_def Let_def
        split: option.splits prod.splits if_splits)
  with assms(2,3) show ?thesis
    by (simp add: TryLock_def redis_command_def set_nx_def live_def lockTTL_def Let_def split: prod.splits)
qed

definition sample_redis :: redis where
  "sample_redis = \<lparr>rd_keys = (\<lambda>_. None), rd_now = 0, rd_faults = Tape (\<lambda>_. None) 0\<rparr>"

theorem lock_is_a_lease_witness:
  "\<exists>s1. TryLock ''a'' sample_redis = (Inr True, s1) \<and>
     fst (TryLock ''a'' (s1\<lparr>rd_now := 9000000000\<rparr>)) = Inr False \<and>
     fst (TryLock ''a'' (s1\<lparr>rd_now := 10000000000\<rparr>)) = Inr True"
proof -
  obtain s1 where s1: "TryLock ''a'' sample_redis = (Inr True, s1)"
    by (simp add: lock_defs sample_redis_def)
  then have f: "tape_read (rd_faults (s1\<lparr>rd_now := t\<rparr>)) = None" for t
    by (auto simp: lock_defs sample_redis_def)
  have "rd_keys (s1\<lparr>rd_now := t\<rparr>) (lock_key ''a'') = rd_keys s1 (lock_key ''a'')" for t by simp
  from lock_is_a_lease [OF s1 this f] have "fst (TryLock ''a'' (s1\<lparr>rd_now := t\<rparr>)) = Inr (10000000000 \<le> t)" for t
    by (simp add: sample_redis_def)
  with s1 show ?thesis by simp
qed

text \<open>
  C22: the outcome of one delivery request. It succeeds exactly on status 202; it is final exactly on
  400, 401 and 403; every other status and every transport error is retryable; the request is one
  POST of the recipient, channel and content to the provider's URL.
\<close>

theorem send_classifies:
  assumes "\<And>w. clock w = (t w, w)" "hc_build c ''POST'' (hc_baseURL c) = None"
    and "hc_Do c \<lparr>hq_Method = ''POST'', hq_URL = hc_baseURL c,
           hq_Header = [(''Content-Type'', ''application/json'')],
           hq_Body = Some (delivery_body recipient channel content)\<rparr> w = (resp, w')"
  shows "\<exists>dr. Send c clock recipient channel content w = (dr, w') \<and>
    dr_LatencyMS dr = time_sub (t w') (t w) sdiv 1000000 \<and>
    (case resp of
       Inl e \<Rightarrow> \<not> dr_Success dr \<and> dr_Retryable dr \<and> dr_StatusCode dr = 0
         \<and> dr_ErrorMessage dr = ''POST '' @ hc_baseURL c @ '': '' @ err_text e
     | Inr code \<Rightarrow> dr_StatusCode dr = code \<and> dr_Success dr = (code = 202)
         \<and> dr_Retryable dr = (code \<notin> {202, 400, 401, 403})
         \<and> (dr_ErrorMessage dr = '''') = (code = 202))"
proof (cases resp)
  case (Inl e)
  with assms show ?thesis by (simp add: Send_def Request_def Let_def)
next
  case (Inr code)
  with assms show ?thesis by (simp add: Send_def Request_def Let_def classify_def)
qed

definition sample_client :: "int \<Rightarrow> nat http_client" where
  "sample_client code = \<lparr>hc_baseURL = ''http://p'', hc_build = (\<lambda>_ _. None),
     hc_Do = (\<lambda>_ w. (Inr code, w + 5))\<rparr>"

theorem send_classifies_witness:
  "dr_Success (fst (Send (sample_client 202) (\<lambda>w. (int w * 1000000, w)) ''r'' ''sms'' ''c'' 0)) \<and>
   dr_Retryable (fst (Send (sample_client 503) (\<lambda>w. (int w * 1000000, w)) ''r'' ''sms'' ''c'' 0))"
proof -
  let ?clock = "\<lambda>w. (int w * 1000000, w)"
  have "\<exists>dr. Send (sample_client code) ?clock ''r'' ''sms'' ''c'' 0 = (dr, 5) \<and>
      dr_Success dr = (code = 202) \<and> dr_Retryable dr = (code \<notin> {202, 400, 401, 403})" for code
    using send_classifies [of ?clock "\<lambda>w. int w * 1000000" "sample_client code" "''r''" "''sms''" "''c''" 0 "Inr code" 5]
    by (auto simp: sample_client_def)
  from this [of 202] this [of 503] show ?thesis by auto
qed

end
