(* ===== verification/Pipeline.thy ===== *)
theory Pipeline
  imports DeliveryServices Subscriber
begin

text \<open>
  processor/internal/delivery/pipeline.go and the consumer that drives it,
  processor/internal/transport/messaging/notification_ready_consumer.go. The pipeline's five
  injected services are a dictionary over a world; its lemmas are proved in the locale
  \<open>pipeline_env\<close> for any services that keep their promises, and the processor's own (Redis lock,
  rate limiter, delivery client, NATS publisher, metrics) interpret it.
\<close>

section \<open>The pipeline\<close>

record 'w pipeline =
  pl_pub :: "'w publisher"
  pl_Send :: "string \<Rightarrow> string \<Rightarrow> string \<Rightarrow> 'w \<Rightarrow> delivery_result \<times> 'w"
  pl_IsAllowed :: "string \<Rightarrow> 'w \<Rightarrow> (bool \<times> duration) result \<times> 'w"
  pl_locker :: "'w locker"
  pl_RecordSent :: "int \<Rightarrow> 'w \<Rightarrow> 'w"
  pl_RecordFailed :: "int \<Rightarrow> 'w \<Rightarrow> 'w"
  pl_Float64 :: "'w \<Rightarrow> rat \<times> 'w"
  pl_conv :: "int \<Rightarrow> duration"

definition maxAttemptsFor :: "ready_event \<Rightarrow> int" where
  "maxAttemptsFor evt = (if 0 < re_MaxAttempts evt then re_MaxAttempts evt else MaxAttempts)"

definition applyRateLimit :: "'w pipeline \<Rightarrow> ready_event \<Rightarrow> 'w \<Rightarrow> unit result \<times> 'w" where
  "applyRateLimit P evt w =
     (case pl_IsAllowed P (re_Channel evt) w of
        (Inl e, w1) \<Rightarrow> (Inl e, w1)
      | (Inr (allowed, retryAfter), w1) \<Rightarrow>
          (if allowed then (Inr (), w1)
           else (Inl (RetryAfter (if retryAfter \<le> 0 then 1000000000 else retryAfter)), w1)))"

definition publishStatus :: "'w pipeline \<Rightarrow> trace \<Rightarrow> result_event \<Rightarrow> 'w \<Rightarrow> unit result \<times> 'w" where
  "publishStatus P ctx evt w =
     (case pub_Publish (pl_pub P) ctx TopicStatus (result_to_json evt) w of
        (Inl e, w1) \<Rightarrow> (Inl e, w1)
      | (Inr _, w1) \<Rightarrow> (Inr (), w1))"

definition delivered_event :: "ready_event \<Rightarrow> delivery_result \<Rightarrow> int \<Rightarrow> result_event" where
  "delivered_event evt dr currentAttempt = zero_result\<lparr>
     rs_NotificationID := re_NotificationID evt, rs_Status := StatusDelivered,
     rs_AttemptNumber := currentAttempt, rs_HTTPStatusCode := dr_StatusCode dr,
     rs_ProviderMessageID := dr_ProviderMsgID dr, rs_LatencyMS := dr_LatencyMS dr\<rparr>"

definition failed_event :: "ready_event \<Rightarrow> delivery_result \<Rightarrow> int \<Rightarrow> result_event" where
  "failed_event evt dr currentAttempt = zero_result\<lparr>
     rs_NotificationID := re_NotificationID evt, rs_Status := StatusFailed,
     rs_AttemptNumber := currentAttempt, rs_HTTPStatusCode := dr_StatusCode dr,
     rs_ErrorMessage := dr_ErrorMessage dr, rs_LatencyMS := dr_LatencyMS dr\<rparr>"

definition handleDeliveryResult ::
  "'w pipeline \<Rightarrow> trace \<Rightarrow> ready_event \<Rightarrow> delivery_result \<Rightarrow> int \<Rightarrow> 'w \<Rightarrow> unit result \<times> 'w" where
  "handleDeliveryResult P ctx evt dr attemptNumber w =
     (let currentAttempt = attemptNumber; maxAttempts = maxAttemptsFor evt
      in if dr_Success dr
         then (let w1 = pl_RecordSent P (dr_LatencyMS dr) w
               in publishStatus P ctx (delivered_event evt dr currentAttempt) w1)
         else if dr_Retryable dr \<and> currentAttempt < maxAttempts
         then (let (u, w1) = pl_Float64 P w;
                   delay = RetryDelay (pl_conv P) u (wrap64 (currentAttempt + 1))
               in (Inl (RetryAfter delay), w1))
         else (let w1 = pl_RecordFailed P (dr_LatencyMS dr) w
               in publishStatus P ctx (failed_event evt dr currentAttempt) w1))"

text \<open>What runs between taking the lock and the deferred release.\<close>

definition run_locked :: "'w pipeline \<Rightarrow> trace \<Rightarrow> ready_event \<Rightarrow> int \<Rightarrow> 'w \<Rightarrow> unit result \<times> 'w" where
  "run_locked P ctx evt attemptNumber w =
     (case applyRateLimit P evt w of
        (Inl e, w1) \<Rightarrow> (Inl e, w1)
      | (Inr _, w1) \<Rightarrow>
          (case pl_Send P (re_Recipient evt) (re_Channel evt) (re_Content evt) w1 of
             (dr, w2) \<Rightarrow> handleDeliveryResult P ctx evt dr attemptNumber w2))"

definition Run :: "'w pipeline \<Rightarrow> trace \<Rightarrow> ready_event \<Rightarrow> int \<Rightarrow> 'w \<Rightarrow> unit result \<times> 'w" where
  "Run P ctx evt attemptNumber w =
     (case lk_TryLock (pl_locker P) (re_NotificationID evt) w of
        (Inl e, w1) \<Rightarrow> (Inl e, w1)
      | (Inr lockAcquired, w1) \<Rightarrow>
          (if \<not> lockAcquired then (Inr (), w1)
           else (case run_locked P ctx evt attemptNumber w1 of
                   (r, w2) \<Rightarrow> (r, snd (lk_Unlock (pl_locker P) (re_NotificationID evt) w2)))))"

section \<open>The consumer\<close>

text \<open>The answer \<open>processOne\<close> gives for a message.\<close>

definition run_answer :: "unit result \<Rightarrow> ack" where
  "run_answer err =
     (case err of
        Inl e \<Rightarrow> (case errors_as as_retry_after e of Some d \<Rightarrow> NakWithDelay d | None \<Rightarrow> Nak)
      | Inr _ \<Rightarrow> Ack)"

definition processOne :: "'w pipeline \<Rightarrow> ready_event delivered \<Rightarrow> 'w \<Rightarrow> ack \<times> 'w" where
  "processOne P msg w =
     (case Run P (rm_Ctx msg) (rm_Event msg) (rm_AttemptNumber msg) w of
        (err, w1) \<Rightarrow> (run_answer err, w1))"

section \<open>What the pipeline relies on\<close>

locale pipeline_env =
  publisher_port "pub_Publish (pl_pub P)" sent
  + locker_port "lk_TryLock (pl_locker P)" "lk_Unlock (pl_locker P)" held
  for P :: "'w pipeline"
    and sent :: "'w \<Rightarrow> nats_msg list"
    and held :: "'w \<Rightarrow> string \<Rightarrow> bool"
    and posted :: "'w \<Rightarrow> (string \<times> string \<times> string) list" +
  assumes send_posts: "pl_Send P r c m w = (dr, w') \<Longrightarrow>
        sent w' = sent w \<and> held w' = held w \<and> (posted w' = posted w @ [(r, c, m)] \<or>
          posted w' = posted w \<and> \<not> dr_Success dr \<and> dr_Retryable dr)"
    and publish_frame: "pub_Publish (pl_pub P) x t j w = (q, w') \<Longrightarrow> held w' = held w \<and> posted w' = posted w"
    and lock_frame: "lk_TryLock (pl_locker P) i w = (b, w') \<Longrightarrow> sent w' = sent w \<and> posted w' = posted w"
    and unlock_frame: "lk_Unlock (pl_locker P) i w = (q, w') \<Longrightarrow> sent w' = sent w \<and> posted w' = posted w"
    and limit_frame: "pl_IsAllowed P c w = (a, w') \<Longrightarrow>
        sent w' = sent w \<and> held w' = held w \<and> posted w' = posted w"
    and metric_frame: "sent (pl_RecordSent P n w) = sent w" "held (pl_RecordSent P n w) = held w"
        "posted (pl_RecordSent P n w) = posted w" "sent (pl_RecordFailed P n w) = sent w"
        "held (pl_RecordFailed P n w) = held w" "posted (pl_RecordFailed P n w) = posted w"
    and random_frame: "pl_Float64 P w = (u, w') \<Longrightarrow>
        sent w' = sent w \<and> held w' = held w \<and> posted w' = posted w"

text \<open>What one run did: nothing for the provider, or one request and what followed from its result.\<close>

datatype run_outcome =
    NotTried "unit result"
  | Tried delivery_result "unit result"

text \<open>The event a result calls for, if any.\<close>

definition status_event :: "ready_event \<Rightarrow> delivery_result \<Rightarrow> int \<Rightarrow> result_event option" where
  "status_event evt dr n =
     (if dr_Success dr then Some (delivered_event evt dr n)
      else if dr_Retryable dr \<and> n < maxAttemptsFor evt then None
      else Some (failed_event evt dr n))"

definition status_message :: "trace \<Rightarrow> result_event \<Rightarrow> nats_msg" where
  "status_message ctx e = nats_message TopicStatus ctx (result_to_json e)"

text \<open>The message is appended, or with an error perhaps not.\<close>

definition published :: "nats_msg \<Rightarrow> unit result \<Rightarrow> nats_msg list \<Rightarrow> nats_msg list \<Rightarrow> bool" where
  "published m x before after \<longleftrightarrow> after = before @ [m] \<or> \<not> is_ok x \<and> after = before"

context pipeline_env
begin

lemma limit_cases:
  assumes "applyRateLimit P evt w = (x, w')"
  obtains (passed) d where "x = Inr ()" "pl_IsAllowed P (re_Channel evt) w = (Inr (True, d), w')"
      "sent w' = sent w" "held w' = held w" "posted w' = posted w"
    | (limited) d where "x = Inl (RetryAfter d)" "0 < d" "sent w' = sent w" "held w' = held w" "posted w' = posted w"
    | (failed) e where "x = Inl e" "pl_IsAllowed P (re_Channel evt) w = (Inl e, w')"
      "sent w' = sent w" "held w' = held w" "posted w' = posted w"
proof -
  obtain y w1 where y: "pl_IsAllowed P (re_Channel evt) w = (y, w1)" by fastforce
  note f = limit_frame [OF y]
  show ?thesis
  proof (cases y)
    case (Inl e)
    with assms y f show ?thesis by (intro failed) (auto simp: applyRateLimit_def)
  next
    case (Inr p)
    then obtain a d where p: "y = Inr (a, d)" by (cases p) auto
    show ?thesis
    proof (cases a)
      case True
      with assms y f p show ?thesis by (intro passed) (auto simp: applyRateLimit_def)
    next
      case False
      with assms y f p show ?thesis
        by (intro limited [of "if d \<le> 0 then 1000000000 else d"]) (auto simp: applyRateLimit_def)
    qed
  qed
qed

lemma status_cases:
  assumes "publishStatus P ctx e w = (x, w')"
  shows "held w' = held w \<and> posted w' = posted w \<and>
    published (status_message ctx e) x (sent w) (sent w')"
proof -
  obtain y w1 where y: "pub_Publish (pl_pub P) ctx TopicStatus (result_to_json e) w = (y, w1)" by fastforce
  note f = publish_frame [OF y]
  show ?thesis
  proof (cases y)
    case (Inl er)
    note publish_err [OF y [unfolded Inl]]
    with assms y f Inl show ?thesis by (auto simp: publishStatus_def status_message_def published_def)
  next
    case (Inr u)
    note publish_ok [OF y [unfolded Inr]]
    with assms y f Inr show ?thesis by (auto simp: publishStatus_def status_message_def published_def)
  qed
qed

lemma handle_cases:
  assumes "handleDeliveryResult P ctx evt dr n w = (x, w')"
  shows "held w' = held w \<and> posted w' = posted w \<and>
    (case status_event evt dr n of
       None \<Rightarrow> sent w' = sent w
         \<and> (\<exists>u. u = fst (pl_Float64 P w) \<and> x = Inl (RetryAfter (RetryDelay (pl_conv P) u (wrap64 (n + 1)))))
     | Some e \<Rightarrow> published (status_message ctx e) x (sent w) (sent w'))"
proof (cases "\<not> dr_Success dr \<and> dr_Retryable dr \<and> n < maxAttemptsFor evt")
  case True
  obtain u w1 where u: "pl_Float64 P w = (u, w1)" by fastforce
  from random_frame [OF u] u True assms show ?thesis
    by (auto simp: handleDeliveryResult_def status_event_def Let_def)
next
  case False
  define e where "e = (if dr_Success dr then delivered_event evt dr n else failed_event evt dr n)"
  define w1 where "w1 = (if dr_Success dr then pl_RecordSent P (dr_LatencyMS dr) w
    else pl_RecordFailed P (dr_LatencyMS dr) w)"
  from False assms have p: "publishStatus P ctx e w1 = (x, w')"
    by (auto simp: handleDeliveryResult_def Let_def e_def w1_def split: if_splits)
  have "status_event evt dr n = Some e" using False by (auto simp: status_event_def e_def)
  moreover have "sent w1 = sent w" "held w1 = held w" "posted w1 = posted w"
    by (simp_all add: w1_def metric_frame)
  ultimately show ?thesis using status_cases [OF p] by simp
qed

text \<open>All that can happen in a run.\<close>

lemma run_cases:
  assumes "Run P ctx evt n w = (x, w')"
  obtains (lock_error) e where "x = Inl e" "lk_TryLock (pl_locker P) (re_NotificationID evt) w = (Inl e, w')"
      "sent w' = sent w" "posted w' = posted w"
    | (lock_miss) "x = Inr ()" "held w (re_NotificationID evt)" "held w' = held w"
      "sent w' = sent w" "posted w' = posted w"
    | (limited) d where "x = Inl (RetryAfter d)" "0 < d" "\<not> held w (re_NotificationID evt)"
      "sent w' = sent w" "posted w' = posted w"
    | (limit_error) e v v' where "x = Inl e" "pl_IsAllowed P (re_Channel evt) v = (Inl e, v')"
      "\<not> held w (re_NotificationID evt)" "sent w' = sent w" "posted w' = posted w"
    | (tried) dr v where "\<not> held w (re_NotificationID evt)"
      "posted w' = posted w @ [(re_Recipient evt, re_Channel evt, re_Content evt)] \<or>
         posted w' = posted w \<and> \<not> dr_Success dr \<and> dr_Retryable dr"
      "case status_event evt dr n of
         None \<Rightarrow> sent w' = sent w
           \<and> x = Inl (RetryAfter (RetryDelay (pl_conv P) (fst (pl_Float64 P v)) (wrap64 (n + 1))))
       | Some e \<Rightarrow> published (status_message ctx e) x (sent w) (sent w')"
proof -
  let ?i = "re_NotificationID evt"
  obtain b w1 where b: "lk_TryLock (pl_locker P) ?i w = (b, w1)" by fastforce
  note lf = lock_frame [OF b]
  show ?thesis
  proof (cases b)
    case (Inl e)
    with assms b lf show ?thesis by (intro lock_error) (auto simp: Run_def)
  next
    case (Inr acquired)
    show ?thesis
    proof (cases acquired)
      case False
      then have "held w ?i \<and> held w1 = held w" using lock_missed [of ?i w w1] b Inr by simp
      with False Inr assms b lf show ?thesis by (intro lock_miss) (auto simp: Run_def)
    next
      case True
      then have free: "\<not> held w ?i" using lock_taken [of ?i w w1] b Inr by simp
      obtain y w2 where y: "applyRateLimit P evt w1 = (y, w2)" by fastforce
      obtain q w3 where q: "run_locked P ctx evt n w1 = (q, w3)" by fastforce
      obtain z w4 where z: "lk_Unlock (pl_locker P) ?i w3 = (z, w4)" by fastforce
      have x: "x = q" "w' = w4" using assms b Inr True q z by (auto simp: Run_def)
      note uf = unlock_frame [OF z]
      from y show ?thesis
      proof (cases rule: limit_cases)
        case (limited d)
        with q y have "q = Inl (RetryAfter d)" "w3 = w2" by (simp_all add: run_locked_def)
        with limited x uf lf free that(3) show ?thesis by simp
      next
        case (failed e)
        with q y have "q = Inl e" "w3 = w2" by (simp_all add: run_locked_def)
        with failed x uf lf free that(4) show ?thesis by simp
      next
        case (passed d)
        obtain dr v where d: "pl_Send P (re_Recipient evt) (re_Channel evt) (re_Content evt) w2 = (dr, v)"
          by fastforce
        note sf = send_posts [OF d]
        from q y passed d have h: "handleDeliveryResult P ctx evt dr n v = (q, w3)"
          by (simp add: run_locked_def)
        note hc = handle_cases [OF h]
        have eqs: "sent v = sent w" "sent w' = sent w3" "x = q" "posted w' = posted v" "posted w2 = posted w"
          using hc sf passed x uf lf by simp_all
        show ?thesis
        proof (rule that(5) [OF free, of dr v])
          show "posted w' = posted w @ [(re_Recipient evt, re_Channel evt, re_Content evt)] \<or>
              posted w' = posted w \<and> \<not> dr_Success dr \<and> dr_Retryable dr"
            using sf eqs by simp
          show "case status_event evt dr n of
              None \<Rightarrow> sent w' = sent w
                \<and> x = Inl (RetryAfter (RetryDelay (pl_conv P) (fst (pl_Float64 P v)) (wrap64 (n + 1))))
            | Some e \<Rightarrow> published (status_message ctx e) x (sent w) (sent w')"
            using hc eqs by (cases "status_event evt dr n") simp_all
        qed
      qed
    qed
  qed
qed

text \<open>A run that took the lock has released it, unless the release itself failed.\<close>

lemma run_unlocks:
  assumes "Run P ctx evt n w = (x, w')" "\<not> held w (re_NotificationID evt)"
    and "\<And>v. is_ok (fst (lk_Unlock (pl_locker P) (re_NotificationID evt) v))"
    and "is_ok (fst (lk_TryLock (pl_locker P) (re_NotificationID evt) w))"
  shows "\<not> held w' (re_NotificationID evt)"
proof -
  let ?i = "re_NotificationID evt"
  obtain b w1 where b: "lk_TryLock (pl_locker P) ?i w = (b, w1)" by fastforce
  with assms(4) obtain a where a: "b = Inr a" by (cases b) auto
  from a b assms(2) lock_missed have "a" by (cases a) auto
  obtain q w3 where q: "run_locked P ctx evt n w1 = (q, w3)" by fastforce
  obtain z w4 where z: "lk_Unlock (pl_locker P) ?i w3 = (z, w4)" by fastforce
  with assms(3) [of w3] obtain u where u: "z = Inr u" by (cases z) auto
  have "w' = w4" using assms(1) b a \<open>a\<close> q z by (auto simp: Run_def)
  with unlocked z u show ?thesis by blast
qed

end

end
