(* ===== verification/Router.thy ===== *)
theory Router
  imports Prelude
begin

text \<open>
  processor/internal/delivery/priorityrouter.go: weighted round-robin over an ordered list of
  channels. The cursor is the 64-bit atomic counter of the source; the order of the concurrent
  workers' calls is the order of the steps of the router.
\<close>

section \<open>Channels\<close>

text \<open>
  A channel as its receiver sees it: the values a receive would return now, in order, and
  whether the channel is closed.
\<close>

record 'a chan =
  ch_ready :: "'a list"
  ch_closed :: bool

datatype 'a received = Received 'a | NotOk | NotReady

fun try_recv :: "'a chan \<Rightarrow> 'a received \<times> 'a chan" where
  "try_recv c =
     (case ch_ready c of
        v # vs \<Rightarrow> (Received v, c\<lparr>ch_ready := vs\<rparr>)
      | [] \<Rightarrow> (if ch_closed c then NotOk else NotReady, c))"

declare try_recv.simps [simp del]

lemma try_recv_simps [simp]:
  "ch_ready c = v # vs \<Longrightarrow> try_recv c = (Received v, c\<lparr>ch_ready := vs\<rparr>)"
  "ch_ready c = [] \<Longrightarrow> try_recv c = (if ch_closed c then NotOk else NotReady, c)"
  by (simp_all add: try_recv.simps)

section \<open>The router\<close>

record 'a weighted_source =
  ws_Ch :: "'a chan"
  ws_Weight :: int

record 'a router =
  ro_sources :: "'a chan list"
  ro_slots :: "nat list"
  ro_cursor :: "64 word"

text \<open>\<open>make\<close> panics on a negative capacity; None is a panic.\<close>

definition slot_list :: "int list \<Rightarrow> nat list" where
  "slot_list ws = concat (map (\<lambda>(i, w). replicate (nat w) i) (enumerate 0 ws))"

definition NewPriorityRouter :: "'a weighted_source list \<Rightarrow> 'a router option" where
  "NewPriorityRouter sources =
     (if sources = [] then None
      else if \<exists>s \<in> set sources. ws_Weight s < 1 then None
      else (let totalSlots = foldl (\<lambda>n s. wrap64 (n + ws_Weight s)) 0 sources
            in if totalSlots < 0 then None
               else Some \<lparr>ro_sources = map ws_Ch sources, ro_slots = slot_list (map ws_Weight sources),
                          ro_cursor = 0\<rparr>))"

text \<open>What ends the blocking select of step 3.\<close>

datatype 'a wake = WakeValue 'a | WakeClosed | WakeDone | WakeTimeout

datatype 'a next_result = Panicked | Value 'a | NoValue

text \<open>Step 2: the first source, in priority order, with a value.\<close>

fun scan :: "'a chan list \<Rightarrow> ('a \<times> 'a chan list) option" where
  "scan [] = None"
| "scan (c # cs) =
     (case try_recv c of
        (Received v, c') \<Rightarrow> Some (v, c' # cs)
      | (_, _) \<Rightarrow> (case scan cs of None \<Rightarrow> None | Some (v, cs') \<Rightarrow> Some (v, c # cs')))"

text \<open>The slot of the incremented cursor; the remainder has the sign of the dividend.\<close>

definition slot_number :: "'a router \<Rightarrow> int" where
  "slot_number r = sint (ro_cursor r + 1) smod int (length (ro_slots r))"

definition Next :: "'a router \<Rightarrow> 'a wake \<Rightarrow> 'a next_result \<times> 'a router" where
  "Next r wake =
     (let r1 = r\<lparr>ro_cursor := ro_cursor r + 1\<rparr>; k = slot_number r
      in if ro_slots r = [] \<or> k < 0 then (Panicked, r1)
         else
           (let active = ro_slots r ! nat k
            in if length (ro_sources r) \<le> active then (Panicked, r1)
               else (case try_recv (ro_sources r ! active) of
                       (Received v, c) \<Rightarrow> (Value v, r1\<lparr>ro_sources := (ro_sources r)[active := c]\<rparr>)
                     | _ \<Rightarrow>
                         (case scan (ro_sources r) of
                            Some (v, cs) \<Rightarrow> (Value v, r1\<lparr>ro_sources := cs\<rparr>)
                          | None \<Rightarrow>
                              (case wake of
                                 WakeValue v \<Rightarrow> (Value v, r1)
                               | WakeClosed \<Rightarrow> (NoValue, r1)
                               | WakeDone \<Rightarrow> (NoValue, r1)
                               | WakeTimeout \<Rightarrow> (NoValue, r1))))))"

text \<open>Several calls, the results in order.\<close>

fun next_calls :: "'a router \<Rightarrow> 'a wake list \<Rightarrow> 'a next_result list \<times> 'a router" where
  "next_calls r [] = ([], r)"
| "next_calls r (w # ws) =
     (let (x, r1) = Next r w; (xs, r2) = next_calls r1 ws in (x # xs, r2))"

section \<open>Invariant\<close>

text \<open>Every slot names a source, there is a slot, and the cursor has not wrapped.\<close>

definition router_ok :: "'a router \<Rightarrow> bool" where
  "router_ok r \<longleftrightarrow> ro_slots r \<noteq> [] \<and> (\<forall>i \<in> set (ro_slots r). i < length (ro_sources r))
     \<and> 0 \<le> sint (ro_cursor r)"

lemma enumerate_Suc_map:
  "enumerate (Suc n) xs = map (\<lambda>(i, x). (Suc i, x)) (enumerate n xs)"
  by (induction xs arbitrary: n) simp_all

lemma count_slot_list: "count_list (slot_list ws) i = (if i < length ws then nat (ws ! i) else 0)"
proof -
  have rep: "count_list (replicate k x) i = (if x = i then k else 0)" for k and x :: nat
    by (induction k) auto
  have gen: "count_list (concat (map (\<lambda>(i, w). replicate (nat w) i) (enumerate n ws))) i
      = (if n \<le> i \<and> i < n + length ws then nat (ws ! (i - n)) else 0)" for n
  proof (induction ws arbitrary: n)
    case (Cons w ws)
    show ?case using Cons.IH [of "Suc n"] by (auto simp: rep nth_Cons' Suc_diff_le)
  qed simp
  show ?thesis using gen [of 0] by (simp add: slot_list_def)
qed

lemma slot_list_set: "i \<in> set (slot_list ws) \<longleftrightarrow> i < length ws \<and> 0 < ws ! i"
  using count_list_0_iff [of "slot_list ws" i] by (auto simp: count_slot_list split: if_splits)

lemma NewPriorityRouter_ok:
  assumes "NewPriorityRouter sources = Some r"
  shows "router_ok r" "ro_sources r = map ws_Ch sources"
    "ro_slots r = slot_list (map ws_Weight sources)" "sint (ro_cursor r) = 0"
proof -
  from assms have ne: "sources \<noteq> []" and w: "\<forall>s \<in> set sources. 1 \<le> ws_Weight s"
    and r: "r = \<lparr>ro_sources = map ws_Ch sources, ro_slots = slot_list (map ws_Weight sources), ro_cursor = 0\<rparr>"
    by (auto simp: NewPriorityRouter_def Let_def split: if_splits)
  from ne w have "0 \<in> set (slot_list (map ws_Weight sources))"
    by (cases sources) (auto simp: slot_list_set)
  then have "slot_list (map ws_Weight sources) \<noteq> []" by auto
  with r show "router_ok r" by (auto simp: router_ok_def slot_list_set)
qed (use assms in \<open>auto simp: NewPriorityRouter_def Let_def split: if_splits\<close>)

lemma cursor_step:
  assumes "0 \<le> sint c" "sint c < 2 ^ 63 - 1"
  shows "sint (c + 1 :: 64 word) = sint c + 1"
proof -
  have "sint (c + 1) = signed_take_bit 63 (sint c + sint (1 :: 64 word))"
    by (simp add: signed_take_bit_add flip: sint_word_ariths(1)) (simp add: sint_word_ariths)
  also have "\<dots> = sint c + 1" using assms by (simp add: signed_take_bit_int_eq_self)
  finally show ?thesis .
qed

section \<open>One call\<close>

lemma slot_number_eq:
  assumes "router_ok r" "sint (ro_cursor r) < 2 ^ 63 - 1"
  shows "slot_number r = (sint (ro_cursor r) + 1) mod int (length (ro_slots r))"
proof -
  have "0 \<le> sint (ro_cursor r)" using assms by (simp add: router_ok_def)
  with cursor_step assms show ?thesis
    by (simp add: slot_number_def signed_modulo_int_def sgn_if)
qed

text \<open>The source the call is scheduled on.\<close>

definition active :: "'a router \<Rightarrow> nat" where
  "active r = ro_slots r ! nat (slot_number r)"

lemma active_source:
  assumes "router_ok r" "sint (ro_cursor r) < 2 ^ 63 - 1"
  shows "0 \<le> slot_number r" "active r < length (ro_sources r)"
proof -
  have pos: "0 < length (ro_slots r)" using assms(1) by (simp add: router_ok_def)
  then show "0 \<le> slot_number r" by (simp add: slot_number_eq [OF assms])
  have "nat (slot_number r) < length (ro_slots r)"
    using pos by (simp add: slot_number_eq [OF assms] nat_less_iff)
  then show "active r < length (ro_sources r)"
    using assms(1) by (simp add: active_def router_ok_def)
qed

lemma scan_None: "scan cs = None \<longleftrightarrow> (\<forall>c \<in> set cs. ch_ready c = [])"
proof (induction cs)
  case (Cons c cs)
  then show ?case by (cases "ch_ready c") (auto split: option.splits)
qed simp

lemma scan_Some:
  "scan cs = Some (v, cs') \<Longrightarrow>
     \<exists>i vs. i < length cs \<and> ch_ready (cs ! i) = v # vs \<and> cs' = cs[i := (cs ! i)\<lparr>ch_ready := vs\<rparr>]
       \<and> (\<forall>j < i. ch_ready (cs ! j) = [])"
proof (induction cs arbitrary: cs')
  case (Cons c cs)
  show ?case
  proof (cases "ch_ready c")
    case Nil
    with Cons.prems obtain cs'' where r: "scan cs = Some (v, cs'')" "cs' = c # cs''"
      by (auto split: option.splits if_splits)
    from Cons.IH [OF r(1)] obtain i vs where i: "i < length cs" "ch_ready (cs ! i) = v # vs"
      "cs'' = cs[i := (cs ! i)\<lparr>ch_ready := vs\<rparr>]" "\<forall>j < i. ch_ready (cs ! j) = []" by blast
    have "\<forall>j < Suc i. ch_ready ((c # cs) ! j) = []" using i(4) Nil by (auto simp: less_Suc_eq_0_disj)
    with i r show ?thesis by (intro exI [of _ "Suc i"] exI [of _ vs]) simp
  next
    case (Cons w ws)
    with Cons.prems show ?thesis by (intro exI [of _ 0] exI [of _ ws]) simp
  qed
qed simp

text \<open>Every branch of \<open>Next\<close> while the cursor has not reached its maximum.\<close>

lemma Next_cases:
  assumes ok: "router_ok r" and cur: "sint (ro_cursor r) < 2 ^ 63 - 1" and n: "Next r wake = (x, r')"
  obtains (scheduled) v vs where "x = Value v" "ch_ready (ro_sources r ! active r) = v # vs"
      "r' = r\<lparr>ro_cursor := ro_cursor r + 1,
              ro_sources := (ro_sources r)[active r := (ro_sources r ! active r)\<lparr>ch_ready := vs\<rparr>]\<rparr>"
    | (fallback) i v vs where "x = Value v" "ch_ready (ro_sources r ! active r) = []"
      "i < length (ro_sources r)" "ch_ready (ro_sources r ! i) = v # vs"
      "\<forall>j < i. ch_ready (ro_sources r ! j) = []"
      "r' = r\<lparr>ro_cursor := ro_cursor r + 1,
              ro_sources := (ro_sources r)[i := (ro_sources r ! i)\<lparr>ch_ready := vs\<rparr>]\<rparr>"
    | (idle) "\<forall>c \<in> set (ro_sources r). ch_ready c = []" "r' = r\<lparr>ro_cursor := ro_cursor r + 1\<rparr>"
      "x = (case wake of WakeValue v \<Rightarrow> Value v | _ \<Rightarrow> NoValue)"
proof -
  note a = active_source [OF ok cur]
  have ne: "ro_slots r \<noteq> []" using ok by (simp add: router_ok_def)
  show ?thesis
  proof (cases "ch_ready (ro_sources r ! active r)")
    case (Cons v vs)
    with n a ne show ?thesis by (intro scheduled) (auto simp: Next_def Let_def active_def)
  next
    case Nil
    show ?thesis
    proof (cases "scan (ro_sources r)")
      case None
      have "\<forall>c \<in> set (ro_sources r). ch_ready c = []" using None by (simp add: scan_None)
      with n a ne Nil None show ?thesis
        by (intro idle) (auto simp: Next_def Let_def active_def split: wake.splits if_splits)
    next
      case (Some p)
      then obtain v cs where p: "scan (ro_sources r) = Some (v, cs)" by (cases p) auto
      from scan_Some [OF p] obtain i vs where i: "i < length (ro_sources r)"
        "ch_ready (ro_sources r ! i) = v # vs"
        "cs = (ro_sources r)[i := (ro_sources r ! i)\<lparr>ch_ready := vs\<rparr>]"
        "\<forall>j < i. ch_ready (ro_sources r ! j) = []" by blast
      with n a ne Nil p show ?thesis
        by (intro fallback [of v i vs]) (auto simp: Next_def Let_def active_def split: if_splits)
    qed
  qed
qed

lemma Next_keeps:
  assumes "router_ok r" "sint (ro_cursor r) < 2 ^ 63 - 1"
  shows "router_ok (snd (Next r wake))" "ro_slots (snd (Next r wake)) = ro_slots r"
    "sint (ro_cursor (snd (Next r wake))) = sint (ro_cursor r) + 1"
    "length (ro_sources (snd (Next r wake))) = length (ro_sources r)"
proof -
  obtain x r' where n: "Next r wake = (x, r')" by fastforce
  have step: "sint (ro_cursor r + 1) = sint (ro_cursor r) + 1"
    using assms by (intro cursor_step) (simp_all add: router_ok_def)
  from assms n have "router_ok r' \<and> ro_slots r' = ro_slots r
      \<and> sint (ro_cursor r') = sint (ro_cursor r) + 1 \<and> length (ro_sources r') = length (ro_sources r)"
    by (cases rule: Next_cases) (use assms step in \<open>simp_all add: router_ok_def\<close>)
  with n show "router_ok (snd (Next r wake))" "ro_slots (snd (Next r wake)) = ro_slots r"
    "sint (ro_cursor (snd (Next r wake))) = sint (ro_cursor r) + 1"
    "length (ro_sources (snd (Next r wake))) = length (ro_sources r)" by simp_all
qed

section \<open>Rotations\<close>

text \<open>The sources the next \<open>k\<close> calls are scheduled on.\<close>

definition schedule :: "'a router \<Rightarrow> nat \<Rightarrow> nat list" where
  "schedule r k = map (\<lambda>j. ro_slots r ! nat ((sint (ro_cursor r) + 1 + int j) mod int (length (ro_slots r)))) [0..<k]"

lemma schedule_Suc:
  assumes "router_ok r" "sint (ro_cursor r) < 2 ^ 63 - 1"
  shows "schedule r (Suc k) = active r # schedule (snd (Next r wake)) k"
proof -
  have "[0..<Suc k] = 0 # map Suc [0..<k]" by (simp add: map_Suc_upt upt_conv_Cons del: upt_Suc)
  then show ?thesis
    by (simp add: schedule_def active_def slot_number_eq [OF assms] Next_keeps [OF assms] comp_def
        add.commute add.left_commute del: upt_Suc)
qed

text \<open>One full turn of the schedule visits every slot once, wherever the cursor stands.\<close>

lemma schedule_turn:
  assumes "router_ok r"
  shows "count_list (schedule r (length (ro_slots r))) i = count_list (ro_slots r) i"
proof -
  let ?s = "ro_slots r" and ?m = "nat (sint (ro_cursor r) + 1)"
  have c: "0 \<le> sint (ro_cursor r)" "?s \<noteq> []" using assms by (simp_all add: router_ok_def)
  have "schedule r (length ?s) = rotate ?m ?s"
  proof (rule nth_equalityI)
    fix j
    assume "j < length (schedule r (length ?s))"
    then have j: "j < length ?s" by (simp add: schedule_def)
    have "nat ((sint (ro_cursor r) + 1 + int j) mod int (length ?s)) = (?m + j) mod length ?s"
      using c by (simp add: nat_mod_distrib nat_add_distrib)
    with j show "schedule r (length ?s) ! j = rotate ?m ?s ! j" by (simp add: schedule_def nth_rotate)
  qed (simp add: schedule_def)
  moreover have "mset (rotate ?m ?s) = mset ?s"
    unfolding rotate_drop_take mset_append by (subst union_commute) (simp flip: mset_append)
  ultimately show ?thesis by (metis count_mset)
qed

text \<open>While the scheduled sources have enough values, every call returns one from its scheduled source.\<close>

lemma saturated_calls:
  assumes "router_ok r" "sint (ro_cursor r) + int (length ws) < 2 ^ 63"
    and "\<forall>i < length (ro_sources r). count_list (schedule r (length ws)) i \<le> length (ch_ready (ro_sources r ! i))"
    and "next_calls r ws = (xs, r')"
  shows "length xs = length ws \<and> (\<forall>x \<in> set xs. \<exists>v. x = Value v) \<and>
    (\<forall>i < length (ro_sources r). ch_ready (ro_sources r' ! i) =
       drop (count_list (schedule r (length ws)) i) (ch_ready (ro_sources r ! i)))"
  using assms
proof (induction ws arbitrary: r xs)
  case (Cons w ws)
  have cur: "sint (ro_cursor r) < 2 ^ 63 - 1" using Cons.prems(2) by simp
  note ok = Cons.prems(1)
  note a = active_source [OF ok cur] and keeps = Next_keeps [OF ok cur, of w]
  obtain x r1 where n: "Next r w = (x, r1)" by fastforce
  obtain xs' where rec: "next_calls r1 ws = (xs', r')" "xs = x # xs'"
    using Cons.prems(4) n by (auto split: prod.splits)
  have sched: "schedule r (Suc (length ws)) = active r # schedule r1 (length ws)"
    using schedule_Suc [OF ok cur, of "length ws" w] n by simp
  from Cons.prems(3) a(2) sched have "ch_ready (ro_sources r ! active r) \<noteq> []" by fastforce
  with n obtain v vs where x: "x = Value v" "ch_ready (ro_sources r ! active r) = v # vs"
    "ro_sources r1 = (ro_sources r)[active r := (ro_sources r ! active r)\<lparr>ch_ready := vs\<rparr>]"
    by (cases rule: Next_cases [OF ok cur n]) (use a in auto)
  have ready: "ch_ready (ro_sources r1 ! i) =
      (if i = active r then tl (ch_ready (ro_sources r ! i)) else ch_ready (ro_sources r ! i))"
    if "i < length (ro_sources r)" for i
    using that x by (simp add: nth_list_update)
  have enough: "\<forall>i < length (ro_sources r1).
      count_list (schedule r1 (length ws)) i \<le> length (ch_ready (ro_sources r1 ! i))"
    using Cons.prems(3) keeps(4) n x(2) by (auto simp: sched ready split: if_splits)
  have "length xs' = length ws \<and> (\<forall>x \<in> set xs'. \<exists>v. x = Value v) \<and>
    (\<forall>i < length (ro_sources r1). ch_ready (ro_sources r' ! i) =
       drop (count_list (schedule r1 (length ws)) i) (ch_ready (ro_sources r1 ! i)))"
    using keeps n Cons.prems(2) enough rec(1) by (intro Cons.IH) simp_all
  with keeps(4) n x(1) rec(2) show ?case
    by (auto simp: sched ready drop_Suc)
qed (simp add: schedule_def)

text \<open>Any number of calls short of the counter's range keeps the invariant and never panics.\<close>

lemma calls_keep:
  assumes "router_ok r" "sint (ro_cursor r) + int (length ws) < 2 ^ 63" "next_calls r ws = (xs, r')"
  shows "router_ok r' \<and> ro_slots r' = ro_slots r \<and> length (ro_sources r') = length (ro_sources r)
    \<and> sint (ro_cursor r') = sint (ro_cursor r) + int (length ws)
    \<and> length xs = length ws \<and> Panicked \<notin> set xs"
  using assms
proof (induction ws arbitrary: r xs)
  case (Cons w ws)
  have cur: "sint (ro_cursor r) < 2 ^ 63 - 1" using Cons.prems(2) by simp
  note ok = Cons.prems(1)
  obtain x r1 where n: "Next r w = (x, r1)" by fastforce
  note keeps = Next_keeps [OF ok cur, of w, unfolded n snd_conv]
  obtain xs' where rec: "next_calls r1 ws = (xs', r')" "xs = x # xs'"
    using Cons.prems(3) n by (auto split: prod.splits)
  have "x \<noteq> Panicked"
    by (cases rule: Next_cases [OF ok cur n]) (auto split: wake.splits)
  moreover have "sint (ro_cursor r1) + int (length ws) < 2 ^ 63" using keeps Cons.prems(2) by simp
  note ih = Cons.IH [OF keeps(1) this rec(1)]
  ultimately show ?case using keeps rec(2) by auto
qed simp

section \<open>Properties\<close>

definition sample_sources :: "nat weighted_source list" where
  "sample_sources = [
     \<lparr>ws_Ch = \<lparr>ch_ready = [10, 11, 12, 13], ch_closed = False\<rparr>, ws_Weight = 3\<rparr>,
     \<lparr>ws_Ch = \<lparr>ch_ready = [20, 21], ch_closed = False\<rparr>, ws_Weight = 2\<rparr>,
     \<lparr>ws_Ch = \<lparr>ch_ready = [30], ch_closed = False\<rparr>, ws_Weight = 1\<rparr>]"

definition sample_router :: "nat router" where
  "sample_router = \<lparr>ro_sources = map ws_Ch sample_sources, ro_slots = [0, 0, 0, 1, 1, 2], ro_cursor = 0\<rparr>"

lemma sample_router_built: "NewPriorityRouter sample_sources = Some sample_router"
proof -
  have "slot_list [3, 2, 1] = [0, 0, 0, 1, 1, 2]" by code_simp
  then show ?thesis
    by (simp add: NewPriorityRouter_def sample_sources_def sample_router_def wrap64_id int64_def)
qed

text \<open>
  C20: weighted fairness. Whatever calls were made before, if the sources hold at least their weight in
  values, then one turn of the schedule (as many calls as the weights add up to) returns a value
  at every call, and takes from each source exactly as many values as its weight, the first ones.
\<close>

theorem weighted_turn:
  assumes "NewPriorityRouter sources = Some r0" "next_calls r0 before = (ys, r)"
    and "int (length before) + int (length (ro_slots r0)) < 2 ^ 63"
    and "\<forall>i < length sources. nat (ws_Weight (sources ! i)) \<le> length (ch_ready (ro_sources r ! i))"
    and "length wakes = length (ro_slots r0)" "next_calls r wakes = (xs, r')"
  shows "(\<forall>x \<in> set xs. \<exists>v. x = Value v) \<and> length xs = length (ro_slots r0) \<and>
    (\<forall>i < length sources. ch_ready (ro_sources r' ! i) =
       drop (nat (ws_Weight (sources ! i))) (ch_ready (ro_sources r ! i)))"
proof -
  note r0 = NewPriorityRouter_ok [OF assms(1)]
  have r: "router_ok r" "ro_slots r = ro_slots r0" "length (ro_sources r) = length sources"
    "sint (ro_cursor r) = int (length before)"
    using calls_keep [OF r0(1) _ assms(2)] assms(3) r0 by simp_all
  have turn: "count_list (schedule r (length wakes)) i = nat (ws_Weight (sources ! i))"
    if "i < length sources" for i
    using schedule_turn [OF r(1), of i] that assms(5) r(2) r0(3) by (simp add: count_slot_list)
  have "length xs = length wakes \<and> (\<forall>x \<in> set xs. \<exists>v. x = Value v) \<and>
    (\<forall>i < length (ro_sources r). ch_ready (ro_sources r' ! i) =
       drop (count_list (schedule r (length wakes)) i) (ch_ready (ro_sources r ! i)))"
    using r assms turn by (intro saturated_calls) simp_all
  with turn r assms(5) show ?thesis by simp
qed

theorem weighted_turn_witness:
  "\<exists>xs r'. next_calls sample_router (replicate 6 WakeTimeout) = (xs, r') \<and>
     (\<forall>x \<in> set xs. \<exists>v. x = Value v) \<and> length xs = 6 \<and>
     ch_ready (ro_sources r' ! 0) = [13] \<and> ch_ready (ro_sources r' ! 2) = []"
proof -
  obtain xs r' where e: "next_calls sample_router (replicate 6 WakeTimeout) = (xs, r')" by fastforce
  have "\<forall>i < length sample_sources.
      nat (ws_Weight (sample_sources ! i)) \<le> length (ch_ready (ro_sources sample_router ! i))"
    by code_simp
  from weighted_turn [OF sample_router_built _ _ this _ e, of "[]"] e show ?thesis
    by (simp add: sample_router_def sample_sources_def nth_Cons' less_Suc_eq_0_disj all_conj_distrib)
qed

text \<open>
  One call of \<open>Next\<close>: the scheduled source's first value; or, when that source has none, the
  first value of the highest-priority source that has one; and only when no source has any does
  the call wait on the highest-priority source, ending without a value unless one arrives there.
\<close>

theorem next_prefers_schedule_then_priority:
  assumes "NewPriorityRouter sources = Some r0" "next_calls r0 before = (ys, r)"
    and "int (length before) < 2 ^ 63 - 1" "Next r wake = (x, r')"
  shows "(\<exists>v vs. ch_ready (ro_sources r ! active r) = v # vs \<and> x = Value v
          \<and> ro_sources r' = (ro_sources r)[active r := (ro_sources r ! active r)\<lparr>ch_ready := vs\<rparr>])
    \<or> (\<exists>i v vs. ch_ready (ro_sources r ! active r) = [] \<and> i < length sources
          \<and> (\<forall>j < i. ch_ready (ro_sources r ! j) = []) \<and> ch_ready (ro_sources r ! i) = v # vs
          \<and> x = Value v \<and> ro_sources r' = (ro_sources r)[i := (ro_sources r ! i)\<lparr>ch_ready := vs\<rparr>])
    \<or> ((\<forall>c \<in> set (ro_sources r). ch_ready c = []) \<and> ro_sources r' = ro_sources r
          \<and> x = (case wake of WakeValue v \<Rightarrow> Value v | _ \<Rightarrow> NoValue))"
proof -
  note r0 = NewPriorityRouter_ok [OF assms(1)]
  have r: "router_ok r" "length (ro_sources r) = length sources"
    "sint (ro_cursor r) < 2 ^ 63 - 1"
    using calls_keep [OF r0(1) _ assms(2)] assms(3) r0 by simp_all
  show ?thesis
    by (cases rule: Next_cases [OF r(1,3) assms(4)]) (use r in auto)
qed

theorem next_prefers_witness:
  "\<exists>r r'. next_calls sample_router (replicate 2 WakeTimeout) = ([Value 10, Value 11], r) \<and>
     Next r WakeTimeout = (Value 20, r') \<and> active r = 1"
proof -
  obtain ys r where e: "next_calls sample_router (replicate 2 WakeTimeout) = (ys, r)" by fastforce
  obtain x r' where n: "Next r WakeTimeout = (x, r')" by fastforce
  have "case next_calls sample_router (replicate 2 WakeTimeout) of
      (ys, r) \<Rightarrow> active r = 1 \<and> ys = [Value 10, Value 11] \<and> ch_ready (ro_sources r ! 1) = [20, 21] \<and> ro_sources r ! 1 \<in> set (ro_sources r)"
    by code_simp
  then have "active r = 1 \<and> ys = [Value 10, Value 11] \<and> ch_ready (ro_sources r ! 1) = [20, 21] \<and> ro_sources r ! 1 \<in> set (ro_sources r)"
    by (simp only: e prod.case)
  with next_prefers_schedule_then_priority [OF sample_router_built e _ n] e n show ?thesis by auto
qed

text \<open>
  \<open>Next\<close> never panics on a router that \<open>NewPriorityRouter\<close> built, for the first 2^63 - 1 calls.
\<close>

theorem next_never_panics:
  assumes "NewPriorityRouter sources = Some r0" "next_calls r0 calls = (xs, r)"
    and "int (length calls) < 2 ^ 63"
  shows "Panicked \<notin> set xs \<and> length xs = length calls"
proof -
  note r0 = NewPriorityRouter_ok [OF assms(1)]
  show ?thesis using calls_keep [OF r0(1) _ assms(2)] assms(3) r0(4) by simp
qed

theorem next_never_panics_witness:
  "Panicked \<notin> set (fst (next_calls sample_router (replicate 9 WakeTimeout)))"
proof -
  obtain xs r where e: "next_calls sample_router (replicate 9 WakeTimeout) = (xs, r)" by fastforce
  with next_never_panics [OF sample_router_built e] show ?thesis by simp
qed

end
