(* ===== verification/Config.thy ===== *)
theory Config
  imports Prelude
begin

text \<open>
  shared/config, the configurations of the API and of the delivery scheduler, and the log level
  (shared/logger). The processor's configuration, which extends the same base, is in the theory of
  the processor.
\<close>

section \<open>The configuration library\<close>

text \<open>
  The third-party library reads a key of the environment and converts it; a key that is not set
  takes the default, the zero value where there is none. The readers are parameters that get the
  default along with the key.
\<close>

datatype vvalue = VString string | VInt int | VBool bool

record viper_lib =
  vl_string :: "string \<Rightarrow> vvalue option \<Rightarrow> string"
  vl_int :: "string \<Rightarrow> vvalue option \<Rightarrow> int"
  vl_bool :: "string \<Rightarrow> vvalue option \<Rightarrow> bool"
  vl_duration :: "string \<Rightarrow> vvalue option \<Rightarrow> duration"

record viper =
  vi_lib :: viper_lib
  vi_defaults :: "string \<Rightarrow> vvalue option"

definition SetDefault :: "string \<Rightarrow> vvalue \<Rightarrow> viper \<Rightarrow> viper" where
  "SetDefault k d v = v\<lparr>vi_defaults := (vi_defaults v)(k \<mapsto> d)\<rparr>"

definition GetString :: "viper \<Rightarrow> string \<Rightarrow> string" where
  "GetString v k = vl_string (vi_lib v) k (vi_defaults v k)"

definition GetInt :: "viper \<Rightarrow> string \<Rightarrow> int" where
  "GetInt v k = vl_int (vi_lib v) k (vi_defaults v k)"

definition GetBool :: "viper \<Rightarrow> string \<Rightarrow> bool" where
  "GetBool v k = vl_bool (vi_lib v) k (vi_defaults v k)"

definition GetDuration :: "viper \<Rightarrow> string \<Rightarrow> duration" where
  "GetDuration v k = vl_duration (vi_lib v) k (vi_defaults v k)"

section \<open>shared/config\<close>

record base_config =
  bc_LogLevel :: string
  bc_OTelEnabled :: bool
  bc_OTelServiceName :: string
  bc_OTelEndpoint :: string

definition NewViper :: "viper_lib \<Rightarrow> viper" where
  "NewViper lib = SetDefault ''OTEL_ENABLED'' (VBool False)
     (SetDefault ''LOG_LEVEL'' (VString ''info'') \<lparr>vi_lib = lib, vi_defaults = Map.empty\<rparr>)"

definition LoadBase :: "viper \<Rightarrow> base_config" where
  "LoadBase v = \<lparr>
     bc_LogLevel = GetString v ''LOG_LEVEL'', bc_OTelEnabled = GetBool v ''OTEL_ENABLED'',
     bc_OTelServiceName = GetString v ''OTEL_SERVICE_NAME'', bc_OTelEndpoint = GetString v ''OTEL_ENDPOINT''\<rparr>"

section \<open>The services\<close>

text \<open>\<open>None\<close> is a process that logs the missing variable and exits with status 1.\<close>

record api_config =
  ac_Base :: base_config
  ac_DatabaseURL :: string
  ac_NATSAddr :: string
  ac_Port :: int
  ac_SchedulerInterval :: duration

definition api_Load :: "viper_lib \<Rightarrow> api_config option" where
  "api_Load lib =
     (let v = SetDefault ''SCHEDULER_INTERVAL'' (VString ''5s'')
                (SetDefault ''PORT'' (VInt 8080) (NewViper lib));
          databaseURL = GetString v ''DATABASE_URL''; natsAddr = GetString v ''NATS_ADDR''
      in if databaseURL = '''' then None
         else if natsAddr = '''' then None
         else Some \<lparr>ac_Base = LoadBase v, ac_DatabaseURL = databaseURL, ac_NATSAddr = natsAddr,
           ac_Port = GetInt v ''PORT'', ac_SchedulerInterval = GetDuration v ''SCHEDULER_INTERVAL''\<rparr>)"

record ds_config =
  dc_Base :: base_config
  dc_DatabaseURL :: string
  dc_NATSAddr :: string
  dc_PollBatchSize :: int
  dc_PollInterval :: duration

definition ds_Load :: "viper_lib \<Rightarrow> ds_config option" where
  "ds_Load lib =
     (let v = SetDefault ''OTEL_SERVICE_NAME'' (VString ''deliveryscheduler'')
                (SetDefault ''POLL_INTERVAL'' (VString ''5s'')
                  (SetDefault ''POLL_BATCH_SIZE'' (VInt 100) (NewViper lib)));
          databaseURL = GetString v ''DATABASE_URL''; natsAddr = GetString v ''NATS_ADDR''
      in if databaseURL = '''' then None
         else if natsAddr = '''' then None
         else Some \<lparr>dc_Base = LoadBase v, dc_DatabaseURL = databaseURL, dc_NATSAddr = natsAddr,
           dc_PollBatchSize = GetInt v ''POLL_BATCH_SIZE'',
           dc_PollInterval = GetDuration v ''POLL_INTERVAL''\<rparr>)"

section \<open>Log levels\<close>

text \<open>
  The levels of log/slog. Lower-casing is compared with three ASCII words only, to which no
  letter outside ASCII lowers, so ASCII lower-casing decides the comparison.
\<close>

definition LevelDebug :: int where "LevelDebug = - 4"
definition LevelInfo :: int where "LevelInfo = 0"
definition LevelWarn :: int where "LevelWarn = 4"
definition LevelError :: int where "LevelError = 8"

definition ParseLevel :: "string \<Rightarrow> int" where
  "ParseLevel level =
     (let l = map lower_char level
      in if l = ''debug'' then LevelDebug
         else if l = ''warn'' then LevelWarn
         else if l = ''error'' then LevelError
         else LevelInfo)"

section \<open>Unset variables\<close>

text \<open>
  Documented behaviour of the library: a reader gives a default of its own type unchanged when the
  variable is not set, and the zero value when there is no default either.
\<close>

definition unset_reads :: "viper_lib \<Rightarrow> (string \<Rightarrow> duration option) \<Rightarrow> string \<Rightarrow> bool" where
  "unset_reads lib parse k \<longleftrightarrow>
     (\<forall>s. vl_string lib k (Some (VString s)) = s) \<and> vl_string lib k None = ''''
     \<and> (\<forall>n. vl_int lib k (Some (VInt n)) = n) \<and> (\<forall>b. vl_bool lib k (Some (VBool b)) = b)
     \<and> (\<forall>s d. parse s = Some d \<longrightarrow> vl_duration lib k (Some (VString s)) = d)"

lemmas config_defs = SetDefault_def GetString_def GetInt_def GetBool_def GetDuration_def NewViper_def
  LoadBase_def

lemma viper_parts [simp]:
  "vi_lib (SetDefault k d v) = vi_lib v" "vi_defaults (SetDefault k d v) = (vi_defaults v)(k \<mapsto> d)"
  "vi_lib (NewViper lib) = lib"
  by (simp_all add: SetDefault_def NewViper_def)

lemma viper_fold [simp]: "vi_lib (fold (\<lambda>(k, d). SetDefault k d) ds v) = vi_lib v"
  by (induction ds arbitrary: v) auto

text \<open>A library over an environment, to evaluate on.\<close>

definition env_lib :: "(string \<Rightarrow> string option) \<Rightarrow> (string \<Rightarrow> duration option) \<Rightarrow> viper_lib" where
  "env_lib env parse = \<lparr>
     vl_string = (\<lambda>k d. case env k of Some s \<Rightarrow> s
        | None \<Rightarrow> (case d of Some (VString s) \<Rightarrow> s | _ \<Rightarrow> '''')),
     vl_int = (\<lambda>k d. case env k of Some s \<Rightarrow> (case atoi s of Some n \<Rightarrow> n | None \<Rightarrow> 0)
        | None \<Rightarrow> (case d of Some (VInt n) \<Rightarrow> n | _ \<Rightarrow> 0)),
     vl_bool = (\<lambda>k d. case env k of Some s \<Rightarrow> s = ''true''
        | None \<Rightarrow> (case d of Some (VBool b) \<Rightarrow> b | _ \<Rightarrow> False)),
     vl_duration = (\<lambda>k d. case env k of Some s \<Rightarrow> (case parse s of Some t \<Rightarrow> t | None \<Rightarrow> 0)
        | None \<Rightarrow> (case d of Some (VString s) \<Rightarrow> (case parse s of Some t \<Rightarrow> t | None \<Rightarrow> 0) | _ \<Rightarrow> 0))\<rparr>"

lemma env_unset: "env k = None \<Longrightarrow> unset_reads (env_lib env parse) parse k"
  by (simp add: unset_reads_def env_lib_def)

end
