(* ===== verification/Processor.thy ===== *)
theory Processor
  imports Pipeline Router Config
begin

text \<open>
  The processor service as processor/internal/app wires it: configuration, the concrete services
  behind the pipeline, the subscriptions and the router of the ready consumer, its worker loop,
  and the life of one message under the broker's redelivery. The services interpret
  \<open>pipeline_env\<close>; the properties of the pipeline are stated for them.
\<close>

section \<open>Configuration\<close>

record proc_config =
  pc_Base :: base_config
  pc_NATSAddr :: string
  pc_RedisAddr :: string
  pc_WorkerConcurrency :: int
  pc_MaxAttempts :: int
  pc_ClientURL :: string
  pc_ClientTimeout :: duration
  pc_HighWeight :: int
  pc_NormalWeight :: int
  pc_LowWeight :: int
  pc_SMSRatePerSecond :: int
  pc_SMSBurst :: int
  pc_EmailRatePerSecond :: int
  pc_EmailBurst :: int
  pc_PushRatePerSecond :: int
  pc_PushBurst :: int

definition proc_defaults :: "(string \<times> vvalue) list" where
  "proc_defaults =
     [(''WORKER_CONCURRENCY'', VInt 10), (''MAX_ATTEMPTS'', VInt MaxAttempts),
      (''NTFN_DELIVERY_CLIENT_URL'', VString ''http://localhost:8080''),
      (''NTFN_DELIVERY_CLIENT_TIMEOUT'', VString ''10s''),
      (''HIGH_WEIGHT'', VInt 3), (''NORMAL_WEIGHT'', VInt 2), (''LOW_WEIGHT'', VInt 1),
      (''SMS_RATE_PER_SECOND'', VInt 10), (''SMS_BURST'', VInt 15),
      (''EMAIL_RATE_PER_SECOND'', VInt 100), (''EMAIL_BURST'', VInt 120),
      (''PUSH_RATE_PER_SECOND'', VInt 500), (''PUSH_BURST'', VInt 600)]"

text \<open>\<open>None\<close> is a process that exits because a required variable is missing.\<close>

definition proc_Load :: "viper_lib \<Rightarrow> proc_config option" where
  "proc_Load lib =
     (let v = fold (\<lambda>(k, d). SetDefault k d) proc_defaults (NewViper lib);
          natsAddr = GetString v ''NATS_ADDR''; redisAddr = GetString v ''REDIS_ADDR''
      in if natsAddr = '''' then None
         else if redisAddr = '''' then None
         else Some \<lparr>
           pc_Base = LoadBase v, pc_NATSAddr = natsAddr, pc_RedisAddr = redisAddr,
           pc_WorkerConcurrency = GetInt v ''WORKER_CONCURRENCY'',
           pc_MaxAttempts = GetInt v ''MAX_ATTEMPTS'',
           pc_ClientURL = GetString v ''NTFN_DELIVERY_CLIENT_URL'',
           pc_ClientTimeout = GetDuration v ''NTFN_DELIVERY_CLIENT_TIMEOUT'',
           pc_HighWeight = GetInt v ''HIGH_WEIGHT'',
           pc_NormalWeight = GetInt v ''NORMAL_WEIGHT'',
           pc_LowWeight = GetInt v ''LOW_WEIGHT'',
           pc_SMSRatePerSecond = GetInt v ''SMS_RATE_PER_SECOND'',
           pc_SMSBurst = GetInt v ''SMS_BURST'',
           pc_EmailRatePerSecond = GetInt v ''EMAIL_RATE_PER_SECOND'',
           pc_EmailBurst = GetInt v ''EMAIL_BURST'',
           pc_PushRatePerSecond = GetInt v ''PUSH_RATE_PER_SECOND'',
           pc_PushBurst = GetInt v ''PUSH_BURST''\<rparr>)"

section \<open>The processor's world\<close>

text \<open>
  Redis, the broker, the metrics, the requests the provider received; and the answers to come of
  the rate limiter, the provider, the clock and the random generator.
\<close>

record proc_world =
  pw_redis :: redis
  pw_nats :: nats
  pw_metrics :: metrics
  pw_posted :: "http_request list"
  pw_allow :: "rate_result result tape"
  pw_allow_calls :: "(string \<times> rate_limit) list"
  pw_provider :: "int result tape"
  pw_clock :: "time tape"
  pw_random :: "rat tape"

definition set_redis :: "redis \<Rightarrow> proc_world \<Rightarrow> proc_world" where
  "set_redis s w = w\<lparr>pw_redis := s\<rparr>"

definition set_stream :: "nats \<Rightarrow> proc_world \<Rightarrow> proc_world" where
  "set_stream s w = w\<lparr>pw_nats := s\<rparr>"

definition world_allow :: "string \<Rightarrow> rate_limit \<Rightarrow> proc_world \<Rightarrow> rate_result result \<times> proc_world" where
  "world_allow key limit w =
     (tape_read (pw_allow w),
      w\<lparr>pw_allow := tape_next (pw_allow w), pw_allow_calls := pw_allow_calls w @ [(key, limit)]\<rparr>)"

definition world_post :: "http_request \<Rightarrow> proc_world \<Rightarrow> int result \<times> proc_world" where
  "world_post req w =
     (tape_read (pw_provider w),
      w\<lparr>pw_provider := tape_next (pw_provider w), pw_posted := pw_posted w @ [req]\<rparr>)"

definition world_clock :: "proc_world \<Rightarrow> time \<times> proc_world" where
  "world_clock w = (tape_read (pw_clock w), w\<lparr>pw_clock := tape_next (pw_clock w)\<rparr>)"

definition world_random :: "proc_world \<Rightarrow> rat \<times> proc_world" where
  "world_random w = (tape_read (pw_random w), w\<lparr>pw_random := tape_next (pw_random w)\<rparr>)"

section \<open>Wiring\<close>

definition per_second :: "int \<Rightarrow> int \<Rightarrow> rate_limit" where
  "per_second rate burst = \<lparr>rl_Rate = rate, rl_Burst = burst, rl_Period = 1000000000\<rparr>"

definition channel_limits :: "proc_config \<Rightarrow> string \<Rightarrow> rate_limit option" where
  "channel_limits cfg =
     [ChannelSMS \<mapsto> per_second (pc_SMSRatePerSecond cfg) (pc_SMSBurst cfg),
      ChannelEmail \<mapsto> per_second (pc_EmailRatePerSecond cfg) (pc_EmailBurst cfg),
      ChannelPush \<mapsto> per_second (pc_PushRatePerSecond cfg) (pc_PushBurst cfg)]"

definition proc_limiter :: "proc_config \<Rightarrow> proc_world redis_limiter" where
  "proc_limiter cfg = \<lparr>li_Allow = world_allow, li_channelLimits = channel_limits cfg\<rparr>"

text \<open>\<open>build\<close> is the error of building a request for a method and URL, if any.\<close>

definition proc_client ::
  "proc_config \<Rightarrow> (string \<Rightarrow> string \<Rightarrow> go_error option) \<Rightarrow> proc_world http_client" where
  "proc_client cfg build = \<lparr>hc_baseURL = pc_ClientURL cfg, hc_build = build, hc_Do = world_post\<rparr>"

definition proc_pipeline ::
  "proc_config \<Rightarrow> (string \<Rightarrow> string \<Rightarrow> go_error option) \<Rightarrow> (int \<Rightarrow> duration) \<Rightarrow> proc_world pipeline" where
  "proc_pipeline cfg build conv = \<lparr>
     pl_pub = \<lparr>pub_Publish = (\<lambda>c t j. on_part pw_nats set_stream (pub_Publish nats_publisher c t j))\<rparr>,
     pl_Send = Send (proc_client cfg build) world_clock,
     pl_IsAllowed = IsAllowed (proc_limiter cfg),
     pl_locker = \<lparr>lk_TryLock = (\<lambda>i. on_part pw_redis set_redis (lk_TryLock redis_locker i)),
                  lk_Unlock = (\<lambda>i. on_part pw_redis set_redis (lk_Unlock redis_locker i))\<rparr>,
     pl_RecordSent = (\<lambda>n w. w\<lparr>pw_metrics := RecordNotificationSent n (pw_metrics w)\<rparr>),
     pl_RecordFailed = (\<lambda>n w. w\<lparr>pw_metrics := RecordNotificationFailed n (pw_metrics w)\<rparr>),
     pl_Float64 = world_random, pl_conv = conv\<rparr>"

text \<open>
  The ready consumer: the three subscriptions' channels with their weights, and how often the
  broker delivers a message at most.
\<close>

definition ready_subscription :: "(trace \<Rightarrow> trace) \<Rightarrow> ready_event subscription" where
  "ready_subscription start = \<lparr>su_unmarshal = ready_of_json, su_start = start\<rparr>"

record ready_consumer =
  rc_router :: "ready_event delivered router"
  rc_maxDeliver :: int
  rc_concurrency :: int

definition NewNotificationReadyConsumer ::
  "int \<Rightarrow> int \<Rightarrow> int \<Rightarrow> ready_event delivered chan \<Rightarrow> ready_event delivered chan
   \<Rightarrow> ready_event delivered chan \<Rightarrow> int \<Rightarrow> int \<Rightarrow> ready_consumer option" where
  "NewNotificationReadyConsumer highWeight normalWeight lowWeight highMsgs normalMsgs lowMsgs
       concurrency maxDeliver =
     (case NewPriorityRouter
             [\<lparr>ws_Ch = highMsgs, ws_Weight = highWeight\<rparr>, \<lparr>ws_Ch = normalMsgs, ws_Weight = normalWeight\<rparr>,
              \<lparr>ws_Ch = lowMsgs, ws_Weight = lowWeight\<rparr>] of
        None \<Rightarrow> None
      | Some r \<Rightarrow> Some \<lparr>rc_router = r, rc_maxDeliver = maxDeliver, rc_concurrency = concurrency\<rparr>)"

definition proc_New ::
  "proc_config \<Rightarrow> ready_event delivered chan \<Rightarrow> ready_event delivered chan
   \<Rightarrow> ready_event delivered chan \<Rightarrow> ready_consumer option" where
  "proc_New cfg highMsgs normalMsgs lowMsgs =
     NewNotificationReadyConsumer (pc_HighWeight cfg) (pc_NormalWeight cfg) (pc_LowWeight cfg)
       highMsgs normalMsgs lowMsgs (pc_WorkerConcurrency cfg) (wrap64 (pc_MaxAttempts cfg + 1))"

text \<open>
  A worker's loop, one turn per element: what ended the waiting of \<open>Next\<close>, and whether the context
  is cancelled when the loop's condition is checked next. The answers are recorded.
\<close>

fun worker ::
  "'w pipeline \<Rightarrow> (ready_event delivered wake \<times> bool) list \<Rightarrow> ready_event delivered router \<Rightarrow> 'w
   \<Rightarrow> answers \<times> ready_event delivered router \<times> 'w" where
  "worker P [] r w = ([], r, w)"
| "worker P ((wake, cancelled) # ts) r w =
     (case Next r wake of
        (Value m, r1) \<Rightarrow>
          (case processOne P m w of
             (a, w1) \<Rightarrow>
               (if cancelled then ([(rm_Msg m, a)], r1, w1)
                else (case worker P ts r1 w1 of (as, r2, w2) \<Rightarrow> ((rm_Msg m, a) # as, r2, w2))))
      | (NoValue, r1) \<Rightarrow> (if cancelled then ([], r1, w) else worker P ts r1 w)
      | (Panicked, r1) \<Rightarrow> ([], r1, w))"

section \<open>The services keep their promises\<close>

definition stream_of :: "proc_world \<Rightarrow> nats_msg list" where
  "stream_of w = na_log (pw_nats w)"

definition locked :: "proc_world \<Rightarrow> string \<Rightarrow> bool" where
  "locked w = lock_held (pw_redis w)"

definition body_parts :: "json option \<Rightarrow> string \<times> string \<times> string" where
  "body_parts b =
     (case b of
        Some (JObj [(_, JStr r), (_, JStr c), (_, JStr m)]) \<Rightarrow> (r, c, m)
      | _ \<Rightarrow> ('''', '''', ''''))"

definition requests :: "proc_world \<Rightarrow> (string \<times> string \<times> string) list" where
  "requests w = map (\<lambda>q. body_parts (hq_Body q)) (pw_posted w)"

lemma body_parts_delivery [simp]: "body_parts (Some (delivery_body r c m)) = (r, c, m)"
  by (simp add: body_parts_def delivery_body_def)

lemma proc_parts [simp]:
  "pw_redis (set_redis s w) = s" "pw_nats (set_redis s w) = pw_nats w" "pw_posted (set_redis s w) = pw_posted w"
  "pw_nats (set_stream n w) = n" "pw_redis (set_stream n w) = pw_redis w" "pw_posted (set_stream n w) = pw_posted w"
  by (simp_all add: set_redis_def set_stream_def)

lemma proc_pipeline_sel [simp]:
  "pub_Publish (pl_pub (proc_pipeline cfg build conv)) = (\<lambda>c t j. on_part pw_nats set_stream (Publish c t j))"
  "pl_Send (proc_pipeline cfg build conv) = Send (proc_client cfg build) world_clock"
  "pl_IsAllowed (proc_pipeline cfg build conv) = IsAllowed (proc_limiter cfg)"
  "lk_TryLock (pl_locker (proc_pipeline cfg build conv)) = (\<lambda>i. on_part pw_redis set_redis (TryLock i))"
  "lk_Unlock (pl_locker (proc_pipeline cfg build conv)) = (\<lambda>i. on_part pw_redis set_redis (Unlock i))"
  "pl_RecordSent (proc_pipeline cfg build conv) = (\<lambda>n w. w\<lparr>pw_metrics := RecordNotificationSent n (pw_metrics w)\<rparr>)"
  "pl_RecordFailed (proc_pipeline cfg build conv) = (\<lambda>n w. w\<lparr>pw_metrics := RecordNotificationFailed n (pw_metrics w)\<rparr>)"
  "pl_Float64 (proc_pipeline cfg build conv) = world_random" "pl_conv (proc_pipeline cfg build conv) = conv"
  by (simp_all add: proc_pipeline_def nats_publisher_def redis_locker_def)

lemma locker_on_part:
  assumes L: "locker_port try_lock unlock held" and put: "\<And>s w. get (put s w) = s"
  shows "locker_port (\<lambda>i. on_part get put (try_lock i)) (\<lambda>i. on_part get put (unlock i)) (\<lambda>w. held (get w))"
proof -
  note D = on_partD [where get = get and put = put, OF _ put]
  show ?thesis
  proof
    fix i w w'
    assume "on_part get put (try_lock i) w = (Inr True, w')"
    then show "\<not> held (get w) i \<and> held (get w') i" using locker_port.lock_taken [OF L] by (auto dest!: D)
  next
    fix i w w'
    assume "on_part get put (try_lock i) w = (Inr False, w')"
    then show "held (get w) i \<and> held (get w') = held (get w)"
      using locker_port.lock_missed [OF L] by (auto dest!: D)
  next
    fix i w r w' j
    assume "on_part get put (try_lock i) w = (r, w')" "j \<noteq> i"
    then show "held (get w') j = held (get w) j" using locker_port.lock_others [OF L] by (auto dest!: D)
  next
    fix i w u w'
    assume "on_part get put (unlock i) w = (Inr u, w')"
    then show "\<not> held (get w') i" using locker_port.unlocked [OF L] by (auto dest!: D)
  next
    fix i w r w' j
    assume "on_part get put (unlock i) w = (r, w')" "j \<noteq> i"
    then show "held (get w') j = held (get w) j" using locker_port.unlock_others [OF L] by (auto dest!: D)
  qed
qed

lemma send_effects:
  "Send (proc_client cfg build) world_clock r c m w = (dr, w') \<Longrightarrow>
     pw_nats w' = pw_nats w \<and> pw_redis w' = pw_redis w \<and>
     (requests w' = requests w @ [(r, c, m)] \<or> requests w' = requests w \<and> \<not> dr_Success dr \<and> dr_Retryable dr)"
  by (auto simp: Send_def Request_def proc_client_def world_clock_def world_post_def requests_def Let_def
      split: option.splits sum.splits prod.splits)

lemma limiter_effects:
  "IsAllowed (proc_limiter cfg) c w = (a, w') \<Longrightarrow>
     pw_nats w' = pw_nats w \<and> pw_redis w' = pw_redis w \<and> pw_posted w' = pw_posted w"
  by (auto simp: IsAllowed_def proc_limiter_def world_allow_def Let_def split: sum.splits if_splits)

interpretation proc: pipeline_env "proc_pipeline cfg build conv" stream_of locked requests for cfg build conv
proof (intro pipeline_env.intro pipeline_env_axioms.intro)
  show "publisher_port (pub_Publish (pl_pub (proc_pipeline cfg build conv))) stream_of"
    unfolding proc_pipeline_sel stream_of_def [abs_def]
    by (intro publisher_port_on_part nats_pub.publisher_port_axioms) simp
  show "locker_port (lk_TryLock (pl_locker (proc_pipeline cfg build conv)))
      (lk_Unlock (pl_locker (proc_pipeline cfg build conv))) locked"
    unfolding proc_pipeline_sel locked_def [abs_def]
    by (intro locker_on_part redis_lock.locker_port_axioms) simp
next
  fix r c m w dr w'
  assume "pl_Send (proc_pipeline cfg build conv) r c m w = (dr, w')"
  then show "stream_of w' = stream_of w \<and> locked w' = locked w \<and> (requests w' = requests w @ [(r, c, m)] \<or>
      requests w' = requests w \<and> \<not> dr_Success dr \<and> dr_Retryable dr)"
    by (simp add: stream_of_def locked_def send_effects)
next
  fix c w a w'
  assume "pl_IsAllowed (proc_pipeline cfg build conv) c w = (a, w')"
  then show "stream_of w' = stream_of w \<and> locked w' = locked w \<and> requests w' = requests w"
    by (auto simp: stream_of_def locked_def requests_def dest: limiter_effects)
qed (auto simp: stream_of_def locked_def requests_def on_part_eq world_random_def)

section \<open>The life of a message\<close>

text \<open>
  JetStream's redelivery of one message: after a nak (at once or delayed) it is delivered again with
  the next delivery number, until it is acknowledged or the consumer's delivery limit is reached;
  after that the broker gives it to no one. The first argument is the number of deliveries left.
\<close>

fun deliveries ::
  "nat \<Rightarrow> 'w pipeline \<Rightarrow> ready_event delivered \<Rightarrow> 'w \<Rightarrow> ack list \<times> 'w" where
  "deliveries 0 P m w = ([], w)"
| "deliveries (Suc left) P m w =
     (case processOne P m w of
        (a, w1) \<Rightarrow>
          (if a = Ack then ([Ack], w1)
           else (case deliveries left P (m\<lparr>rm_AttemptNumber := rm_AttemptNumber m + 1\<rparr>) w1 of
                   (as, w2) \<Rightarrow> (a # as, w2))))"

text \<open>
  A world in which from now on only the provider may misbehave: Redis and the broker answer, the
  limiter lets everything pass, and no one holds the notification's lock.
\<close>

definition lets_pass :: "rate_result result \<Rightarrow> bool" where
  "lets_pass x = (case x of Inr r \<Rightarrow> 0 < rr_Allowed r | Inl _ \<Rightarrow> False)"

definition calm :: "string \<Rightarrow> proc_world \<Rightarrow> bool" where
  "calm i w \<longleftrightarrow> constantly None (rd_faults (pw_redis w)) \<and> \<not> locked w i
     \<and> constantly PubAck (na_replies (pw_nats w))
     \<and> steady lets_pass (pw_allow w)"

definition provider_says :: "proc_world \<Rightarrow> nat \<Rightarrow> int result" where
  "provider_says w k = tape_fun (pw_provider w) (tape_pos (pw_provider w) + k)"

text \<open>The outcome the answer of the provider stands for, up to latency.\<close>

definition answer_final :: "int result \<Rightarrow> bool" where
  "answer_final x = (case x of Inl _ \<Rightarrow> False | Inr code \<Rightarrow> code \<in> {202, 400, 401, 403})"

lemma calm_lock:
  assumes "calm i w"
  shows "\<exists>s. TryLock i (pw_redis w) = (Inr True, s) \<and> constantly None (rd_faults s)
    \<and> (\<exists>s'. Unlock i s = (Inr (), s') \<and> constantly None (rd_faults s') \<and> \<not> lock_held s' i)"
proof -
  let ?k = "lock_key i" and ?s1 = "(pw_redis w)\<lparr>rd_faults := tape_next (rd_faults (pw_redis w))\<rparr>"
  let ?s = "?s1\<lparr>rd_keys := (rd_keys ?s1)(?k \<mapsto> rd_now ?s1 + lockTTL)\<rparr>"
  let ?s2 = "?s\<lparr>rd_faults := tape_next (rd_faults ?s)\<rparr>"
  have f: "constantly None (rd_faults (pw_redis w))" "\<not> live (pw_redis w) ?k"
    using assms by (simp_all add: calm_def locked_def lock_held_def)
  from f(2) have "\<not> live ?s1 ?k" by (auto simp: live_def split: option.splits)
  then have "TryLock i (pw_redis w) = (Inr True, ?s)"
    using f(1) by (simp add: TryLock_def redis_command_def set_nx_def constantly_read)
  moreover have "Unlock i ?s = (Inr (), ?s2\<lparr>rd_keys := (rd_keys ?s2)(?k := None)\<rparr>)"
    using f(1) by (simp add: Unlock_def redis_command_def del_key_def steady_next [THEN constantly_read])
  ultimately show ?thesis using f(1) by (auto simp: lock_held_def live_def)
qed

lemma calm_limit:
  assumes "steady lets_pass (pw_allow w)"
  shows "\<exists>w'. IsAllowed (proc_limiter cfg) c w = (Inr (True, 0), w') \<and> pw_redis w' = pw_redis w
    \<and> pw_nats w' = pw_nats w \<and> pw_posted w' = pw_posted w \<and> pw_provider w' = pw_provider w
    \<and> pw_allow w' = tape_next (pw_allow w)"
proof -
  from assms obtain r where "tape_read (pw_allow w) = Inr r" "0 < rr_Allowed r"
    by (auto simp: lets_pass_def dest: steady_read split: sum.splits)
  then show ?thesis by (simp add: IsAllowed_def proc_limiter_def world_allow_def Let_def)
qed

lemma calm_send:
  assumes "build ''POST'' (pc_ClientURL cfg) = None"
  shows "\<exists>dr w'. Send (proc_client cfg build) world_clock r c m w = (dr, w')
    \<and> pw_redis w' = pw_redis w \<and> pw_nats w' = pw_nats w \<and> pw_allow w' = pw_allow w
    \<and> requests w' = requests w @ [(r, c, m)] \<and> pw_provider w' = tape_next (pw_provider w)
    \<and> dr_Success dr = (provider_says w 0 = Inr 202)
    \<and> (dr_Success dr \<or> \<not> dr_Retryable dr) = answer_final (provider_says w 0)
    \<and> int64 (dr_LatencyMS dr) \<and> (dr_Success dr \<longrightarrow> dr_StatusCode dr = 202)"
  using assms
  by (auto simp: int64_sdiv int64_time_sub Send_def Request_def proc_client_def world_clock_def world_post_def requests_def Let_def
      classify_def provider_says_def tape_read_def answer_final_def
      split: option.splits sum.splits prod.splits)

lemma calm_publish:
  assumes "constantly PubAck (na_replies s)"
  shows "\<exists>s'. Publish c t j s = (Inr (), s') \<and> na_log s' = na_log s @ [nats_message t c j]
    \<and> constantly PubAck (na_replies s')"
  using assms by (auto simp: Publish_def next_reply_def store_msg_def constantly_read Let_def)

lemma calm_handle:
  assumes "constantly PubAck (na_replies (pw_nats w))"
  shows "\<exists>x w'. handleDeliveryResult (proc_pipeline cfg build conv) ctx evt dr n w = (x, w')
    \<and> pw_redis w' = pw_redis w \<and> pw_allow w' = pw_allow w \<and> pw_provider w' = pw_provider w
    \<and> pw_posted w' = pw_posted w \<and> constantly PubAck (na_replies (pw_nats w'))
    \<and> (case status_event evt dr n of
         None \<Rightarrow> (\<exists>d. x = Inl (RetryAfter d)) \<and> stream_of w' = stream_of w
       | Some e \<Rightarrow> x = Inr () \<and> stream_of w' = stream_of w @ [status_message ctx e])"
proof (cases "\<not> dr_Success dr \<and> dr_Retryable dr \<and> n < maxAttemptsFor evt")
  case True
  with assms show ?thesis
    by (auto simp: handleDeliveryResult_def status_event_def world_random_def stream_of_def Let_def)
next
  case False
  define e where "e = (if dr_Success dr then delivered_event evt dr n else failed_event evt dr n)"
  obtain s where s: "Publish ctx TopicStatus (result_to_json e) (pw_nats w) = (Inr (), s)"
    "na_log s = na_log (pw_nats w) @ [nats_message TopicStatus ctx (result_to_json e)]"
    "constantly PubAck (na_replies s)"
    using calm_publish [OF assms] by blast
  define w1 where "w1 = (if dr_Success dr then w\<lparr>pw_metrics := RecordNotificationSent (dr_LatencyMS dr) (pw_metrics w)\<rparr>
    else w\<lparr>pw_metrics := RecordNotificationFailed (dr_LatencyMS dr) (pw_metrics w)\<rparr>)"
  have w1: "pw_nats w1 = pw_nats w" "pw_redis w1 = pw_redis w" "pw_allow w1 = pw_allow w"
    "pw_provider w1 = pw_provider w" "pw_posted w1 = pw_posted w" by (simp_all add: w1_def)
  have "handleDeliveryResult (proc_pipeline cfg build conv) ctx evt dr n w
      = publishStatus (proc_pipeline cfg build conv) ctx e w1"
    using False by (auto simp: handleDeliveryResult_def Let_def e_def w1_def)
  also have "\<dots> = (Inr (), set_stream s w1)"
    by (simp add: publishStatus_def on_part_eq w1 s)
  finally have h: "handleDeliveryResult (proc_pipeline cfg build conv) ctx evt dr n w = (Inr (), set_stream s w1)" .
  have "status_event evt dr n = Some e" using False by (auto simp: status_event_def e_def)
  with h s w1 show ?thesis by (simp add: stream_of_def status_message_def set_stream_def)
qed

text \<open>One delivery in a calm world.\<close>

lemma calm_process:
  assumes c: "calm (re_NotificationID (rm_Event m)) w" and b: "build ''POST'' (pc_ClientURL cfg) = None"
    and p: "processOne (proc_pipeline cfg build conv) m w = (a, w')"
  shows "\<exists>dr. calm (re_NotificationID (rm_Event m)) w'
    \<and> pw_provider w' = tape_next (pw_provider w)
    \<and> requests w' = requests w @ [(re_Recipient (rm_Event m), re_Channel (rm_Event m), re_Content (rm_Event m))]
    \<and> dr_Success dr = (provider_says w 0 = Inr 202)
    \<and> (dr_Success dr \<or> \<not> dr_Retryable dr) = answer_final (provider_says w 0)
    \<and> int64 (dr_LatencyMS dr) \<and> (dr_Success dr \<longrightarrow> dr_StatusCode dr = 202)
    \<and> (case status_event (rm_Event m) dr (rm_AttemptNumber m) of
         None \<Rightarrow> (\<exists>d. a = NakWithDelay d) \<and> stream_of w' = stream_of w
       | Some e \<Rightarrow> a = Ack \<and> stream_of w' = stream_of w @ [status_message (rm_Ctx m) e])"
proof -
  let ?evt = "rm_Event m" and ?n = "rm_AttemptNumber m" and ?P = "proc_pipeline cfg build conv"
  let ?i = "re_NotificationID ?evt"
  obtain s s' where s: "TryLock ?i (pw_redis w) = (Inr True, s)" "Unlock ?i s = (Inr (), s')"
    "constantly None (rd_faults s')" "\<not> lock_held s' ?i"
    using calm_lock [OF c] by blast
  define w1 where "w1 = set_redis s w"
  have w1: "pw_redis w1 = s" "pw_nats w1 = pw_nats w" "pw_posted w1 = pw_posted w"
    "pw_provider w1 = pw_provider w" "pw_allow w1 = pw_allow w" by (simp_all add: w1_def set_redis_def)
  obtain w2 where w2: "IsAllowed (proc_limiter cfg) (re_Channel ?evt) w1 = (Inr (True, 0), w2)"
    "pw_redis w2 = s" "pw_nats w2 = pw_nats w" "pw_posted w2 = pw_posted w"
    "pw_provider w2 = pw_provider w" "pw_allow w2 = tape_next (pw_allow w)"
    using calm_limit [of w1 cfg "re_Channel ?evt"] c by (auto simp: calm_def w1)
  obtain dr w3 where w3: "Send (proc_client cfg build) world_clock (re_Recipient ?evt) (re_Channel ?evt)
      (re_Content ?evt) w2 = (dr, w3)"
    "pw_redis w3 = s" "pw_nats w3 = pw_nats w" "pw_allow w3 = pw_allow w2"
    "requests w3 = requests w2 @ [(re_Recipient ?evt, re_Channel ?evt, re_Content ?evt)]"
    "pw_provider w3 = tape_next (pw_provider w2)"
    "dr_Success dr = (provider_says w2 0 = Inr 202)"
    "(dr_Success dr \<or> \<not> dr_Retryable dr) = answer_final (provider_says w2 0)"
    "int64 (dr_LatencyMS dr)" "dr_Success dr \<longrightarrow> dr_StatusCode dr = 202"
    using calm_send [of build cfg "re_Recipient ?evt" "re_Channel ?evt" "re_Content ?evt" w2] b w2(2,3)
    by (auto simp only:)
  have "constantly PubAck (na_replies (pw_nats w3))" using c w3(3) by (simp add: calm_def)
  from calm_handle [OF this, of cfg build conv "rm_Ctx m" ?evt dr ?n] obtain x w4 where
    w4: "handleDeliveryResult ?P (rm_Ctx m) ?evt dr ?n w3 = (x, w4)"
    "pw_redis w4 = s" "pw_allow w4 = pw_allow w2" "pw_provider w4 = pw_provider w3" "pw_posted w4 = pw_posted w3"
    "constantly PubAck (na_replies (pw_nats w4))"
    "case status_event ?evt dr ?n of
         None \<Rightarrow> (\<exists>d. x = Inl (RetryAfter d)) \<and> stream_of w4 = stream_of w3
       | Some e \<Rightarrow> x = Inr () \<and> stream_of w4 = stream_of w3 @ [status_message (rm_Ctx m) e]"
    using w3(2,4) by (auto simp only:)
  have "run_locked ?P (rm_Ctx m) ?evt ?n w1 = (x, w4)"
    by (simp add: run_locked_def applyRateLimit_def w2(1) w3(1) w4(1))
  then have "Run ?P (rm_Ctx m) ?evt ?n w = (x, set_redis s' w4)"
    by (simp add: Run_def on_part_eq s(1,2) w4(2) flip: w1_def)
  with p have a: "a = run_answer x" "w' = set_redis s' w4" by (simp_all add: processOne_def)
  have says: "provider_says w2 0 = provider_says w 0" by (simp add: provider_says_def w2(5))
  have calm': "calm ?i w'"
    using c s(3,4) w4(2,3,6) w2(6) by (simp add: calm_def a locked_def set_redis_def)
  have st: "stream_of w3 = stream_of w" "stream_of w' = stream_of w4" "requests w2 = requests w"
    "requests w' = requests w3" "pw_provider w' = tape_next (pw_provider w)"
    using w3(3,6) w2(4,5) w4(4,5) by (simp_all add: stream_of_def requests_def a set_redis_def)
  have "case status_event ?evt dr ?n of
         None \<Rightarrow> (\<exists>d. a = NakWithDelay d) \<and> stream_of w' = stream_of w
       | Some e \<Rightarrow> a = Ack \<and> stream_of w' = stream_of w @ [status_message (rm_Ctx m) e]"
    using w4(7) st by (cases "status_event ?evt dr ?n") (auto simp: a(1) run_answer_def errors_as_def)
  with calm' st w3(5,7-10) says show ?thesis by (intro exI [of _ dr]) simp
qed

lemma provider_next: "provider_says w k = provider_says w0 (Suc k)"
  if "pw_provider w = tape_next (pw_provider w0)" for w w0
  using that by (simp add: provider_says_def)

text \<open>The answers of a calm life: delayed naks, and an ack with the one status event at the end.\<close>

lemma calm_deliveries:
  assumes "calm (re_NotificationID (rm_Event m)) w" "build ''POST'' (pc_ClientURL cfg) = None"
    and "maxAttemptsFor (rm_Event m) - rm_AttemptNumber m < int left"
    and "rm_AttemptNumber m \<le> maxAttemptsFor (rm_Event m)"
    and "deliveries left (proc_pipeline cfg build conv) m w = (as, w')"
  shows "\<exists>k e. (\<exists>ds. length ds = k \<and> as = map NakWithDelay ds @ [Ack])
    \<and> int k \<le> maxAttemptsFor (rm_Event m) - rm_AttemptNumber m
    \<and> stream_of w' = stream_of w @ [status_message (rm_Ctx m) e]
    \<and> length (requests w') = length (requests w) + Suc k
    \<and> (\<forall>j < k. \<not> answer_final (provider_says w j))
    \<and> (answer_final (provider_says w k) \<or> int k = maxAttemptsFor (rm_Event m) - rm_AttemptNumber m)
    \<and> rs_NotificationID e = re_NotificationID (rm_Event m)
    \<and> rs_AttemptNumber e = rm_AttemptNumber m + int k
    \<and> rs_Status e = (if provider_says w k = Inr 202 then StatusDelivered else StatusFailed)"
  using assms
proof (induction left arbitrary: m w as)
  case (Suc left)
  let ?evt = "rm_Event m" and ?n = "rm_AttemptNumber m"
  obtain a w1 where p: "processOne (proc_pipeline cfg build conv) m w = (a, w1)" by fastforce
  obtain dr where c1: "calm (re_NotificationID ?evt) w1" and pv: "pw_provider w1 = tape_next (pw_provider w)"
    and rq: "requests w1 = requests w @ [(re_Recipient ?evt, re_Channel ?evt, re_Content ?evt)]"
    and ok: "dr_Success dr = (provider_says w 0 = Inr 202)"
    and fin: "(dr_Success dr \<or> \<not> dr_Retryable dr) = answer_final (provider_says w 0)"
    and st: "case status_event ?evt dr ?n of
         None \<Rightarrow> (\<exists>d. a = NakWithDelay d) \<and> stream_of w1 = stream_of w
       | Some e \<Rightarrow> a = Ack \<and> stream_of w1 = stream_of w @ [status_message (rm_Ctx m) e]"
    using calm_process [OF Suc.prems(1,2) p] by blast
  show ?case
  proof (cases "status_event ?evt dr ?n")
    case (Some e)
    with st Suc.prems(5) p have "as = [Ack]" "w' = w1"
      "stream_of w1 = stream_of w @ [status_message (rm_Ctx m) e]" by auto
    moreover have "rs_NotificationID e = re_NotificationID ?evt" "rs_AttemptNumber e = ?n"
      "rs_Status e = (if provider_says w 0 = Inr 202 then StatusDelivered else StatusFailed)"
      "answer_final (provider_says w 0) \<or> maxAttemptsFor ?evt = ?n"
      using Some ok fin Suc.prems(4)
      by (auto simp: status_event_def delivered_event_def failed_event_def split: if_splits)
    ultimately show ?thesis using rq Suc.prems(4) by (intro exI [of _ 0] exI [of _ e]) auto
  next
    case None
    with st obtain d where d: "a = NakWithDelay d" "stream_of w1 = stream_of w" by auto
    let ?m = "m\<lparr>rm_AttemptNumber := ?n + 1\<rparr>"
    obtain as' where r: "deliveries left (proc_pipeline cfg build conv) ?m w1 = (as', w')" "as = NakWithDelay d # as'"
      using Suc.prems(5) p d by (auto split: prod.splits)
    from None fin have more: "?n < maxAttemptsFor ?evt" "\<not> answer_final (provider_says w 0)"
      by (auto simp: status_event_def split: if_splits)
    have "\<exists>k e. (\<exists>ds. length ds = k \<and> as' = map NakWithDelay ds @ [Ack])
      \<and> int k \<le> maxAttemptsFor (rm_Event ?m) - rm_AttemptNumber ?m
      \<and> stream_of w' = stream_of w1 @ [status_message (rm_Ctx ?m) e]
      \<and> length (requests w') = length (requests w1) + Suc k
      \<and> (\<forall>j < k. \<not> answer_final (provider_says w1 j))
      \<and> (answer_final (provider_says w1 k) \<or> int k = maxAttemptsFor (rm_Event ?m) - rm_AttemptNumber ?m)
      \<and> rs_NotificationID e = re_NotificationID (rm_Event ?m)
      \<and> rs_AttemptNumber e = rm_AttemptNumber ?m + int k
      \<and> rs_Status e = (if provider_says w1 k = Inr 202 then StatusDelivered else StatusFailed)"
      using c1 Suc.prems(2,3) more(1) r(1) by (intro Suc.IH) simp_all
    then obtain k e ds where IH: "length ds = k \<and> as' = map NakWithDelay ds @ [Ack]"
      "int k \<le> maxAttemptsFor ?evt - (?n + 1)" "stream_of w' = stream_of w1 @ [status_message (rm_Ctx m) e]"
      "length (requests w') = length (requests w1) + Suc k" "\<forall>j < k. \<not> answer_final (provider_says w1 j)"
      "answer_final (provider_says w1 k) \<or> int k = maxAttemptsFor ?evt - (?n + 1)"
      "rs_NotificationID e = re_NotificationID ?evt" "rs_AttemptNumber e = ?n + 1 + int k"
      "rs_Status e = (if provider_says w1 k = Inr 202 then StatusDelivered else StatusFailed)" by auto
    note says = provider_next [OF pv]
    have "length (d # ds) = Suc k \<and> as = map NakWithDelay (d # ds) @ [Ack]" using r(2) IH(1) by simp
    then have "\<exists>ds. length ds = Suc k \<and> as = map NakWithDelay ds @ [Ack]" by blast
    moreover have "\<forall>j < Suc k. \<not> answer_final (provider_says w j)"
      using more(2) IH(5) says by (auto simp: less_Suc_eq_0_disj)
    ultimately show ?thesis
      using IH(2-4,6-9) says rq d by (intro exI [of _ "Suc k"] exI [of _ e]) auto
  qed
qed simp

lemma calm_undecided:
  assumes "calm (re_NotificationID (rm_Event m)) w" "build ''POST'' (pc_ClientURL cfg) = None"
    and "rm_AttemptNumber m + int left \<le> maxAttemptsFor (rm_Event m)"
    and "\<forall>j < left. \<not> answer_final (provider_says w j)"
    and "deliveries left (proc_pipeline cfg build conv) m w = (as, w')"
  shows "stream_of w' = stream_of w \<and> length as = left \<and> Ack \<notin> set as"
  using assms
proof (induction left arbitrary: m w as)
  case (Suc left)
  let ?evt = "rm_Event m" and ?n = "rm_AttemptNumber m"
  obtain a w1 where p: "processOne (proc_pipeline cfg build conv) m w = (a, w1)" by fastforce
  obtain dr where c1: "calm (re_NotificationID ?evt) w1" and pv: "pw_provider w1 = tape_next (pw_provider w)"
    and fin: "(dr_Success dr \<or> \<not> dr_Retryable dr) = answer_final (provider_says w 0)"
    and st: "case status_event ?evt dr ?n of
         None \<Rightarrow> (\<exists>d. a = NakWithDelay d) \<and> stream_of w1 = stream_of w
       | Some e \<Rightarrow> a = Ack \<and> stream_of w1 = stream_of w @ [status_message (rm_Ctx m) e]"
    using calm_process [OF Suc.prems(1,2) p] by blast
  have "status_event ?evt dr ?n = None" using fin Suc.prems(3,4) by (auto simp: status_event_def)
  with st obtain d where d: "a = NakWithDelay d" "stream_of w1 = stream_of w" by auto
  obtain as' where r: "deliveries left (proc_pipeline cfg build conv) (m\<lparr>rm_AttemptNumber := ?n + 1\<rparr>) w1 = (as', w')"
    "as = NakWithDelay d # as'"
    using Suc.prems(5) p d by (auto split: prod.splits)
  have "\<forall>j < left. \<not> answer_final (provider_says w1 j)"
    using Suc.prems(4) provider_next [OF pv] by auto
  with Suc.IH [OF _ Suc.prems(2) _ _ r(1)] c1 Suc.prems(3) have
    "stream_of w' = stream_of w1 \<and> length as' = left \<and> Ack \<notin> set as'" by simp
  with d r show ?case by simp
qed simp

lemma redis_answers:
  assumes "constantly None (rd_faults s)"
  shows "\<exists>b s'. TryLock i s = (Inr b, s') \<and> constantly None (rd_faults s')"
    "\<exists>s'. Unlock i s = (Inr (), s')"
  using assms
  by (auto simp: TryLock_def Unlock_def redis_command_def set_nx_def constantly_read Let_def
      split: prod.splits if_splits)

lemma run_locked_redis:
  assumes "run_locked (proc_pipeline cfg build conv) ctx evt n w = (q, w')"
  shows "pw_redis w' = pw_redis w"
proof -
  let ?P = "proc_pipeline cfg build conv"
  obtain a w1 where a: "IsAllowed (proc_limiter cfg) (re_Channel evt) w = (a, w1)" by fastforce
  obtain dr w2 where d: "Send (proc_client cfg build) world_clock (re_Recipient evt) (re_Channel evt) (re_Content evt) w1
      = (dr, w2)" by fastforce
  have h: "pw_redis v' = pw_redis v" if "handleDeliveryResult ?P ctx evt dr n v = (x, v')" for x v v'
    using that by (auto simp: handleDeliveryResult_def publishStatus_def world_random_def on_part_eq Let_def
        split: if_splits sum.splits)
  show ?thesis
    using assms a d limiter_effects [OF a] send_effects [OF d] h
    by (auto simp: run_locked_def applyRateLimit_def split: sum.splits prod.splits if_splits)
qed

section \<open>Properties\<close>


definition sample_event :: ready_event where
  "sample_event = \<lparr>re_NotificationID = ''n1'', re_Channel = ChannelSMS, re_Recipient = ''+905551234567'',
     re_Content = ''hi'', re_Priority = PriorityHigh, re_MaxAttempts = 3\<rparr>"

definition sample_ready :: "ready_event delivered" where
  "sample_ready = \<lparr>rm_Ctx = [], rm_Event = sample_event, rm_Msg = 0, rm_AttemptNumber = 1\<rparr>"

text \<open>The provider answers 503 twice and then 202.\<close>

definition sample_proc :: proc_world where
  "sample_proc = \<lparr>
     pw_redis = sample_redis,
     pw_nats = \<lparr>na_log = [], na_replies = Tape (\<lambda>_. PubAck) 0, na_waits = Tape (\<lambda>_. True) 0\<rparr>,
     pw_metrics = \<lparr>me_sent = 0, me_failed = 0, me_latency = []\<rparr>, pw_posted = [],
     pw_allow = Tape (\<lambda>_. Inr \<lparr>rr_Allowed = 1, rr_RetryAfter = 0\<rparr>) 0, pw_allow_calls = [],
     pw_provider = Tape (\<lambda>k. Inr (if k < 2 then 503 else 202)) 0,
     pw_clock = Tape (\<lambda>k. int k) 0, pw_random = Tape (\<lambda>_. 0) 0\<rparr>"

definition sample_base :: base_config where
  "sample_base = \<lparr>bc_LogLevel = ''info'', bc_OTelEnabled = False, bc_OTelServiceName = '''', bc_OTelEndpoint = ''''\<rparr>"

definition sample_cfg :: proc_config where
  "sample_cfg = \<lparr>pc_Base = sample_base, pc_NATSAddr = ''n'', pc_RedisAddr = ''r'', pc_WorkerConcurrency = 10, pc_MaxAttempts = 4,
     pc_ClientURL = ''http://p'', pc_ClientTimeout = 10000000000, pc_HighWeight = 3, pc_NormalWeight = 2,
     pc_LowWeight = 1, pc_SMSRatePerSecond = 10, pc_SMSBurst = 15, pc_EmailRatePerSecond = 100,
     pc_EmailBurst = 120, pc_PushRatePerSecond = 500, pc_PushBurst = 600\<rparr>"

lemma sample_calm: "calm ''n1'' sample_proc"
  by (simp add: calm_def lets_pass_def sample_proc_def sample_redis_def locked_def lock_held_def live_def)


text \<open>
  C17: every message is settled. While only the provider misbehaves, a message whose attempt limit is
  within the broker's delivery limit is answered with delayed naks and then acknowledged, after at
  most as many deliveries as it has attempts; exactly one status event is published for it, at its
  last attempt: delivered if the provider accepted that attempt, failed if it refused it for good or the
  attempts are used up. The provider got one request per delivery.
\<close>

theorem message_is_settled:
  assumes "calm (re_NotificationID (rm_Event m)) w" "build ''POST'' (pc_ClientURL cfg) = None"
    and "rm_AttemptNumber m = 1" "maxAttemptsFor (rm_Event m) \<le> int maxDeliver"
    and "deliveries maxDeliver (proc_pipeline cfg build conv) m w = (as, w')"
  shows "\<exists>k e. (\<exists>ds. length ds = k \<and> as = map NakWithDelay ds @ [Ack])
    \<and> int (length as) \<le> maxAttemptsFor (rm_Event m)
    \<and> stream_of w' = stream_of w @ [status_message (rm_Ctx m) e]
    \<and> length (requests w') = length (requests w) + length as
    \<and> (\<forall>j < k. \<not> answer_final (provider_says w j))
    \<and> (answer_final (provider_says w k) \<or> int (length as) = maxAttemptsFor (rm_Event m))
    \<and> rs_NotificationID e = re_NotificationID (rm_Event m) \<and> rs_AttemptNumber e = int (length as)
    \<and> rs_Status e = (if provider_says w k = Inr 202 then StatusDelivered else StatusFailed)"
proof -
  have "1 \<le> maxAttemptsFor (rm_Event m)" by (simp add: maxAttemptsFor_def MaxAttempts_def)
  with calm_deliveries [of m w build cfg maxDeliver conv as w'] assms obtain k e ds where
    k: "length ds = k \<and> as = map NakWithDelay ds @ [Ack]" "int k \<le> maxAttemptsFor (rm_Event m) - 1"
    "stream_of w' = stream_of w @ [status_message (rm_Ctx m) e]"
    "length (requests w') = length (requests w) + Suc k" "\<forall>j < k. \<not> answer_final (provider_says w j)"
    "answer_final (provider_says w k) \<or> int k = maxAttemptsFor (rm_Event m) - 1"
    "rs_NotificationID e = re_NotificationID (rm_Event m)" "rs_AttemptNumber e = 1 + int k"
    "rs_Status e = (if provider_says w k = Inr 202 then StatusDelivered else StatusFailed)" by auto
  then have "length as = Suc k" by auto
  with k show ?thesis by (intro exI [of _ k] exI [of _ e]) auto
qed

theorem message_is_settled_witness:
  "\<exists>as w' e. deliveries 5 (proc_pipeline sample_cfg (\<lambda>_ _. None) (\<lambda>_. 0)) sample_ready sample_proc = (as, w') \<and>
     length as = 3 \<and> stream_of w' = [status_message [] e] \<and> rs_Status e = StatusDelivered"
proof -
  let ?P = "proc_pipeline sample_cfg (\<lambda>_ _. None) (\<lambda>_. 0)"
  obtain as w' where d: "deliveries 5 ?P sample_ready sample_proc = (as, w')" by fastforce
  have c: "calm (re_NotificationID (rm_Event sample_ready)) sample_proc"
    using sample_calm by (simp add: sample_ready_def sample_event_def)
  have m: "maxAttemptsFor (rm_Event sample_ready) = 3" "rm_AttemptNumber sample_ready = 1"
    by (simp_all add: sample_ready_def sample_event_def maxAttemptsFor_def)
  from message_is_settled [OF c _ m(2) _ d] m obtain k e where k: "length as = Suc k"
    "stream_of w' = stream_of sample_proc @ [status_message (rm_Ctx sample_ready) e]"
    "\<forall>j < k. \<not> answer_final (provider_says sample_proc j)"
    "answer_final (provider_says sample_proc k) \<or> int (Suc k) = 3" "int (Suc k) \<le> 3"
    "rs_Status e = (if provider_says sample_proc k = Inr 202 then StatusDelivered else StatusFailed)"
    by force
  have says: "provider_says sample_proc j = Inr (if j < 2 then 503 else 202)" for j
    by (simp add: provider_says_def sample_proc_def)
  have "k = 2" using k(4,5) by (auto simp: says answer_final_def split: if_splits)
  with k d says show ?thesis by (auto simp: stream_of_def sample_proc_def sample_ready_def)
qed



text \<open>
  The lock is released after every run that took it, so the notification's next delivery is not
  skipped, as long as Redis answers.
\<close>

theorem run_releases_the_lock:
  assumes "constantly None (rd_faults (pw_redis w))" "\<not> locked w (re_NotificationID evt)"
    and "Run (proc_pipeline cfg build conv) ctx evt n w = (x, w')"
  shows "\<not> locked w' (re_NotificationID evt)"
proof -
  let ?i = "re_NotificationID evt"
  obtain b s where s: "TryLock ?i (pw_redis w) = (Inr b, s)" "constantly None (rd_faults s)"
    using redis_answers(1) [OF assms(1)] by blast
  have b: b using redis_lock.lock_missed [of ?i "pw_redis w" s] s assms(2) by (cases b) (auto simp: locked_def)
  define w1 where "w1 = set_redis s w"
  obtain q w3 where q: "run_locked (proc_pipeline cfg build conv) ctx evt n w1 = (q, w3)" by fastforce
  have w3: "pw_redis w3 = s" using run_locked_redis [OF q] by (simp add: w1_def)
  obtain s' where s': "Unlock ?i s = (Inr (), s')" using redis_answers(2) [OF s(2)] by blast
  have "Run (proc_pipeline cfg build conv) ctx evt n w = (q, set_redis s' w3)"
    using s b q s' w3 by (simp add: Run_def on_part_eq flip: w1_def)
  with assms(3) have "w' = set_redis s' w3" by simp
  with redis_lock.unlocked [OF s'] show ?thesis by (simp add: locked_def)
qed

theorem run_releases_the_lock_witness:
  "\<not> locked (snd (Run (proc_pipeline sample_cfg (\<lambda>_ _. None) (\<lambda>_. 0)) [] sample_event 1 sample_proc)) ''n1''"
proof -
  obtain x w' where e: "Run (proc_pipeline sample_cfg (\<lambda>_ _. None) (\<lambda>_. 0)) [] sample_event 1 sample_proc = (x, w')"
    by fastforce
  have i: "re_NotificationID sample_event = ''n1''" by (simp add: sample_event_def)
  have "constantly None (rd_faults (pw_redis sample_proc))" "\<not> locked sample_proc ''n1''"
    using sample_calm by (simp_all add: calm_def)
  with run_releases_the_lock [OF _ _ e] e i show ?thesis by simp
qed

text \<open>
  A rate-limited message is not sent: the limiter is asked once, with the channel's own key and
  its configured limit, and the message is answered with a delayed nak of the limiter's retry time,
  one second if that is not positive.
\<close>

theorem rate_limited_message_waits:
  assumes "constantly None (rd_faults (pw_redis w))" "\<not> locked w (re_NotificationID (rm_Event m))"
    and "tape_read (pw_allow w) = Inr res" "rr_Allowed res \<le> 0"
    and "processOne (proc_pipeline cfg build conv) m w = (a, w')"
  shows "a = NakWithDelay (if rr_RetryAfter res \<le> 0 then 1000000000 else rr_RetryAfter res) \<and>
    requests w' = requests w \<and> stream_of w' = stream_of w \<and>
    pw_allow_calls w' = pw_allow_calls w @ [(limit_key (re_Channel (rm_Event m)),
      case channel_limits cfg (re_Channel (rm_Event m)) of Some l \<Rightarrow> l | None \<Rightarrow> defaultLimit)]"
proof -
  let ?evt = "rm_Event m" and ?P = "proc_pipeline cfg build conv"
  let ?i = "re_NotificationID ?evt"
  obtain b s where s: "TryLock ?i (pw_redis w) = (Inr b, s)"
    using redis_answers(1) [OF assms(1)] by blast
  have b: b using redis_lock.lock_missed [of ?i "pw_redis w" s] s assms(2) by (cases b) (auto simp: locked_def)
  define w1 where "w1 = set_redis s w"
  define w2 where "w2 = snd (world_allow (limit_key (re_Channel ?evt))
    (case channel_limits cfg (re_Channel ?evt) of Some l \<Rightarrow> l | None \<Rightarrow> defaultLimit) w1)"
  have al: "tape_read (pw_allow w1) = Inr res" using assms(3) by (simp add: w1_def set_redis_def)
  have "IsAllowed (proc_limiter cfg) (re_Channel ?evt) w1 = (Inr (False, rr_RetryAfter res), w2)"
    using al assms(4) by (simp add: IsAllowed_def proc_limiter_def world_allow_def w2_def Let_def)
  then have "run_locked ?P (rm_Ctx m) ?evt (rm_AttemptNumber m) w1
      = (Inl (RetryAfter (if rr_RetryAfter res \<le> 0 then 1000000000 else rr_RetryAfter res)), w2)"
    by (simp add: run_locked_def applyRateLimit_def)
  then have "processOne ?P m w = (NakWithDelay (if rr_RetryAfter res \<le> 0 then 1000000000 else rr_RetryAfter res),
      set_redis (snd (Unlock ?i (pw_redis w2))) w2)"
    using s b by (simp add: processOne_def Run_def on_part_eq run_answer_def errors_as_def flip: w1_def)
  with assms(5) show ?thesis
    by (auto simp: w2_def w1_def world_allow_def set_redis_def requests_def stream_of_def)
qed

definition limited_proc :: proc_world where
  "limited_proc = sample_proc\<lparr>pw_allow := Tape (\<lambda>_. Inr \<lparr>rr_Allowed = 0, rr_RetryAfter = - 1\<rparr>) 0\<rparr>"

theorem rate_limited_message_waits_witness:
  "\<exists>w'. processOne (proc_pipeline sample_cfg (\<lambda>_ _. None) (\<lambda>_. 0)) sample_ready limited_proc
      = (NakWithDelay 1000000000, w') \<and> requests w' = [] \<and>
     pw_allow_calls w' = [(''ratelimit:{sms}'', per_second 10 15)]"
proof -
  let ?P = "proc_pipeline sample_cfg (\<lambda>_ _. None) (\<lambda>_. 0)"
  obtain a w' where e: "processOne ?P sample_ready limited_proc = (a, w')" by fastforce
  have i: "re_NotificationID (rm_Event sample_ready) = ''n1''" "re_Channel (rm_Event sample_ready) = ChannelSMS"
    by (simp_all add: sample_ready_def sample_event_def)
  have f: "constantly None (rd_faults (pw_redis limited_proc))"
    "\<not> locked limited_proc (re_NotificationID (rm_Event sample_ready))"
    using sample_calm by (simp_all add: limited_proc_def calm_def locked_def i)
  have r: "tape_read (pw_allow limited_proc) = Inr \<lparr>rr_Allowed = 0, rr_RetryAfter = - 1\<rparr>"
    by (simp add: limited_proc_def)
  from rate_limited_message_waits [OF f r _ e] have
    "a = NakWithDelay 1000000000" "requests w' = requests limited_proc"
    "pw_allow_calls w' = pw_allow_calls limited_proc @ [(limit_key ChannelSMS,
       case channel_limits sample_cfg ChannelSMS of Some l \<Rightarrow> l | None \<Rightarrow> defaultLimit)]"
    by (simp_all add: i)
  with e show ?thesis
    by (simp add: limited_proc_def sample_proc_def requests_def limit_key_def channel_limits_def sample_cfg_def
        ChannelSMS_def ChannelEmail_def ChannelPush_def)
qed

end
