(* ===== verification/SchedRepo.thy ===== *)
theory SchedRepo
  imports Ports
begin

text \<open>
  deliveryscheduler/internal/db: the entity, the repository interface as a dictionary with its
  promises as a locale over the map of pending deliveries, and the PostgreSQL repository
  (internal/db/postgres/repository.go) over the rows of scheduled_notifications. With it, the trace
  metadata of shared/otel/utils.go, which the rows carry.
\<close>

section \<open>Trace metadata\<close>

text \<open>
  \<open>map[string]any\<close>, as key-value pairs. A context is the carrier the propagator injects, and
  \<open>extract\<close> is the propagator's \<open>Extract\<close> of a carrier into a parent context.
\<close>

type_synonym metadata = "(string \<times> json) list"

definition ExtractTraceMetadata :: "trace \<Rightarrow> metadata" where
  "ExtractTraceMetadata ctx = map (\<lambda>(k, v). (k, JStr v)) ctx"

fun string_entries :: "metadata \<Rightarrow> trace" where
  "string_entries [] = []"
| "string_entries ((k, JStr s) # m) = (k, s) # string_entries m"
| "string_entries ((k, _) # m) = string_entries m"

definition ContextWithTraceMetadata :: "(trace \<Rightarrow> trace \<Rightarrow> trace) \<Rightarrow> trace \<Rightarrow> metadata \<Rightarrow> trace" where
  "ContextWithTraceMetadata extract ctx m = extract ctx (string_entries m)"

lemma string_entries_extract [simp]: "string_entries (ExtractTraceMetadata ctx) = ctx"
  by (induction ctx) (auto simp: ExtractTraceMetadata_def)

section \<open>The repository interface\<close>

record sched =
  sn_NotificationID :: string
  sn_ScheduledAt :: "time option"
  sn_TraceMetadata :: metadata

record 'w sched_repo =
  sr_UpsertAll :: "sched list \<Rightarrow> 'w \<Rightarrow> unit result \<times> 'w"
  sr_Claim :: "time \<Rightarrow> int \<Rightarrow> 'w \<Rightarrow> sched list result \<times> 'w"
  sr_Delete :: "string \<Rightarrow> 'w \<Rightarrow> unit result \<times> 'w"

text \<open>
  What is pending: for an identifier the time and the trace metadata of its one scheduled delivery.
  An upsert of a pending identifier moves its time and keeps its metadata.
\<close>

type_synonym pending = "uuid \<Rightarrow> (time \<times> metadata) option"

definition upsert_one :: "golib \<Rightarrow> sched \<Rightarrow> pending \<Rightarrow> pending" where
  "upsert_one L n m =
     (case (uuid_parse L (sn_NotificationID n), sn_ScheduledAt n) of
        (Some k, Some t) \<Rightarrow>
          m(k \<mapsto> (t, case m k of None \<Rightarrow> sn_TraceMetadata n | Some (_, tr) \<Rightarrow> tr))
      | _ \<Rightarrow> m)"

text \<open>The identifiers of a list of entities, when all are well formed.\<close>

definition sched_keys :: "golib \<Rightarrow> sched list \<Rightarrow> uuid option list" where
  "sched_keys L ns = map (\<lambda>n. uuid_parse L (sn_NotificationID n)) ns"

text \<open>An entity as it is read back.\<close>

definition sched_of :: "golib \<Rightarrow> uuid \<Rightarrow> time \<times> metadata \<Rightarrow> sched" where
  "sched_of L k v = \<lparr>sn_NotificationID = uuid_text L k, sn_ScheduledAt = Some (fst v), sn_TraceMetadata = snd v\<rparr>"

locale schedule_store =
  fixes R :: "'w sched_repo" and L :: golib
    and pend :: "'w \<Rightarrow> pending"
    and wf :: "'w \<Rightarrow> bool"
  assumes upsert_ok: "wf w \<Longrightarrow> sr_UpsertAll R ns w = (Inr u, w') \<Longrightarrow>
        pend w' = fold (upsert_one L) ns (pend w) \<and> None \<notin> set (sched_keys L ns) \<and> distinct (sched_keys L ns)"
    and upsert_err: "sr_UpsertAll R ns w = (Inl e, w') \<Longrightarrow> pend w' = pend w"
    and claim_ok: "wf w \<Longrightarrow> sr_Claim R t n w = (Inr ns, w') \<Longrightarrow>
        \<exists>ks. distinct ks \<and> ns = map (\<lambda>k. sched_of L k (the (pend w k))) ks
          \<and> (\<forall>k \<in> set ks. \<exists>at tr. pend w k = Some (at, tr) \<and> at \<le> t)
          \<and> pend w' = (\<lambda>k. if k \<in> set ks then None else pend w k) \<and> int (length ks) \<le> max 1 n"
    and claim_err: "sr_Claim R t n w = (Inl e, w') \<Longrightarrow> pend w' = pend w"
    and delete_ok: "wf w \<Longrightarrow> sr_Delete R i w = (Inr u, w') \<Longrightarrow>
        \<exists>k. uuid_parse L i = Some k \<and> pend w' = (pend w)(k := None)"
    and delete_err: "sr_Delete R i w = (Inl e, w') \<Longrightarrow> pend w' = pend w"
    and wf_upsert: "wf w \<Longrightarrow> wf (snd (sr_UpsertAll R ns w))"
    and wf_claim: "wf w \<Longrightarrow> wf (snd (sr_Claim R t n w))"
    and wf_delete: "wf w \<Longrightarrow> wf (snd (sr_Delete R i w))"

section \<open>The table\<close>

record srow =
  sw_ID :: uuid
  sw_At :: time
  sw_Trace :: metadata

text \<open>
  The rows, the errors of the statements to come, and for each claim to come the rows another
  transaction has locked at that moment.
\<close>

record pgsched =
  ps_rows :: "srow list"
  ps_faults :: "string option tape"
  ps_locked :: "(uuid \<Rightarrow> bool) tape"

definition ps_exec ::
  "(srow list \<Rightarrow> go_error + 'a \<times> srow list) \<Rightarrow> pgsched \<Rightarrow> 'a result \<times> pgsched" where
  "ps_exec stmt d =
     (let d1 = d\<lparr>ps_faults := tape_next (ps_faults d)\<rparr>
      in case tape_read (ps_faults d) of
           Some msg \<Rightarrow> (Inl (Opaque msg), d1)
         | None \<Rightarrow> (case stmt (ps_rows d) of
                     Inl e \<Rightarrow> (Inl e, d1)
                   | Inr (x, rows) \<Rightarrow> (Inr x, d1\<lparr>ps_rows := rows\<rparr>)))"

text \<open>
  INSERT ... ON CONFLICT (notification_id) DO UPDATE SET scheduled_at: one statement; an identifier
  that is no UUID, a missing time and the same identifier twice are errors.
\<close>

definition row_of_sched :: "golib \<Rightarrow> sched \<Rightarrow> srow option" where
  "row_of_sched L n =
     (case (uuid_parse L (sn_NotificationID n), sn_ScheduledAt n) of
        (Some k, Some t) \<Rightarrow> Some \<lparr>sw_ID = k, sw_At = t, sw_Trace = sn_TraceMetadata n\<rparr>
      | _ \<Rightarrow> None)"

definition upsert_row :: "srow \<Rightarrow> srow list \<Rightarrow> srow list" where
  "upsert_row r rows =
     (if \<exists>x \<in> set rows. sw_ID x = sw_ID r
      then map (\<lambda>x. if sw_ID x = sw_ID r then x\<lparr>sw_At := sw_At r\<rparr> else x) rows
      else rows @ [r])"

definition sql_upsert :: "golib \<Rightarrow> sched list \<Rightarrow> srow list \<Rightarrow> go_error + unit \<times> srow list" where
  "sql_upsert L ns rows =
     (let new = map (row_of_sched L) ns
      in if None \<in> set new then Inl (Opaque ''invalid input'')
         else if \<not> distinct (map sw_ID (somes new))
         then Inl (Opaque ''ON CONFLICT DO UPDATE command cannot affect row a second time'')
         else Inr ((), fold upsert_row (somes new) rows))"

definition UpsertAll :: "golib \<Rightarrow> sched list \<Rightarrow> pgsched \<Rightarrow> unit result \<times> pgsched" where
  "UpsertAll L ns d =
     (if ns = [] then (Inr (), d)
      else (case ps_exec (sql_upsert L ns) d of
              (Inl e, d1) \<Rightarrow> (Inl (Wrap ''pg batch upsert scheduled notifications: '' e ''''), d1)
            | (Inr _, d1) \<Rightarrow> (Inr (), d1)))"

definition sql_delete_id :: "golib \<Rightarrow> string \<Rightarrow> srow list \<Rightarrow> go_error + unit \<times> srow list" where
  "sql_delete_id L i rows =
     (case uuid_parse L i of
        None \<Rightarrow> Inl (Opaque ''invalid input syntax for type uuid'')
      | Some k \<Rightarrow> Inr ((), filter (\<lambda>r. sw_ID r \<noteq> k) rows))"

definition DeleteByNotificationID :: "golib \<Rightarrow> string \<Rightarrow> pgsched \<Rightarrow> unit result \<times> pgsched" where
  "DeleteByNotificationID L i d =
     (case ps_exec (sql_delete_id L i) d of
        (Inl e, d1) \<Rightarrow> (Inl (Wrap ''pg delete scheduled notification: '' e ''''), d1)
      | (Inr _, d1) \<Rightarrow> (Inr (), d1))"

text \<open>
  The claim: the subquery's rows (due and not locked, oldest first, at most \<open>limit\<close>) are deleted
  and returned.
\<close>

definition claimed_rows :: "time \<Rightarrow> int \<Rightarrow> (uuid \<Rightarrow> bool) \<Rightarrow> srow list \<Rightarrow> srow list" where
  "claimed_rows before limit busy rows =
     take (nat limit) (sort_key sw_At (filter (\<lambda>r. sw_At r \<le> before \<and> \<not> busy (sw_ID r)) rows))"

definition sql_claim ::
  "time \<Rightarrow> int \<Rightarrow> (uuid \<Rightarrow> bool) \<Rightarrow> srow list \<Rightarrow> go_error + srow list \<times> srow list" where
  "sql_claim before limit busy rows =
     (let ids = map sw_ID (claimed_rows before limit busy rows)
      in Inr (filter (\<lambda>r. sw_ID r \<in> set ids) rows, filter (\<lambda>r. sw_ID r \<notin> set ids) rows))"

definition sched_of_row :: "golib \<Rightarrow> srow \<Rightarrow> sched" where
  "sched_of_row L r = sched_of L (sw_ID r) (sw_At r, sw_Trace r)"

definition DeleteByScheduledAtBeforeReturning ::
  "golib \<Rightarrow> time \<Rightarrow> int \<Rightarrow> pgsched \<Rightarrow> sched list result \<times> pgsched" where
  "DeleteByScheduledAtBeforeReturning L before limit d =
     (let limit' = (if limit < 1 then 1 else limit);
          d0 = d\<lparr>ps_locked := tape_next (ps_locked d)\<rparr>
      in case ps_exec (sql_claim before limit' (tape_read (ps_locked d))) d0 of
           (Inl e, d1) \<Rightarrow> (Inl (Wrap ''pg find and delete due scheduled notifications: '' e ''''), d1)
         | (Inr rows, d1) \<Rightarrow> (Inr (map (sched_of_row L) rows), d1))"

definition pg_sched_repo :: "golib \<Rightarrow> pgsched sched_repo" where
  "pg_sched_repo L = \<lparr>sr_UpsertAll = UpsertAll L, sr_Claim = DeleteByScheduledAtBeforeReturning L,
     sr_Delete = DeleteByNotificationID L\<rparr>"

section \<open>The interface's laws\<close>

definition srows_map :: "srow list \<Rightarrow> pending" where
  "srows_map rows = map_of (map (\<lambda>r. (sw_ID r, (sw_At r, sw_Trace r))) rows)"

definition ps_pending :: "pgsched \<Rightarrow> pending" where
  "ps_pending d = srows_map (ps_rows d)"

definition ps_keyed :: "pgsched \<Rightarrow> bool" where
  "ps_keyed d \<longleftrightarrow> distinct (map sw_ID (ps_rows d))"

lemma pg_sched_repo_sel [simp]:
  "sr_UpsertAll (pg_sched_repo L) = UpsertAll L"
  "sr_Claim (pg_sched_repo L) = DeleteByScheduledAtBeforeReturning L"
  "sr_Delete (pg_sched_repo L) = DeleteByNotificationID L"
  by (simp_all add: pg_sched_repo_def)

lemma ps_exec_cases:
  assumes "ps_exec stmt d = (r, d')"
  obtains (failed) e where "r = Inl e" "ps_rows d' = ps_rows d"
    | (ran) x where "r = Inr x" "stmt (ps_rows d) = Inr (x, ps_rows d')"
  using assms
  by (cases r) (auto simp: ps_exec_def Let_def split: option.splits sum.splits prod.splits)

lemma srows_map_None: "srows_map rows k = None \<longleftrightarrow> k \<notin> sw_ID ` set rows"
  by (induction rows) (auto simp: srows_map_def)

lemma srows_map_append: "srows_map (xs @ ys) = srows_map ys ++ srows_map xs"
  by (simp add: srows_map_def)

lemma srows_map_upsert:
  "srows_map (upsert_row r rows) =
     (srows_map rows)(sw_ID r \<mapsto> (sw_At r, case srows_map rows (sw_ID r) of None \<Rightarrow> sw_Trace r | Some (_, tr) \<Rightarrow> tr))"
proof (cases "\<exists>x \<in> set rows. sw_ID x = sw_ID r")
  case True
  then have "srows_map (map (\<lambda>x. if sw_ID x = sw_ID r then x\<lparr>sw_At := sw_At r\<rparr> else x) rows) =
      (srows_map rows)(sw_ID r \<mapsto> (sw_At r, case srows_map rows (sw_ID r) of None \<Rightarrow> sw_Trace r | Some (_, tr) \<Rightarrow> tr))"
  proof (induction rows)
    case (Cons x xs)
    show ?case
    proof (cases "sw_ID x = sw_ID r")
      case True
      show ?thesis
      proof
        fix k
        have "srows_map (map (\<lambda>x. if sw_ID x = sw_ID r then x\<lparr>sw_At := sw_At r\<rparr> else x) xs) k = srows_map xs k"
          if "k \<noteq> sw_ID r"
          using that by (induction xs) (auto simp: srows_map_def)
        with True show "srows_map (map (\<lambda>x. if sw_ID x = sw_ID r then x\<lparr>sw_At := sw_At r\<rparr> else x) (x # xs)) k =
          ((srows_map (x # xs))(sw_ID r \<mapsto> (sw_At r, case srows_map (x # xs) (sw_ID r) of
             None \<Rightarrow> sw_Trace r | Some (_, tr) \<Rightarrow> tr))) k"
          by (simp add: srows_map_def)
      qed
    next
      case False
      with Cons show ?thesis by (auto simp: srows_map_def fun_upd_twist)
    qed
  qed simp
  with True show ?thesis by (simp add: upsert_row_def)
next
  case False
  then have "srows_map rows (sw_ID r) = None" by (auto simp: srows_map_None)
  moreover have "srows_map [r] = [sw_ID r \<mapsto> (sw_At r, sw_Trace r)]" by (simp add: srows_map_def)
  ultimately show ?thesis using False
    by (auto simp: upsert_row_def srows_map_append map_add_def fun_eq_iff split: option.splits)
qed

lemma upsert_one_row:
  "row_of_sched L n = Some r \<Longrightarrow> upsert_one L n (srows_map rows) = srows_map (upsert_row r rows)"
  by (auto simp: row_of_sched_def upsert_one_def srows_map_upsert split: option.splits)

lemma upsert_fold:
  "None \<notin> set (map (row_of_sched L) ns) \<Longrightarrow>
     srows_map (fold upsert_row (somes (map (row_of_sched L) ns)) rows)
       = fold (upsert_one L) ns (srows_map rows)"
proof (induction ns arbitrary: rows)
  case (Cons n ns)
  then obtain r where "row_of_sched L n = Some r" by (cases "row_of_sched L n") auto
  with Cons show ?case by (auto simp: upsert_one_row)
qed simp

lemma upsert_row_distinct:
  "distinct (map sw_ID rows) \<Longrightarrow> distinct (map sw_ID (upsert_row r rows))"
proof -
  have "map (sw_ID \<circ> (\<lambda>x. if sw_ID x = sw_ID r then x\<lparr>sw_At := sw_At r\<rparr> else x)) rows = map sw_ID rows" by simp
  then show "distinct (map sw_ID rows) \<Longrightarrow> distinct (map sw_ID (upsert_row r rows))"
    by (auto simp: upsert_row_def simp del: map_map simp flip: map_map)
qed

lemma upsert_fold_distinct:
  "distinct (map sw_ID rows) \<Longrightarrow> distinct (map sw_ID (fold upsert_row rs rows))"
  by (induction rs arbitrary: rows) (simp_all add: upsert_row_distinct)

lemma sql_upsert_ok:
  assumes "sql_upsert L ns rows = Inr ((), rows')"
  shows "srows_map rows' = fold (upsert_one L) ns (srows_map rows)" "None \<notin> set (sched_keys L ns)"
    "distinct (sched_keys L ns)" "distinct (map sw_ID rows) \<Longrightarrow> distinct (map sw_ID rows')"
proof -
  let ?new = "map (row_of_sched L) ns"
  from assms have new: "None \<notin> set ?new" "distinct (map sw_ID (somes ?new))"
    "rows' = fold upsert_row (somes ?new) rows"
    by (auto simp: sql_upsert_def Let_def split: if_splits)
  from new(1,3) show "srows_map rows' = fold (upsert_one L) ns (srows_map rows)"
    by (simp add: upsert_fold)
  from new(3) show "distinct (map sw_ID rows) \<Longrightarrow> distinct (map sw_ID rows')"
    by (simp add: upsert_fold_distinct)
  from new(1) have keys: "sched_keys L ns = map Some (map sw_ID (somes ?new))"
  proof (induction ns)
    case (Cons n ns)
    then show ?case
      by (auto simp: sched_keys_def row_of_sched_def split: option.splits)
  qed (simp add: sched_keys_def)
  from keys show "None \<notin> set (sched_keys L ns)" by auto
  from keys new(2) show "distinct (sched_keys L ns)" by (simp add: distinct_map inj_on_def)
qed

lemma UpsertAll_cases:
  assumes "UpsertAll L ns d = (r, d')"
  obtains (failed) e where "r = Inl e" "ps_rows d' = ps_rows d"
    | (ran) "r = Inr ()" "sql_upsert L ns (ps_rows d) = Inr ((), ps_rows d')"
proof (cases "ns = []")
  case True
  with assms show ?thesis by (intro ran) (auto simp: UpsertAll_def sql_upsert_def)
next
  case False
  obtain x d1 where x: "ps_exec (sql_upsert L ns) d = (x, d1)" by fastforce
  from x show ?thesis
  proof (cases rule: ps_exec_cases)
    case (failed e)
    with assms False x show ?thesis by (intro that(1)) (auto simp: UpsertAll_def)
  next
    case (ran u)
    with assms False x show ?thesis by (intro that(2)) (auto simp: UpsertAll_def)
  qed
qed

lemma Delete_cases:
  assumes "DeleteByNotificationID L i d = (r, d')"
  obtains (failed) e where "r = Inl e" "ps_rows d' = ps_rows d"
    | (ran) k where "r = Inr ()" "uuid_parse L i = Some k" "ps_rows d' = filter (\<lambda>r. sw_ID r \<noteq> k) (ps_rows d)"
proof -
  obtain x d1 where x: "ps_exec (sql_delete_id L i) d = (x, d1)" by fastforce
  from x show ?thesis
  proof (cases rule: ps_exec_cases)
    case (failed e)
    with assms x show ?thesis by (intro that(1)) (auto simp: DeleteByNotificationID_def)
  next
    case (ran u)
    with assms x show ?thesis
      by (auto simp: DeleteByNotificationID_def sql_delete_id_def intro: that(2) split: option.splits)
  qed
qed

lemma Claim_cases:
  assumes "DeleteByScheduledAtBeforeReturning L t n d = (r, d')"
  obtains (failed) e where "r = Inl e" "ps_rows d' = ps_rows d"
    | (ran) ids where "r = Inr (map (sched_of_row L) (filter (\<lambda>r. sw_ID r \<in> ids) (ps_rows d)))"
        "ps_rows d' = filter (\<lambda>r. sw_ID r \<notin> ids) (ps_rows d)"
        "ids = sw_ID ` set (claimed_rows t (max 1 n) (tape_read (ps_locked d)) (ps_rows d))"
proof -
  let ?d0 = "d\<lparr>ps_locked := tape_next (ps_locked d)\<rparr>"
  have n: "(if n < 1 then 1 else n) = max 1 n" by simp
  obtain x d1 where x: "ps_exec (sql_claim t (max 1 n) (tape_read (ps_locked d))) ?d0 = (x, d1)" by fastforce
  from x show ?thesis
  proof (cases rule: ps_exec_cases)
    case (failed e)
    with assms x show ?thesis
      by (intro that(1)) (auto simp: DeleteByScheduledAtBeforeReturning_def n Let_def)
  next
    case (ran rows)
    from assms x ran(1) have "r = Inr (map (sched_of_row L) rows)" "d' = d1"
      by (simp_all add: DeleteByScheduledAtBeforeReturning_def n Let_def)
    with ran(2) show ?thesis by (intro that(2)) (auto simp: sql_claim_def Let_def)
  qed
qed

lemma srows_map_delete: "srows_map (filter (\<lambda>r. sw_ID r \<notin> ids) rows) = (\<lambda>k. if k \<in> ids then None else srows_map rows k)"
  by (induction rows) (auto simp: srows_map_def)

lemma srows_map_member:
  "distinct (map sw_ID rows) \<Longrightarrow> r \<in> set rows \<Longrightarrow> srows_map rows (sw_ID r) = Some (sw_At r, sw_Trace r)"
  unfolding srows_map_def by (rule map_of_is_SomeI) (simp_all add: comp_def)

text \<open>The rows a claim takes: due, not locked, and no more than the limit.\<close>

lemma claimed_due:
  assumes "r \<in> set (claimed_rows t n busy rows)"
  shows "r \<in> set rows \<and> sw_At r \<le> t \<and> \<not> busy (sw_ID r)"
  using assms by (auto simp: claimed_rows_def dest!: in_set_takeD)

lemma claim_count:
  assumes "distinct (map sw_ID rows)"
  shows "length (filter (\<lambda>r. sw_ID r \<in> sw_ID ` set (claimed_rows t n busy rows)) rows) \<le> nat n"
proof -
  let ?c = "claimed_rows t n busy rows"
  have "length (filter (\<lambda>r. sw_ID r \<in> sw_ID ` set ?c) rows)
      = card (set (map sw_ID (filter (\<lambda>r. sw_ID r \<in> sw_ID ` set ?c) rows)))"
    using assms by (subst distinct_card) (simp_all add: distinct_map_filter)
  also have "\<dots> \<le> card (sw_ID ` set ?c)" by (intro card_mono) auto
  also have "\<dots> \<le> length ?c" using card_image_le [of "set ?c" sw_ID] card_length [of ?c] by simp
  also have "\<dots> \<le> nat n" by (simp add: claimed_rows_def)
  finally show ?thesis .
qed

interpretation pg_sched: schedule_store "pg_sched_repo L" L ps_pending ps_keyed for L
proof
  fix w ns u w'
  assume "ps_keyed w" "sr_UpsertAll (pg_sched_repo L) ns w = (Inr u, w')"
  then show "ps_pending w' = fold (upsert_one L) ns (ps_pending w) \<and> None \<notin> set (sched_keys L ns)
      \<and> distinct (sched_keys L ns)"
    by (auto simp: ps_pending_def sql_upsert_ok elim!: UpsertAll_cases)
next
  fix w t n ns w'
  assume k: "ps_keyed w" and c: "sr_Claim (pg_sched_repo L) t n w = (Inr ns, w')"
  then obtain ids where ns: "ns = map (sched_of_row L) (filter (\<lambda>r. sw_ID r \<in> ids) (ps_rows w))"
    "ps_rows w' = filter (\<lambda>r. sw_ID r \<notin> ids) (ps_rows w)"
    "ids = sw_ID ` set (claimed_rows t (max 1 n) (tape_read (ps_locked w)) (ps_rows w))"
    by (auto elim!: Claim_cases)
  let ?rows = "filter (\<lambda>r. sw_ID r \<in> ids) (ps_rows w)"
  let ?ks = "map sw_ID ?rows"
  have m: "srows_map (ps_rows w) (sw_ID r) = Some (sw_At r, sw_Trace r)" if "r \<in> set (ps_rows w)" for r
    using k that by (simp add: ps_keyed_def srows_map_member)
  have sub: "ids \<subseteq> sw_ID ` set (ps_rows w)" using ns(3) claimed_due by fastforce
  show "\<exists>ks. distinct ks \<and> ns = map (\<lambda>k. sched_of L k (the (ps_pending w k))) ks
      \<and> (\<forall>k \<in> set ks. \<exists>at tr. ps_pending w k = Some (at, tr) \<and> at \<le> t)
      \<and> ps_pending w' = (\<lambda>k. if k \<in> set ks then None else ps_pending w k) \<and> int (length ks) \<le> max 1 n"
  proof (intro exI [of _ ?ks] conjI)
    show "distinct ?ks" using k by (simp add: ps_keyed_def distinct_map_filter)
    show "ns = map (\<lambda>k. sched_of L k (the (ps_pending w k))) ?ks"
      using m by (auto simp: ns(1) ps_pending_def sched_of_row_def)
    show "\<forall>k \<in> set ?ks. \<exists>at tr. ps_pending w k = Some (at, tr) \<and> at \<le> t"
    proof
      fix i
      assume "i \<in> set ?ks"
      then have "i \<in> ids" by auto
      then obtain r where "r \<in> set (claimed_rows t (max 1 n) (tape_read (ps_locked w)) (ps_rows w))" "i = sw_ID r"
        using ns(3) by blast
      with claimed_due m show "\<exists>at tr. ps_pending w i = Some (at, tr) \<and> at \<le> t"
        by (fastforce simp: ps_pending_def)
    qed
    have "set ?ks = ids" using sub by auto
    then show "ps_pending w' = (\<lambda>k. if k \<in> set ?ks then None else ps_pending w k)"
      unfolding ps_pending_def ns(2) srows_map_delete by simp
    show "int (length ?ks) \<le> max 1 n"
      using claim_count [of "ps_rows w" t "max 1 n"] k by (simp add: ns(3) ps_keyed_def nat_le_iff le_nat_iff)
  qed
next
  fix w i u w'
  assume "ps_keyed w" "sr_Delete (pg_sched_repo L) i w = (Inr u, w')"
  then obtain k where "uuid_parse L i = Some k" "ps_rows w' = filter (\<lambda>r. sw_ID r \<notin> {k}) (ps_rows w)"
    by (auto elim!: Delete_cases)
  then show "\<exists>k. uuid_parse L i = Some k \<and> ps_pending w' = (ps_pending w)(k := None)"
    by (intro exI [of _ k]) (simp only: ps_pending_def srows_map_delete, auto)
next
  fix w ns
  assume "ps_keyed w"
  then show "ps_keyed (snd (sr_UpsertAll (pg_sched_repo L) ns w))"
    by (cases "UpsertAll L ns w") (auto simp: ps_keyed_def sql_upsert_ok(4) elim!: UpsertAll_cases)
next
  fix w t n
  assume "ps_keyed w"
  then show "ps_keyed (snd (sr_Claim (pg_sched_repo L) t n w))"
    by (cases "DeleteByScheduledAtBeforeReturning L t n w")
       (auto simp: ps_keyed_def distinct_map_filter elim!: Claim_cases)
next
  fix w i
  assume "ps_keyed w"
  then show "ps_keyed (snd (sr_Delete (pg_sched_repo L) i w))"
    by (cases "DeleteByNotificationID L i w") (auto simp: ps_keyed_def distinct_map_filter elim!: Delete_cases)
qed (auto simp: ps_pending_def elim!: UpsertAll_cases Claim_cases Delete_cases)

end
