(* ===== verification/Scheduler.thy ===== *)
theory Scheduler
  imports SchedRepo Subscriber
begin

text \<open>
  The delivery scheduler: the two consumers of deliveryscheduler/internal/transport/messaging, the
  dispatcher of internal/scheduled_notification_dispatcher, and the service internal/app assembles.
  The dispatcher's lemmas are proved in the locale \<open>scheduler_env\<close> for any repository and batch
  publisher that keep their promises; PostgreSQL and NATS interpret it.
\<close>

section \<open>Consumers\<close>

definition handleScheduledEvents ::
  "'w sched_repo \<Rightarrow> scheduled_event delivered \<Rightarrow> 'w \<Rightarrow> ack \<times> 'w" where
  "handleScheduledEvents R result w =
     (let traceMetadata = ExtractTraceMetadata (rm_Ctx result);
          notifications = map (\<lambda>item. \<lparr>sn_NotificationID = si_NotificationID item,
              sn_ScheduledAt = Some (si_ScheduledAt item), sn_TraceMetadata = traceMetadata\<rparr>)
            (se_Notifications (rm_Event result))
      in case sr_UpsertAll R notifications w of
           (Inl e, w1) \<Rightarrow> (Nak, w1)
         | (Inr _, w1) \<Rightarrow> (Ack, w1))"

definition handleCancelEvent :: "'w sched_repo \<Rightarrow> cancelled_event delivered \<Rightarrow> 'w \<Rightarrow> ack \<times> 'w" where
  "handleCancelEvent R result w =
     (case sr_Delete R (ce_NotificationID (rm_Event result)) w of
        (Inl e, w1) \<Rightarrow> (Nak, w1)
      | (Inr _, w1) \<Rightarrow> (Ack, w1))"

text \<open>\<open>Run\<close> of the two consumers: every message of the channel, the answers recorded.\<close>

definition handled :: "('e delivered \<Rightarrow> 'w \<Rightarrow> ack \<times> 'w) \<Rightarrow> 'e delivered \<Rightarrow> answers \<times> 'w \<Rightarrow> answers \<times> 'w" where
  "handled handle m s = (case handle m (snd s) of (a, w) \<Rightarrow> (fst s @ [(rm_Msg m, a)], w))"

definition scheduled_Run ::
  "'w sched_repo \<Rightarrow> scheduled_event delivered pick list \<Rightarrow> 'w \<Rightarrow> answers \<times> 'w" where
  "scheduled_Run R picks w = ForEach (handled (handleScheduledEvents R)) picks ([], w)"

definition cancel_Run ::
  "'w sched_repo \<Rightarrow> cancelled_event delivered pick list \<Rightarrow> 'w \<Rightarrow> answers \<times> 'w" where
  "cancel_Run R picks w = ForEach (handled (handleCancelEvent R)) picks ([], w)"

section \<open>Dispatcher\<close>

text \<open>\<open>di_now\<close> is the clock, \<open>di_extract\<close> the propagator's \<open>Extract\<close>.\<close>

record 'w dispatcher =
  di_repo :: "'w sched_repo"
  di_pub :: "'w batch_publisher"
  di_batch :: int
  di_now :: "'w \<Rightarrow> time \<times> 'w"
  di_extract :: "trace \<Rightarrow> trace \<Rightarrow> trace"

definition NewScheduledNotificationDispatcher ::
  "'w sched_repo \<Rightarrow> 'w batch_publisher \<Rightarrow> int \<Rightarrow> ('w \<Rightarrow> time \<times> 'w) \<Rightarrow> (trace \<Rightarrow> trace \<Rightarrow> trace) \<Rightarrow> 'w dispatcher"
  where
  "NewScheduledNotificationDispatcher repo pub batch now extract =
     \<lparr>di_repo = repo, di_pub = pub, di_batch = (if batch < 1 then 100 else batch), di_now = now,
      di_extract = extract\<rparr>"

definition due_message :: "(trace \<Rightarrow> trace \<Rightarrow> trace) \<Rightarrow> trace \<Rightarrow> sched \<Rightarrow> trace \<times> json" where
  "due_message extract ctx n =
     (ContextWithTraceMetadata extract ctx (sn_TraceMetadata n),
      due_to_json \<lparr>de_NotificationID = sn_NotificationID n\<rparr>)"

text \<open>
  The loop of \<open>Tick\<close>; None is running out of fuel. The world is the result (the errors are only logged).
\<close>

fun Tick :: "'w dispatcher \<Rightarrow> trace \<Rightarrow> nat \<Rightarrow> 'w \<Rightarrow> 'w option" where
  "Tick D ctx 0 w = None"
| "Tick D ctx (Suc fuel) w =
     (case di_now D w of
        (now, w0) \<Rightarrow>
          (case sr_Claim (di_repo D) now (di_batch D) w0 of
             (Inl e, w1) \<Rightarrow> Some w1
           | (Inr notifications, w1) \<Rightarrow>
               (if notifications = [] then Some w1
                else (let msgs = map (due_message (di_extract D) ctx) notifications
                      in case pub_PublishBatch (di_pub D) ctx TopicScheduledNotificationDue msgs w1 of
                           (Inl e, w2) \<Rightarrow> Some (snd (sr_UpsertAll (di_repo D) notifications w2))
                         | (Inr _, w2) \<Rightarrow> Tick D ctx fuel w2))))"

text \<open>
  The calls of one turn of the loop, each on its own: the claim (no rows end the loop, as an error
  does), the publication, and what follows when it fails.
\<close>

definition tick_claim :: "'w dispatcher \<Rightarrow> 'w \<Rightarrow> sched list \<times> 'w" where
  "tick_claim D w =
     (case di_now D w of
        (now, w0) \<Rightarrow>
          (case sr_Claim (di_repo D) now (di_batch D) w0 of
             (Inl e, w1) \<Rightarrow> ([], w1)
           | (Inr notifications, w1) \<Rightarrow> (notifications, w1)))"

definition tick_publish :: "'w dispatcher \<Rightarrow> trace \<Rightarrow> sched list \<Rightarrow> 'w \<Rightarrow> bool \<times> 'w" where
  "tick_publish D ctx notifications w =
     (case pub_PublishBatch (di_pub D) ctx TopicScheduledNotificationDue
             (map (due_message (di_extract D) ctx) notifications) w of
        (Inl e, w1) \<Rightarrow> (False, w1)
      | (Inr _, w1) \<Rightarrow> (True, w1))"

definition tick_back :: "'w dispatcher \<Rightarrow> sched list \<Rightarrow> 'w \<Rightarrow> 'w" where
  "tick_back D notifications w = snd (sr_UpsertAll (di_repo D) notifications w)"

lemma Tick_calls:
  "Tick D ctx (Suc fuel) w =
     (case tick_claim D w of
        (ns, w1) \<Rightarrow>
          (if ns = [] then Some w1
           else (case tick_publish D ctx ns w1 of
                   (published, w2) \<Rightarrow>
                     (if published then Tick D ctx fuel w2 else Some (tick_back D ns w2)))))"
  by (simp add: tick_claim_def tick_publish_def tick_back_def Let_def split: prod.split sum.split)

section \<open>What the scheduler relies on\<close>

locale scheduler_env =
  schedule_store "di_repo D" L pend wf
  + batch_publisher_port "pub_Publish (di_pub D)" sent "pub_PublishBatch (di_pub D)"
  for D :: "'w dispatcher" and L :: golib
    and pend :: "'w \<Rightarrow> pending" and wf :: "'w \<Rightarrow> bool" and sent :: "'w \<Rightarrow> nats_msg list" +
  assumes batch_frame: "pub_PublishBatch (di_pub D) c subj ms w = (r, w') \<Longrightarrow> pend w' = pend w \<and> wf w' = wf w"
    and upsert_frame: "sr_UpsertAll (di_repo D) ns w = (q, w') \<Longrightarrow> sent w' = sent w"
    and claim_frame: "sr_Claim (di_repo D) t n w = (cl, w') \<Longrightarrow> sent w' = sent w"
    and delete_frame: "sr_Delete (di_repo D) i w = (q, w') \<Longrightarrow> sent w' = sent w"
    and now_frame: "di_now D w = (t, w') \<Longrightarrow> pend w' = pend w \<and> wf w' = wf w \<and> sent w' = sent w"

text \<open>The due event of one identifier, as it is published.\<close>

definition due_nats :: "golib \<Rightarrow> (trace \<Rightarrow> trace \<Rightarrow> trace) \<Rightarrow> trace \<Rightarrow> uuid \<times> metadata \<Rightarrow> nats_msg" where
  "due_nats L extract ctx p =
     nats_message TopicScheduledNotificationDue (ContextWithTraceMetadata extract ctx (snd p))
       (due_to_json \<lparr>de_NotificationID = uuid_text L (fst p)\<rparr>)"

lemma parse_sched_of [simp]:
  "uuid_text_parses L \<Longrightarrow> uuid_parse L (sn_NotificationID (sched_of L k v)) = Some k"
  by (simp add: sched_of_def uuid_text_parses_def)

lemma subseq_of_map: "subseq ys (map f xs) \<Longrightarrow> \<exists>zs. subseq zs xs \<and> ys = map f zs"
  by (auto simp: subseq_conv_nths nths_map)

lemma upsert_back:
  assumes "uuid_text_parses L" "distinct ks" "\<forall>k \<in> set ks. m k = None"
  shows "fold (upsert_one L) (map (\<lambda>k. sched_of L k (v k)) ks) m
    = (\<lambda>k. if k \<in> set ks then Some (v k) else m k)"
  using assms(2,3)
proof (induction ks arbitrary: m)
  case (Cons k ks)
  have "upsert_one L (sched_of L k (v k)) m = m(k \<mapsto> v k)"
    using Cons.prems assms(1) by (simp add: upsert_one_def) (simp add: sched_of_def)
  then have "fold (upsert_one L) (map (\<lambda>k. sched_of L k (v k)) (k # ks)) m
      = fold (upsert_one L) (map (\<lambda>k. sched_of L k (v k)) ks) (m(k \<mapsto> v k))" by simp
  also have "\<dots> = (\<lambda>x. if x \<in> set ks then Some (v x) else (m(k \<mapsto> v k)) x)"
    using Cons.prems by (intro Cons.IH) auto
  finally show ?case using Cons.prems by (auto simp: fun_eq_iff)
qed simp

context scheduler_env
begin

text \<open>The world results from an upsert that failed to put rows back.\<close>

definition put_back_failed :: "uuid set \<Rightarrow> 'w \<Rightarrow> bool" where
  "put_back_failed lost w' \<longleftrightarrow>
     (\<exists>ks vs v e. set ks \<supseteq> lost \<and> distinct ks
        \<and> sr_UpsertAll (di_repo D) (map (\<lambda>k. sched_of L k (vs k)) ks) v = (Inl e, w'))"

text \<open>
  A tick that ends: the rows it took out are exactly those whose due events it appended to the stream,
  each once, except after a failed publish, where the last batch is back in the store unless putting
  it back failed.
\<close>

lemma tick_cases:
  assumes ids_parse: "uuid_text_parses L" and "wf w" "Tick D ctx fuel w = Some w'"
  shows "\<exists>ks ms lost. wf w' \<and> distinct ks \<and> (\<forall>k \<in> set ks. pend w k \<noteq> None)
    \<and> sent w' = sent w @ map (due_nats L (di_extract D) ctx) (map (\<lambda>k. (k, snd (the (pend w k)))) ks)
        @ map (due_nats L (di_extract D) ctx) (map (\<lambda>k. (k, snd (the (pend w k)))) ms)
    \<and> set ms \<inter> set ks = {} \<and> (\<forall>k \<in> set ms. pend w k \<noteq> None)
    \<and> lost \<inter> set ks = {} \<and> (\<forall>k. pend w' k = (if k \<in> set ks \<union> lost then None else pend w k))
    \<and> (lost \<noteq> {} \<longrightarrow> put_back_failed lost w')"
  using assms(2,3)
proof (induction fuel arbitrary: w)
  case (Suc fuel)
  obtain now w0 where w0: "di_now D w = (now, w0)" by fastforce
  note nf = now_frame [OF w0]
  obtain cl w1 where w1: "sr_Claim (di_repo D) now (di_batch D) w0 = (cl, w1)" by fastforce
  note cf = claim_frame [OF w1]
  have wf1: "wf w1" using wf_claim [of w0 now "di_batch D"] nf Suc.prems(1) w1 by simp
  show ?case
  proof (cases cl)
    case (Inl e)
    with claim_err w1 have "pend w1 = pend w0" by blast
    moreover have "w' = w1" using Suc.prems(2) w0 w1 Inl by simp
    ultimately show ?thesis using nf cf wf1
      by (intro exI [of _ "[]"] exI [of _ "{}"]) simp
  next
    case (Inr ns)
    have pw: "pend w0 = pend w" "wf w0" using nf Suc.prems(1) by simp_all
    from claim_ok [OF pw(2) w1 [unfolded Inr]] obtain ks where ks: "distinct ks"
      "ns = map (\<lambda>k. sched_of L k (the (pend w k))) ks"
      "\<forall>k \<in> set ks. \<exists>at tr. pend w k = Some (at, tr) \<and> at \<le> now"
      "pend w1 = (\<lambda>k. if k \<in> set ks then None else pend w k)" unfolding pw(1) by blast
    show ?thesis
    proof (cases "ns = []")
      case True
      with Suc.prems(2) w0 w1 Inr ks nf cf wf1 show ?thesis
        by (intro exI [of _ "[]"] exI [of _ "{}"]) simp
    next
      case False
      let ?msgs = "map (due_message (di_extract D) ctx) ns"
      have msgs: "map (\<lambda>(c, j). nats_message TopicScheduledNotificationDue c j) ?msgs
          = map (due_nats L (di_extract D) ctx) (map (\<lambda>k. (k, snd (the (pend w k)))) ks)"
        by (simp add: ks(2) due_message_def due_nats_def sched_of_def)
      obtain pb w2 where w2: "pub_PublishBatch (di_pub D) ctx TopicScheduledNotificationDue ?msgs w1 = (pb, w2)"
        by fastforce
      note bf = batch_frame [OF w2]
      show ?thesis
      proof (cases pb)
        case (Inl e)
        from publish_batch_err [OF w2 [unfolded Inl]] obtain ms' where ms': "subseq ms' ?msgs"
          "sent w2 = sent w1 @ map (\<lambda>(c, j). nats_message TopicScheduledNotificationDue c j) ms'" by blast
        obtain ms where ms: "subseq ms ks" "ms' = map (due_message (di_extract D) ctx) (map (\<lambda>k. sched_of L k (the (pend w k))) ms)"
          using subseq_of_map [of ms' "\<lambda>k. due_message (di_extract D) ctx (sched_of L k (the (pend w k)))" ks]
            ms'(1) unfolding ks(2) by (auto simp: comp_def)
        have sent2: "sent w2 = sent w1 @ map (due_nats L (di_extract D) ctx) (map (\<lambda>k. (k, snd (the (pend w k)))) ms)"
          by (simp add: ms' ms(2) due_message_def due_nats_def sched_of_def)
        obtain up w3 where w3: "sr_UpsertAll (di_repo D) ns w2 = (up, w3)" by fastforce
        have w': "w' = w3" using Suc.prems(2) w0 w1 Inr False w2 Inl w3 by (simp add: Let_def)
        have wf3: "wf w3" using wf_upsert [of w2 ns] bf wf1 w3 by simp
        have sub: "set ms \<subseteq> set ks" using ms(1) by (auto simp: subseq_conv_nths set_nths)
        have msin: "\<forall>k \<in> set ms. pend w k \<noteq> None" using sub ks(3) by fastforce
        show ?thesis
        proof (cases up)
          case (Inl e')
          with upsert_err w3 have "pend w3 = pend w2" by blast
          moreover have "put_back_failed (set ks) w3"
            unfolding put_back_failed_def using w3 Inl ks(1) ks(2)
            by (intro exI [of _ ks] exI [of _ "\<lambda>k. the (pend w k)"] exI [of _ w2] exI [of _ e']) simp
          ultimately have "pend w3 = pend w2" "put_back_failed (set ks) w3" by simp_all
          with w' wf3 sent2 sub msin ks bf cf nf upsert_frame [OF w3] Inl w3 show ?thesis
            by - (rule exI [of _ "[]"], rule exI [of _ ms], rule exI [of _ "set ks"], auto)
        next
          case U: (Inr u)
          have "pend w3 = fold (upsert_one L) ns (pend w2)"
            using upsert_ok [OF _ w3 [unfolded U]] bf wf1 by simp
          also have "\<dots> = (\<lambda>k. if k \<in> set ks then Some (the (pend w k)) else pend w2 k)"
            unfolding ks(2) using ids_parse ks(1) bf ks(4)
            by (intro upsert_back) auto
          finally have "pend w3 k = pend w k" for k using ks(3,4) bf by (auto split: if_splits)
          with w' wf3 sent2 sub msin cf nf upsert_frame [OF w3] show ?thesis
            by - (rule exI [of _ "[]"], rule exI [of _ ms], rule exI [of _ "{}"], auto)
        qed
      next
        case P: (Inr u)
        from publish_batch_ok [OF w2 [unfolded P]] have sent2: "sent w2 = sent w1 @
            map (due_nats L (di_extract D) ctx) (map (\<lambda>k. (k, snd (the (pend w k)))) ks)"
          unfolding msgs by simp
        have "Tick D ctx fuel w2 = Some w'" using Suc.prems(2) w0 w1 Inr False w2 P by (simp add: Let_def)
        moreover have "wf w2" using bf wf1 by simp
        ultimately obtain ks2 ms lost where IH: "wf w'" "distinct ks2"
          "\<forall>k \<in> set ks2. pend w2 k \<noteq> None"
          "sent w' = sent w2 @ map (due_nats L (di_extract D) ctx) (map (\<lambda>k. (k, snd (the (pend w2 k)))) ks2)
             @ map (due_nats L (di_extract D) ctx) (map (\<lambda>k. (k, snd (the (pend w2 k)))) ms)"
          "set ms \<inter> set ks2 = {}" "\<forall>k \<in> set ms. pend w2 k \<noteq> None" "lost \<inter> set ks2 = {}"
          "\<forall>k. pend w' k = (if k \<in> set ks2 \<union> lost then None else pend w2 k)"
          "lost \<noteq> {} \<longrightarrow> put_back_failed lost w'"
          using Suc.IH [of w2] by (elim meta_impE exE conjE) blast+
        have old: "pend w2 k = pend w k" "k \<notin> set ks" if "pend w2 k \<noteq> None" for k
          using that bf ks(4) by (auto split: if_splits)
        have same: "map (\<lambda>k. (k, snd (the (pend w2 k)))) xs = map (\<lambda>k. (k, snd (the (pend w k)))) xs"
          if "\<forall>k \<in> set xs. pend w2 k \<noteq> None" for xs
          using that old(1) by simp
        have disj: "set ks \<inter> set ks2 = {}" "set ks \<inter> set ms = {}" using IH(3,6) old(2) by auto
        show ?thesis
        proof (intro exI conjI)
          show "wf w'" by (rule IH(1))
          show "distinct (ks @ ks2)" using ks(1) IH(2) disj by simp
          show "\<forall>k \<in> set (ks @ ks2). pend w k \<noteq> None" using ks(3) IH(3) old(1) by fastforce
          show "sent w' = sent w @
              map (due_nats L (di_extract D) ctx) (map (\<lambda>k. (k, snd (the (pend w k)))) (ks @ ks2)) @
              map (due_nats L (di_extract D) ctx) (map (\<lambda>k. (k, snd (the (pend w k)))) ms)"
            using IH(4) sent2 cf nf same [OF IH(3)] same [OF IH(6)] by simp
          show "set ms \<inter> set (ks @ ks2) = {}" using IH(5) disj by auto
          show "\<forall>k \<in> set ms. pend w k \<noteq> None" using IH(6) old(1) by fastforce
          show "(lost - set ks) \<inter> set (ks @ ks2) = {}" using IH(7) by auto
          show "\<forall>k. pend w' k = (if k \<in> set (ks @ ks2) \<union> (lost - set ks) then None else pend w k)"
            using IH(8) bf ks(4) by auto
          show "lost - set ks \<noteq> {} \<longrightarrow> put_back_failed (lost - set ks) w'"
            using IH(9) unfolding put_back_failed_def by blast
        qed
      qed
    qed
  qed
qed simp

end

section \<open>The service\<close>

record sched_world =
  sd_db :: pgsched
  sd_nats :: nats
  sd_clock :: "time tape"

definition set_sched :: "pgsched \<Rightarrow> sched_world \<Rightarrow> sched_world" where
  "set_sched d w = w\<lparr>sd_db := d\<rparr>"

definition set_sched_nats :: "nats \<Rightarrow> sched_world \<Rightarrow> sched_world" where
  "set_sched_nats s w = w\<lparr>sd_nats := s\<rparr>"

definition sched_now :: "sched_world \<Rightarrow> time \<times> sched_world" where
  "sched_now w = (tape_read (sd_clock w), w\<lparr>sd_clock := tape_next (sd_clock w)\<rparr>)"

definition sched_repo :: "golib \<Rightarrow> sched_world sched_repo" where
  "sched_repo L = \<lparr>
     sr_UpsertAll = (\<lambda>ns. on_part sd_db set_sched (sr_UpsertAll (pg_sched_repo L) ns)),
     sr_Claim = (\<lambda>t n. on_part sd_db set_sched (sr_Claim (pg_sched_repo L) t n)),
     sr_Delete = (\<lambda>i. on_part sd_db set_sched (sr_Delete (pg_sched_repo L) i))\<rparr>"

definition sched_publisher :: "sched_world batch_publisher" where
  "sched_publisher = \<lparr>
     pub_Publish = (\<lambda>c t j. on_part sd_nats set_sched_nats (pub_Publish nats_publisher c t j)),
     pub_PublishBatch = (\<lambda>c t ms. on_part sd_nats set_sched_nats (pub_PublishBatch nats_publisher c t ms))\<rparr>"

definition sched_dispatcher ::
  "golib \<Rightarrow> int \<Rightarrow> (trace \<Rightarrow> trace \<Rightarrow> trace) \<Rightarrow> sched_world dispatcher" where
  "sched_dispatcher L batch extract =
     NewScheduledNotificationDispatcher (sched_repo L) sched_publisher batch sched_now extract"

definition sched_pending :: "sched_world \<Rightarrow> pending" where
  "sched_pending w = ps_pending (sd_db w)"

definition sched_keyed :: "sched_world \<Rightarrow> bool" where
  "sched_keyed w = ps_keyed (sd_db w)"

definition sched_stream :: "sched_world \<Rightarrow> nats_msg list" where
  "sched_stream w = na_log (sd_nats w)"

lemma sched_parts [simp]:
  "sd_db (set_sched d w) = d" "sd_nats (set_sched d w) = sd_nats w" "sd_clock (set_sched d w) = sd_clock w"
  "sd_nats (set_sched_nats s w) = s" "sd_db (set_sched_nats s w) = sd_db w"
  "sd_clock (set_sched_nats s w) = sd_clock w"
  by (simp_all add: set_sched_def set_sched_nats_def)

lemma sched_dispatcher_sel [simp]:
  "di_repo (sched_dispatcher L batch extract) = sched_repo L"
  "pub_Publish (di_pub (sched_dispatcher L batch extract)) = (\<lambda>c t j. on_part sd_nats set_sched_nats (Publish c t j))"
  "pub_PublishBatch (di_pub (sched_dispatcher L batch extract))
     = (\<lambda>c t ms. on_part sd_nats set_sched_nats (PublishBatch c t ms))"
  "di_now (sched_dispatcher L batch extract) = sched_now"
  "di_extract (sched_dispatcher L batch extract) = extract"
  "di_batch (sched_dispatcher L batch extract) = (if batch < 1 then 100 else batch)"
  by (simp_all add: sched_dispatcher_def NewScheduledNotificationDispatcher_def sched_publisher_def
      nats_publisher_def)

lemma sched_repo_sel [simp]:
  "sr_UpsertAll (sched_repo L) ns = on_part sd_db set_sched (UpsertAll L ns)"
  "sr_Claim (sched_repo L) t n = on_part sd_db set_sched (DeleteByScheduledAtBeforeReturning L t n)"
  "sr_Delete (sched_repo L) i = on_part sd_db set_sched (DeleteByNotificationID L i)"
  by (simp_all add: sched_repo_def)

lemma sched_store: "schedule_store (sched_repo L) L sched_pending sched_keyed"
proof -
  note D = on_partD [where get = sd_db and put = set_sched, OF _ sched_parts(1)]
  show ?thesis
  proof
    fix w ns u w'
    assume "sched_keyed w" "sr_UpsertAll (sched_repo L) ns w = (Inr u, w')"
    then show "sched_pending w' = fold (upsert_one L) ns (sched_pending w) \<and> None \<notin> set (sched_keys L ns)
        \<and> distinct (sched_keys L ns)"
      using pg_sched.upsert_ok by (auto simp: sched_pending_def sched_keyed_def dest!: D)
  next
    fix w t n ns w'
    assume k: "sched_keyed w" and c: "sr_Claim (sched_repo L) t n w = (Inr ns, w')"
    from c have "sr_Claim (pg_sched_repo L) t n (sd_db w) = (Inr ns, sd_db w')" by (auto dest!: D)
    from pg_sched.claim_ok [OF _ this] k
    show "\<exists>ks. distinct ks \<and> ns = map (\<lambda>k. sched_of L k (the (sched_pending w k))) ks
        \<and> (\<forall>k \<in> set ks. \<exists>at tr. sched_pending w k = Some (at, tr) \<and> at \<le> t)
        \<and> sched_pending w' = (\<lambda>k. if k \<in> set ks then None else sched_pending w k) \<and> int (length ks) \<le> max 1 n"
      unfolding sched_pending_def sched_keyed_def by blast
  next
    fix w i u w'
    assume "sched_keyed w" "sr_Delete (sched_repo L) i w = (Inr u, w')"
    then show "\<exists>k. uuid_parse L i = Some k \<and> sched_pending w' = (sched_pending w)(k := None)"
      using pg_sched.delete_ok by (auto simp: sched_pending_def sched_keyed_def dest!: D)
  next
    fix ns w e w'
    assume "sr_UpsertAll (sched_repo L) ns w = (Inl e, w')"
    then show "sched_pending w' = sched_pending w"
      using pg_sched.upsert_err by (auto simp: sched_pending_def dest!: D)
  next
    fix t n w e w'
    assume "sr_Claim (sched_repo L) t n w = (Inl e, w')"
    then show "sched_pending w' = sched_pending w"
      using pg_sched.claim_err by (auto simp: sched_pending_def dest!: D)
  next
    fix i w e w'
    assume "sr_Delete (sched_repo L) i w = (Inl e, w')"
    then show "sched_pending w' = sched_pending w"
      using pg_sched.delete_err by (auto simp: sched_pending_def dest!: D)
  qed (auto simp: sched_keyed_def intro: pg_sched.wf_upsert [of _ L, simplified]
      pg_sched.wf_claim [of _ L, simplified] pg_sched.wf_delete [of _ L, simplified])
qed

interpretation ds: scheduler_env "sched_dispatcher L batch ext" L sched_pending sched_keyed sched_stream
  for L batch ext
proof (intro scheduler_env.intro scheduler_env_axioms.intro)
  show "schedule_store (di_repo (sched_dispatcher L batch ext)) L sched_pending sched_keyed"
    by (simp add: sched_store)
  show "batch_publisher_port (pub_Publish (di_pub (sched_dispatcher L batch ext))) sched_stream
      (pub_PublishBatch (di_pub (sched_dispatcher L batch ext)))"
    unfolding sched_dispatcher_sel sched_stream_def [abs_def]
    by (intro batch_publisher_port_on_part nats_pub.batch_publisher_port_axioms) simp
qed (auto simp: sched_pending_def sched_keyed_def sched_stream_def on_part_eq sched_now_def)

section \<open>Termination and quiet runs\<close>

text \<open>
  A world in which the database answers; and one in which nothing goes wrong any more, at time
  \<open>T\<close>, whatever went wrong before.
\<close>

definition db_answers :: "sched_world \<Rightarrow> bool" where
  "db_answers w \<longleftrightarrow> (\<forall>k. tape_fun (ps_faults (sd_db w)) k = None)"

definition quiet :: "time \<Rightarrow> sched_world \<Rightarrow> bool" where
  "quiet T w \<longleftrightarrow> constantly None (ps_faults (sd_db w)) \<and> sched_keyed w \<and> constantly (\<lambda>_. False) (ps_locked (sd_db w))
     \<and> constantly PubAck (na_replies (sd_nats w)) \<and> steady (\<lambda>ok. ok) (na_waits (sd_nats w))
     \<and> constantly T (sd_clock w)"

lemma ps_exec_tapes:
  "ps_faults (snd (ps_exec stmt d)) = tape_next (ps_faults d)"
  "ps_locked (snd (ps_exec stmt d)) = ps_locked d"
  by (auto simp: ps_exec_def Let_def split: option.splits sum.splits)

lemma claim_tapes:
  assumes "DeleteByScheduledAtBeforeReturning L t n d = (r, d')"
  shows "ps_faults d' = tape_next (ps_faults d)" "ps_locked d' = tape_next (ps_locked d)"
proof -
  let ?d = "d\<lparr>ps_locked := tape_next (ps_locked d)\<rparr>"
  let ?stmt = "sql_claim t (if n < 1 then 1 else n) (tape_read (ps_locked d))"
  obtain x d1 where x: "ps_exec ?stmt ?d = (x, d1)" by fastforce
  with assms have "d' = d1" by (cases x) (simp_all add: DeleteByScheduledAtBeforeReturning_def Let_def)
  then have "d' = snd (ps_exec ?stmt ?d)" using x by simp
  then show "ps_faults d' = tape_next (ps_faults d)" "ps_locked d' = tape_next (ps_locked d)"
    by (simp_all add: ps_exec_tapes)
qed

lemma upsert_tapes:
  "tape_fun (ps_faults (snd (UpsertAll L ns d))) = tape_fun (ps_faults d)"
  using ps_exec_tapes(1) [of "sql_upsert L ns" d]
  by (auto simp: UpsertAll_def split: prod.splits sum.splits)

lemma claim_answers:
  assumes "constantly None (ps_faults d)"
  shows "\<exists>ns d'. DeleteByScheduledAtBeforeReturning L t n d = (Inr ns, d')"
  using assms
  by (simp add: DeleteByScheduledAtBeforeReturning_def ps_exec_def sql_claim_def constantly_read Let_def)

lemma upsert_answers:
  assumes "constantly None (ps_faults d)" "None \<notin> set (map (row_of_sched L) ns)"
    and "distinct (map sw_ID (somes (map (row_of_sched L) ns)))"
  shows "\<exists>d'. UpsertAll L ns d = (Inr (), d')"
  using assms by (auto simp: UpsertAll_def ps_exec_def sql_upsert_def constantly_read Let_def)

lemma claim_empty:
  assumes "DeleteByScheduledAtBeforeReturning L t n d = (Inr [], d')" "tape_read (ps_locked d) = (\<lambda>_. False)"
  shows "\<forall>k at tr. ps_pending d k = Some (at, tr) \<longrightarrow> t < at"
proof (rule ccontr)
  assume "\<not> (\<forall>k at tr. ps_pending d k = Some (at, tr) \<longrightarrow> t < at)"
  then obtain k at tr where "ps_pending d k = Some (at, tr)" "at \<le> t" by force
  then obtain r where r: "r \<in> set (ps_rows d)" "sw_At r \<le> t"
    by (auto simp: ps_pending_def srows_map_def dest!: map_of_SomeD)
  let ?due = "sort_key sw_At (filter (\<lambda>r. sw_At r \<le> t) (ps_rows d))"
  have "?due \<noteq> []" using r by (auto simp: filter_empty_conv simp flip: set_empty)
  then have "claimed_rows t (max 1 n) (\<lambda>_. False) (ps_rows d) \<noteq> []" by (simp add: claimed_rows_def)
  then obtain r' where r': "r' \<in> set (claimed_rows t (max 1 n) (\<lambda>_. False) (ps_rows d))" by (meson list.set_sel(1))
  then have "r' \<in> set (ps_rows d)" using claimed_due by blast
  with assms r' show False
    by (elim Claim_cases) (auto simp: filter_empty_conv)
qed

lemma tick_decreases:
  assumes "DeleteByScheduledAtBeforeReturning L t n d = (Inr ns, d')"
  shows "length (ps_rows d') + length ns = length (ps_rows d)"
  using assms by (elim Claim_cases) (auto simp: sum_length_filter_compl add.commute)

text \<open>Every turn of the loop removes a row, so one turn more than there are rows is enough.\<close>

lemma tick_ends:
  "length (ps_rows (sd_db w)) < fuel \<Longrightarrow> \<exists>w'. Tick (sched_dispatcher L batch extract) ctx fuel w = Some w'"
proof (induction fuel arbitrary: w)
  case (Suc fuel)
  let ?D = "sched_dispatcher L batch extract"
  obtain now w0 where w0: "di_now ?D w = (now, w0)" by fastforce
  have db0: "sd_db w0 = sd_db w" using w0 by (auto simp: sched_now_def)
  obtain cl d1 where d1: "DeleteByScheduledAtBeforeReturning L now (di_batch ?D) (sd_db w0) = (cl, d1)" by fastforce
  have claim: "sr_Claim (di_repo ?D) now (di_batch ?D) w0 = (cl, set_sched d1 w0)" using d1 by (simp add: on_part_eq)
  show ?case
  proof (cases cl)
    case (Inl e)
    with w0 claim show ?thesis by simp
  next
    case (Inr ns)
    show ?thesis
    proof (cases "ns = []")
      case True
      with w0 claim Inr show ?thesis by simp
    next
      case False
      obtain pb w2 where w2: "pub_PublishBatch (di_pub ?D) ctx TopicScheduledNotificationDue
          (map (due_message (di_extract ?D) ctx) ns) (set_sched d1 w0) = (pb, w2)" by fastforce
      then have db2: "sd_db w2 = d1" by (auto simp: on_part_eq)
      show ?thesis
      proof (cases pb)
        case (Inl e)
        with w0 claim Inr False w2 show ?thesis by (simp add: Let_def)
      next
        case P: (Inr u)
        have "length (ps_rows (sd_db w2)) < fuel"
          using tick_decreases [OF d1 [unfolded Inr]] Suc.prems False by (simp add: db2 db0 flip: length_greater_0_conv)
        then obtain w' where "Tick ?D ctx fuel w2 = Some w'" using Suc.IH by blast
        with w0 claim Inr False w2 P show ?thesis by (simp add: Let_def)
      qed
    qed
  qed
qed simp

lemma tick_answers:
  "db_answers w \<Longrightarrow> Tick (sched_dispatcher L batch extract) ctx fuel w = Some w' \<Longrightarrow> db_answers w'"
proof (induction fuel arbitrary: w)
  case (Suc fuel)
  let ?D = "sched_dispatcher L batch extract"
  obtain now w0 where w0: "di_now ?D w = (now, w0)" by fastforce
  have db0: "sd_db w0 = sd_db w" using w0 by (auto simp: sched_now_def)
  obtain cl d1 where d1: "DeleteByScheduledAtBeforeReturning L now (di_batch ?D) (sd_db w0) = (cl, d1)" by fastforce
  have claim: "sr_Claim (di_repo ?D) now (di_batch ?D) w0 = (cl, set_sched d1 w0)" using d1 by (simp add: on_part_eq)
  have a1: "db_answers (set_sched d1 w0)"
    using claim_tapes(1) [OF d1] Suc.prems(1) by (simp add: db_answers_def db0)
  show ?case
  proof (cases cl)
    case (Inl e)
    with Suc.prems(2) w0 claim a1 show ?thesis by simp
  next
    case (Inr ns)
    show ?thesis
    proof (cases "ns = []")
      case True
      with Suc.prems(2) w0 claim Inr a1 show ?thesis by simp
    next
      case False
      obtain pb w2 where w2: "pub_PublishBatch (di_pub ?D) ctx TopicScheduledNotificationDue
          (map (due_message (di_extract ?D) ctx) ns) (set_sched d1 w0) = (pb, w2)" by fastforce
      then have a2: "db_answers w2" using a1 by (auto simp: on_part_eq db_answers_def)
      show ?thesis
      proof (cases pb)
        case (Inl e)
        with Suc.prems(2) w0 claim Inr False w2
        have "w' = set_sched (snd (UpsertAll L ns (sd_db w2))) w2" by (simp add: Let_def)
        with a2 show ?thesis by (simp add: db_answers_def upsert_tapes)
      next
        case P: (Inr u)
        with Suc.prems(2) w0 claim Inr False w2 have "Tick ?D ctx fuel w2 = Some w'" by (simp add: Let_def)
        with Suc.IH a2 show ?thesis by blast
      qed
    qed
  qed
qed simp

text \<open>With a database that answers nothing fails to be put back.\<close>

lemma sched_of_rows:
  assumes "uuid_text_parses L"
  shows "map (row_of_sched L) (map (\<lambda>k. sched_of L k (vs k)) ks)
    = map Some (map (\<lambda>k. \<lparr>sw_ID = k, sw_At = fst (vs k), sw_Trace = snd (vs k)\<rparr>) ks)"
  using assms by (simp add: row_of_sched_def sched_of_def uuid_text_parses_def)

lemma put_back_succeeds:
  assumes "uuid_text_parses L" "db_answers w'"
  shows "\<not> ds.put_back_failed L batch ext lost w'"
proof
  assume "ds.put_back_failed L batch ext lost w'"
  then obtain ks vs v e where f: "distinct ks"
    "sr_UpsertAll (sched_repo L) (map (\<lambda>k. sched_of L k (vs k)) ks) v = (Inl e, w')"
    by (auto simp: ds.put_back_failed_def simp del: sched_repo_sel)
  let ?ns = "map (\<lambda>k. sched_of L k (vs k)) ks"
  obtain r d where r: "UpsertAll L ?ns (sd_db v) = (r, d)" by fastforce
  with f(2) have d: "r = Inl e" "sd_db w' = d" by (auto simp: on_part_eq)
  have "constantly None (ps_faults (sd_db v))"
    using assms(2) upsert_tapes [of L ?ns "sd_db v"] r d by (simp add: db_answers_def steady_def)
  moreover have "None \<notin> set (map (row_of_sched L) ?ns)"
    "distinct (map sw_ID (somes (map (row_of_sched L) ?ns)))"
    unfolding sched_of_rows [OF assms(1)] somes_map_Some using f(1) by (auto simp: comp_def)
  ultimately obtain d' where "UpsertAll L ?ns (sd_db v) = (Inr (), d')" using upsert_answers by blast
  with r d show False by simp
qed

lemma publish_async_acks:
  "constantly PubAck (na_replies s) \<Longrightarrow>
     \<exists>fs s'. publish_async t ms s = (Inr fs, s') \<and> somes fs = [] \<and> na_waits s' = na_waits s
       \<and> constantly PubAck (na_replies s')"
proof (induction ms arbitrary: s)
  case (Cons m ms)
  obtain c j where m: "m = (c, j)" by (cases m)
  obtain s1 where n: "next_reply s = (PubAck, s1)" "constantly PubAck (na_replies s1)" "na_waits s1 = na_waits s"
    using Cons.prems by (simp add: next_reply_def constantly_read)
  let ?s = "store_msg (nats_message t c j) s1"
  have "constantly PubAck (na_replies ?s)" using n(2) by (simp add: store_msg_def)
  from Cons.IH [OF this] obtain fs s' where "publish_async t ms ?s = (Inr fs, s')" "somes fs = []"
    "na_waits s' = na_waits ?s" "constantly PubAck (na_replies s')" by blast
  moreover have "na_waits ?s = na_waits s" using n(3) by (simp add: store_msg_def)
  ultimately show ?case using n(1) m by simp
qed simp

lemma publish_batch_acks:
  assumes "constantly PubAck (na_replies s)" "steady (\<lambda>ok. ok) (na_waits s)"
  shows "\<exists>s'. PublishBatch c t ms s = (Inr (), s') \<and> constantly PubAck (na_replies s')
    \<and> steady (\<lambda>ok. ok) (na_waits s')"
proof (cases "ms = []")
  case False
  obtain fs s1 where p: "publish_async t ms s = (Inr fs, s1)" "somes fs = []" "na_waits s1 = na_waits s"
    "constantly PubAck (na_replies s1)" using publish_async_acks [OF assms(1)] by blast
  have "tape_read (na_waits s1)" using steady_read [OF assms(2)] p(3) by simp
  with p False assms(2) show ?thesis by (simp add: PublishBatch_def errors_join_def Let_def)
qed (use assms in \<open>simp add: PublishBatch_def\<close>)

text \<open>A quiet tick publishes every due row once and removes it, and leaves things quiet.\<close>

lemma quiet_tick:
  assumes "quiet T w" "Tick (sched_dispatcher L batch extract) ctx fuel w = Some w'"
  shows "\<exists>ks. distinct ks \<and> set ks = {k. \<exists>at tr. sched_pending w k = Some (at, tr) \<and> at \<le> T}
    \<and> sched_stream w' = sched_stream w
        @ map (due_nats L extract ctx) (map (\<lambda>k. (k, snd (the (sched_pending w k)))) ks)
    \<and> sched_pending w' = (\<lambda>k. if k \<in> set ks then None else sched_pending w k) \<and> quiet T w'"
  using assms
proof (induction fuel arbitrary: w)
  case (Suc fuel)
  let ?D = "sched_dispatcher L batch extract"
  have q: "constantly None (ps_faults (sd_db w))" "sched_keyed w" "constantly (\<lambda>_. False) (ps_locked (sd_db w))"
    "constantly PubAck (na_replies (sd_nats w))" "steady (\<lambda>ok. ok) (na_waits (sd_nats w))"
    "constantly T (sd_clock w)"
    using Suc.prems(1) by (simp_all add: quiet_def)
  define w0 where "w0 = w\<lparr>sd_clock := tape_next (sd_clock w)\<rparr>"
  have w0: "di_now ?D w = (T, w0)" using q(6) by (simp add: sched_now_def constantly_read w0_def)
  have p0: "sd_db w0 = sd_db w" "sd_nats w0 = sd_nats w" by (simp_all add: w0_def)
  obtain ns d1 where d1: "DeleteByScheduledAtBeforeReturning L T (di_batch ?D) (sd_db w) = (Inr ns, d1)"
    using claim_answers [of "sd_db w" L T "di_batch ?D"] q(1) by blast
  define w1 where "w1 = set_sched d1 w0"
  have claim: "sr_Claim (di_repo ?D) T (di_batch ?D) w0 = (Inr ns, w1)"
    using d1 by (simp add: on_part_eq p0 w1_def)
  have pend0: "sched_pending w0 = sched_pending w" "sched_keyed w0"
    using p0 q(2) by (simp_all add: sched_pending_def sched_keyed_def)
  from ds.claim_ok [of w0 L batch "extract", OF pend0(2) claim] obtain ks where ks: "distinct ks"
    "ns = map (\<lambda>k. sched_of L k (the (sched_pending w k))) ks"
    "\<forall>k \<in> set ks. \<exists>at tr. sched_pending w k = Some (at, tr) \<and> at \<le> T"
    "sched_pending w1 = (\<lambda>k. if k \<in> set ks then None else sched_pending w k)"
    unfolding pend0(1) by blast
  have k1: "ps_keyed d1"
    using pg_sched.wf_claim [of "sd_db w" L T "di_batch ?D"] d1 q(2) by (simp add: sched_keyed_def)
  have q1: "quiet T w1"
    using q claim_tapes [OF d1] k1 by (simp add: quiet_def sched_keyed_def w1_def w0_def set_sched_def)
  show ?case
  proof (cases "ns = []")
    case True
    with claim_empty [of L T "di_batch ?D" "sd_db w" d1] d1 q(3)
    have "\<forall>k at tr. sched_pending w k = Some (at, tr) \<longrightarrow> T < at"
      by (simp add: constantly_read sched_pending_def)
    then have "{k. \<exists>at tr. sched_pending w k = Some (at, tr) \<and> at \<le> T} = {}" by force
    moreover have "w' = w1" using Suc.prems(2) w0 claim True by simp
    ultimately show ?thesis using True ks p0 q1
      by (intro exI [of _ "[]"]) (auto simp: sched_stream_def w1_def)
  next
    case False
    let ?msgs = "map (due_message extract ctx) ns"
    obtain s2 where s2: "PublishBatch ctx TopicScheduledNotificationDue ?msgs (sd_nats w) = (Inr (), s2)"
      "constantly PubAck (na_replies s2)" "steady (\<lambda>ok. ok) (na_waits s2)"
      using publish_batch_acks [OF q(4,5)] by blast
    define w2 where "w2 = set_sched_nats s2 w1"
    have w2: "pub_PublishBatch (di_pub ?D) ctx TopicScheduledNotificationDue ?msgs w1 = (Inr (), w2)"
      using s2(1) p0 by (simp add: on_part_eq w1_def w2_def)
    have sent2: "sched_stream w2 = sched_stream w
        @ map (due_nats L extract ctx) (map (\<lambda>k. (k, snd (the (sched_pending w k)))) ks)"
      using nats_pub.publish_batch_ok [OF s2(1)]
      by (simp add: sched_stream_def w2_def ks(2) due_message_def due_nats_def sched_of_def)
    have "quiet T w2"
      using q1 s2(2,3) by (simp add: quiet_def sched_keyed_def w2_def set_sched_nats_def)
    moreover have "Tick ?D ctx fuel w2 = Some w'" using Suc.prems(2) w0 claim False w2 by (simp add: Let_def)
    ultimately obtain ks2 where IH: "distinct ks2"
      "set ks2 = {k. \<exists>at tr. sched_pending w2 k = Some (at, tr) \<and> at \<le> T}"
      "sched_stream w' = sched_stream w2
        @ map (due_nats L extract ctx) (map (\<lambda>k. (k, snd (the (sched_pending w2 k)))) ks2)"
      "sched_pending w' = (\<lambda>k. if k \<in> set ks2 then None else sched_pending w2 k)" "quiet T w'"
      using Suc.IH by blast
    have pend2: "sched_pending w2 = sched_pending w1" by (simp add: sched_pending_def w2_def)
    have disj: "k \<notin> set ks" "sched_pending w2 k = sched_pending w k" if "k \<in> set ks2" for k
      using that IH(2) ks(4) pend2 by (auto split: if_splits)
    have "map (\<lambda>k. (k, snd (the (sched_pending w2 k)))) ks2 = map (\<lambda>k. (k, snd (the (sched_pending w k)))) ks2"
      using disj(2) by simp
    with IH(3) sent2 have st: "sched_stream w' = sched_stream w
        @ map (due_nats L extract ctx) (map (\<lambda>k. (k, snd (the (sched_pending w k)))) (ks @ ks2))" by simp
    have "set (ks @ ks2) = {k. \<exists>at tr. sched_pending w k = Some (at, tr) \<and> at \<le> T}"
      using IH(2) ks(3,4) pend2 by (auto split: if_splits)
    moreover have "distinct (ks @ ks2)" using ks(1) IH(1) disj(1) by auto
    moreover have "sched_pending w' = (\<lambda>k. if k \<in> set (ks @ ks2) then None else sched_pending w k)"
      using IH(4) pend2 ks(4) by (auto simp: fun_eq_iff)
    ultimately show ?thesis using st IH(5) by blast
  qed
qed simp

section \<open>Properties\<close>

text \<open>Two rows, one due at time 100, and one event and one cancellation for the first.\<close>

definition sample_sched :: sched_world where
  "sample_sched = \<lparr>
     sd_db = \<lparr>ps_rows = [\<lparr>sw_ID = UUID 1, sw_At = 50, sw_Trace = [(''traceparent'', JStr ''t1'')]\<rparr>,
                       \<lparr>sw_ID = UUID 2, sw_At = 500, sw_Trace = []\<rparr>],
             ps_faults = Tape (\<lambda>_. None) 0, ps_locked = Tape (\<lambda>_ _. False) 0\<rparr>,
     sd_nats = \<lparr>na_log = [], na_replies = Tape (\<lambda>_. PubAck) 0, na_waits = Tape (\<lambda>_. True) 0\<rparr>,
     sd_clock = Tape (\<lambda>_. 100) 0\<rparr>"

lemma sample_quiet: "quiet 100 sample_sched"
  by (simp add: quiet_def db_answers_def sched_keyed_def ps_keyed_def sample_sched_def)

text \<open>
  C24: \<open>Tick\<close> always ends: it takes at least one row from the table per turn, so one turn more than
  there are rows is enough, whatever the database, the broker and the clock answer.
\<close>

theorem tick_terminates:
  assumes "length (ps_rows (sd_db w)) < fuel"
  shows "\<exists>w'. Tick (sched_dispatcher L batch extract) ctx fuel w = Some w'"
  using assms by (rule tick_ends)

theorem tick_terminates_witness:
  "\<exists>w'. Tick (sched_dispatcher sample_lib 1 (\<lambda>p c. c)) [] 3 sample_sched = Some w'"
  by (rule tick_terminates) (simp add: sample_sched_def)



text \<open>
  C26: when nothing fails, one tick publishes the due event of every row whose time has come, each
  exactly once and in the trace context stored with the row, removes exactly those rows, and leaves
  the others alone, whatever the batch size.
\<close>

theorem tick_publishes_all_due:
  assumes "quiet T w" "length (ps_rows (sd_db w)) < fuel"
  shows "\<exists>w' ks. Tick (sched_dispatcher L batch extract) ctx fuel w = Some w' \<and> distinct ks
    \<and> set ks = {k. \<exists>at tr. sched_pending w k = Some (at, tr) \<and> at \<le> T}
    \<and> sched_stream w' = sched_stream w @
        map (\<lambda>k. due_nats L extract ctx (k, snd (the (sched_pending w k)))) ks
    \<and> sched_pending w' = (\<lambda>k. if k \<in> set ks then None else sched_pending w k)"
proof -
  from tick_ends [OF assms(2)] obtain w' where
    t: "Tick (sched_dispatcher L batch extract) ctx fuel w = Some w'" by blast
  from quiet_tick [OF assms(1) this] t show ?thesis by (auto simp: comp_def)
qed

theorem tick_publishes_all_due_witness:
  "\<exists>w' ks. Tick (sched_dispatcher sample_lib 1 (\<lambda>p c. c)) [] 3 sample_sched = Some w' \<and> set ks = {UUID 1} \<and>
     sched_pending w' (UUID 1) = None \<and> sched_pending w' (UUID 2) = Some (500, [])"
proof -
  have l: "length (ps_rows (sd_db sample_sched)) < 3" by (simp add: sample_sched_def)
  have p: "sched_pending sample_sched =
      [UUID 1 \<mapsto> (50, [(''traceparent'', JStr ''t1'')]), UUID 2 \<mapsto> (500, [])]"
    by (auto simp: sched_pending_def ps_pending_def srows_map_def sample_sched_def)
  from tick_publishes_all_due [OF sample_quiet l, of sample_lib 1 "\<lambda>p c. c" "[]"] obtain w' ks where
    t: "Tick (sched_dispatcher sample_lib 1 (\<lambda>p c. c)) [] 3 sample_sched = Some w'"
    "set ks = {k. \<exists>at tr. sched_pending sample_sched k = Some (at, tr) \<and> at \<le> 100}"
    "sched_pending w' = (\<lambda>k. if k \<in> set ks then None else sched_pending sample_sched k)" by blast
  have ks: "set ks = {UUID 1}" unfolding t(2) p by (auto split: if_splits)
  have "sched_pending w' (UUID 1) = None" "sched_pending w' (UUID 2) = Some (500, [])"
    unfolding t(3) ks p by simp_all
  with t(1) ks show ?thesis by blast
qed

text \<open>The rows of a claim: as a set they are the oldest due unlocked rows.\<close>

lemma claimed_are_oldest:
  assumes "c = claimed_rows t n busy rows"
    "r' \<in> set rows" "r' \<notin> set c" "sw_At r' \<le> t" "\<not> busy (sw_ID r')"
  shows "\<forall>r \<in> set c. sw_At r \<le> sw_At r'" and "length c = nat n"
proof -
  let ?due = "sort_key sw_At (filter (\<lambda>r. sw_At r \<le> t \<and> \<not> busy (sw_ID r)) rows)"
  have c: "c = take (nat n) ?due" by (simp add: assms(1) claimed_rows_def)
  have "set ?due = set (take (nat n) ?due) \<union> set (drop (nat n) ?due)"
    by (simp only: append_take_drop_id flip: set_append)
  with assms(2-5) have left: "r' \<in> set (drop (nat n) ?due)" unfolding c by auto
  have "sorted (map sw_At (take (nat n) ?due) @ map sw_At (drop (nat n) ?due))"
    by (simp only: append_take_drop_id sorted_sort_key flip: map_append)
  then have "\<forall>x \<in> set (map sw_At (take (nat n) ?due)). \<forall>y \<in> set (map sw_At (drop (nat n) ?due)). x \<le> y"
    unfolding sorted_append by blast
  with left show "\<forall>r \<in> set c. sw_At r \<le> sw_At r'" unfolding c set_map by blast
  from left have "nat n < length ?due" by (metis drop_eq_Nil empty_iff empty_set leI)
  then show "length c = nat n" unfolding c by simp
qed

lemma claimed_ids:
  assumes "ps_keyed d" "\<forall>r \<in> set c. r \<in> set (ps_rows d)" "ids = sw_ID ` set c"
  shows "set (filter (\<lambda>r. sw_ID r \<in> ids) (ps_rows d)) = set c"
proof -
  have inj: "r = r'" if "r \<in> set (ps_rows d)" "r' \<in> set (ps_rows d)" "sw_ID r = sw_ID r'" for r r'
    using assms(1) that by (auto simp: ps_keyed_def distinct_map inj_on_def)
  with assms(2,3) show ?thesis by fastforce
qed

text \<open>
  C27: a claim takes the oldest rows first: every row it returns is due and not locked by another
  transaction, and no due unlocked row that it leaves is older than one that it takes; it takes at
  most as many as asked for, and leaves none unless it took that many.
\<close>

theorem claim_takes_the_oldest:
  assumes "ps_keyed d" "DeleteByScheduledAtBeforeReturning L t n d = (Inr ns, d')"
  shows "\<exists>taken. ns = map (sched_of_row L) taken \<and> set (ps_rows d) = set taken \<union> set (ps_rows d')
    \<and> set taken \<inter> set (ps_rows d') = {} \<and> int (length taken) \<le> max 1 n
    \<and> (\<forall>r \<in> set taken. sw_At r \<le> t \<and> \<not> tape_read (ps_locked d) (sw_ID r))
    \<and> (\<forall>r \<in> set taken. \<forall>r' \<in> set (ps_rows d').
         sw_At r' \<le> t \<and> \<not> tape_read (ps_locked d) (sw_ID r') \<longrightarrow> sw_At r \<le> sw_At r')
    \<and> ((\<exists>r' \<in> set (ps_rows d'). sw_At r' \<le> t \<and> \<not> tape_read (ps_locked d) (sw_ID r')) \<longrightarrow>
         int (length taken) = max 1 n)"
  using assms(2)
proof (cases rule: Claim_cases)
  case (ran ids)
  let ?busy = "tape_read (ps_locked d)" and ?taken = "filter (\<lambda>r. sw_ID r \<in> ids) (ps_rows d)"
  let ?c = "claimed_rows t (max 1 n) ?busy (ps_rows d)"
  have cset: "set ?taken = set ?c" using claimed_ids [OF assms(1) _ ran(3)] claimed_due by blast
  have "distinct ?c" "distinct ?taken"
    using assms(1) by (auto simp: claimed_rows_def ps_keyed_def distinct_map intro!: distinct_take)
  with cset have len: "length ?taken = length ?c" by (metis distinct_card)
  have left: "(\<forall>r \<in> set ?c. sw_At r \<le> sw_At r') \<and> length ?c = nat (max 1 n)"
    if "r' \<in> set (ps_rows d')" "sw_At r' \<le> t" "\<not> ?busy (sw_ID r')" for r'
  proof -
    have "r' \<in> set (ps_rows d)" "r' \<notin> set ?c" using that(1) ran(2) cset by auto
    from claimed_are_oldest [OF refl this that(2,3)] show ?thesis by simp
  qed
  show ?thesis
  proof (intro exI [of _ ?taken] conjI)
    show "ns = map (sched_of_row L) ?taken" using ran(1) by simp
    show "set (ps_rows d) = set ?taken \<union> set (ps_rows d')" "set ?taken \<inter> set (ps_rows d') = {}"
      using ran(2) by auto
    show "int (length ?taken) \<le> max 1 n" by (simp add: len claimed_rows_def)
    show "\<forall>r \<in> set ?taken. sw_At r \<le> t \<and> \<not> ?busy (sw_ID r)" using cset claimed_due by blast
    show "\<forall>r \<in> set ?taken. \<forall>r' \<in> set (ps_rows d').
         sw_At r' \<le> t \<and> \<not> ?busy (sw_ID r') \<longrightarrow> sw_At r \<le> sw_At r'"
      using left cset by blast
    show "(\<exists>r' \<in> set (ps_rows d'). sw_At r' \<le> t \<and> \<not> ?busy (sw_ID r')) \<longrightarrow> int (length ?taken) = max 1 n"
      using left len by fastforce
  qed
qed simp

theorem claim_takes_the_oldest_witness:
  "\<exists>ns d'. DeleteByScheduledAtBeforeReturning sample_lib 1000 1 (sd_db sample_sched) = (Inr ns, d') \<and>
     length ns = 1 \<and> (\<forall>r \<in> set (ps_rows d'). 50 \<le> sw_At r)"
proof -
  have k: "ps_keyed (sd_db sample_sched)" by (simp add: ps_keyed_def sample_sched_def)
  obtain ns d' where c: "DeleteByScheduledAtBeforeReturning sample_lib 1000 1 (sd_db sample_sched) = (Inr ns, d')"
    using claim_answers [of "sd_db sample_sched" sample_lib 1000 1] by (auto simp: sample_sched_def)
  have b: "tape_read (ps_locked (sd_db sample_sched)) = (\<lambda>_. False)" by (simp add: sample_sched_def)
  from claim_takes_the_oldest [OF k c] obtain taken where t: "ns = map (sched_of_row sample_lib) taken"
    "set (ps_rows (sd_db sample_sched)) = set taken \<union> set (ps_rows d')"
    "set taken \<inter> set (ps_rows d') = {}" "int (length taken) \<le> 1"
    "\<forall>r \<in> set taken. \<forall>r' \<in> set (ps_rows d'). sw_At r' \<le> 1000 \<longrightarrow> sw_At r \<le> sw_At r'"
    "(\<exists>r' \<in> set (ps_rows d'). sw_At r' \<le> 1000) \<longrightarrow> int (length taken) = 1"
    unfolding b by auto
  have rows: "set (ps_rows (sd_db sample_sched)) = {\<lparr>sw_ID = UUID 1, sw_At = 50, sw_Trace = [(''traceparent'', JStr ''t1'')]\<rparr>,
      \<lparr>sw_ID = UUID 2, sw_At = 500, sw_Trace = []\<rparr>}" by (simp add: sample_sched_def)
  have "\<forall>r \<in> set (ps_rows (sd_db sample_sched)). 50 \<le> sw_At r \<and> sw_At r \<le> 1000" unfolding rows by simp
  then have "\<forall>r \<in> set (ps_rows d'). 50 \<le> sw_At r \<and> sw_At r \<le> 1000" using t(2) by blast
  moreover have "length taken = 1"
  proof (cases "set (ps_rows d') = {}")
    case True
    with t(2) rows have "taken \<noteq> []" by auto
    with t(4) show ?thesis by (cases taken) auto
  next
    case False
    with calculation t(6) show ?thesis by fastforce
  qed
  ultimately show ?thesis using c t(1) by simp
qed

end
