(* ===== verification/SchedEvents.thy ===== *)
theory SchedEvents
  imports Scheduler
begin

text \<open>
  The two consumers of the delivery scheduler against its table: what an acknowledged event means,
  that a redelivery is harmless, and what the order of a schedule and its cancellation decides.
  The consumers themselves are in \<open>Scheduler\<close>
  (\<open>transport/messaging/notifications_scheduled_consumer.go\<close>,
  \<open>notification_schedule_cancelled_consumer.go\<close>).
\<close>

section \<open>A batch of upserts\<close>

lemma find_keyed:
  assumes "distinct (sched_keys L ns)" "n \<in> set ns" "uuid_parse L (sn_NotificationID n) = Some k"
  shows "find (\<lambda>n. uuid_parse L (sn_NotificationID n) = Some k) ns = Some n"
  using assms by (induction ns) (auto simp: sched_keys_def image_iff)

lemma fold_upsert:
  assumes "None \<notin> set (sched_keys L ns)" "distinct (sched_keys L ns)" "\<forall>n \<in> set ns. sn_ScheduledAt n \<noteq> None"
  shows "fold (upsert_one L) ns m k =
    (case find (\<lambda>n. uuid_parse L (sn_NotificationID n) = Some k) ns of
       None \<Rightarrow> m k
     | Some n \<Rightarrow> Some (the (sn_ScheduledAt n), case m k of None \<Rightarrow> sn_TraceMetadata n | Some (_, tr) \<Rightarrow> tr))"
  using assms
proof (induction ns arbitrary: m)
  case (Cons n ns)
  have "uuid_parse L (sn_NotificationID n) \<noteq> None" "sn_ScheduledAt n \<noteq> None"
    using Cons.prems by (auto simp: sched_keys_def)
  then obtain i t where i: "uuid_parse L (sn_NotificationID n) = Some i" "sn_ScheduledAt n = Some t" by blast
  have "find (\<lambda>n. uuid_parse L (sn_NotificationID n) = Some k) ns = None" if "k = i"
    using Cons.prems(2) i that by (auto simp: sched_keys_def find_None_iff image_iff)
  with Cons i show ?case by (auto simp: upsert_one_def sched_keys_def split: option.splits)
qed simp

text \<open>The rows an event asks for, and what the table holds of them afterwards.\<close>

definition wanted :: "scheduled_event delivered \<Rightarrow> sched list" where
  "wanted m = map (\<lambda>item. \<lparr>sn_NotificationID = si_NotificationID item,
       sn_ScheduledAt = Some (si_ScheduledAt item),
       sn_TraceMetadata = ExtractTraceMetadata (rm_Ctx m)\<rparr>) (se_Notifications (rm_Event m))"

definition names_id :: "golib \<Rightarrow> scheduled_event delivered \<Rightarrow> uuid \<Rightarrow> bool" where
  "names_id L m k \<longleftrightarrow> (\<exists>item \<in> set (se_Notifications (rm_Event m)).
     uuid_parse L (si_NotificationID item) = Some k)"

definition kept_trace :: "scheduled_event delivered \<Rightarrow> (time \<times> metadata) option \<Rightarrow> metadata" where
  "kept_trace m old = (case old of None \<Rightarrow> ExtractTraceMetadata (rm_Ctx m) | Some (_, tr) \<Rightarrow> tr)"

lemma scheduled_event_cases:
  assumes "sched_keyed w" "handleScheduledEvents (sched_repo L) m w = (a, w')"
  obtains (stored) "a = Ack" "sched_keyed w'"
      "\<And>item k. item \<in> set (se_Notifications (rm_Event m)) \<Longrightarrow>
         uuid_parse L (si_NotificationID item) = Some k \<Longrightarrow>
         sched_pending w' k = Some (si_ScheduledAt item, kept_trace m (sched_pending w k))"
      "\<And>k. \<not> names_id L m k \<Longrightarrow> sched_pending w' k = sched_pending w k"
      "\<forall>item \<in> set (se_Notifications (rm_Event m)). uuid_parse L (si_NotificationID item) \<noteq> None"
  | (refused) "a = Nak" "sched_keyed w'" "sched_pending w' = sched_pending w"
proof -
  obtain r w1 where r: "sr_UpsertAll (sched_repo L) (wanted m) w = (r, w1)" by fastforce
  from schedule_store.wf_upsert [OF sched_store assms(1), of L "wanted m"]
  have wf: "sched_keyed w1" unfolding r by simp
  show thesis
  proof (cases r)
    case (Inl e)
    with r have "sched_pending w1 = sched_pending w" by (intro schedule_store.upsert_err [OF sched_store]) simp
    moreover from assms(2) r Inl have "a = Nak" "w' = w1" by (simp_all add: handleScheduledEvents_def wanted_def)
    ultimately show ?thesis using refused wf by simp
  next
    case (Inr u)
    with assms(2) r have a: "a = Ack" "w' = w1" by (simp_all add: handleScheduledEvents_def wanted_def)
    from schedule_store.upsert_ok [OF sched_store assms(1) r [unfolded Inr]] have
      p: "sched_pending w1 = fold (upsert_one L) (wanted m) (sched_pending w)"
        "None \<notin> set (sched_keys L (wanted m))" "distinct (sched_keys L (wanted m))" by simp_all
    have at: "\<forall>n \<in> set (wanted m). sn_ScheduledAt n \<noteq> None" by (simp add: wanted_def)
    show ?thesis
    proof (rule stored)
      show "a = Ack" "sched_keyed w'" using a wf by simp_all
      fix item k
      assume i: "item \<in> set (se_Notifications (rm_Event m))" "uuid_parse L (si_NotificationID item) = Some k"
      let ?n = "\<lparr>sn_NotificationID = si_NotificationID item, sn_ScheduledAt = Some (si_ScheduledAt item),
          sn_TraceMetadata = ExtractTraceMetadata (rm_Ctx m)\<rparr>"
      have "?n \<in> set (wanted m)" using i(1) by (simp add: wanted_def)
      from find_keyed [OF p(3) this, of k] i(2)
      have f: "find (\<lambda>n. uuid_parse L (sn_NotificationID n) = Some k) (wanted m) = Some ?n" by simp
      show "sched_pending w' k = Some (si_ScheduledAt item, kept_trace m (sched_pending w k))"
        unfolding a(2) p(1) fold_upsert [OF p(2,3) at] f by (simp add: kept_trace_def split: option.splits)
    next
      fix k
      assume "\<not> names_id L m k"
      then have f: "find (\<lambda>n. uuid_parse L (sn_NotificationID n) = Some k) (wanted m) = None"
        by (auto simp: find_None_iff names_id_def wanted_def)
      show "sched_pending w' k = sched_pending w k"
        unfolding a(2) p(1) fold_upsert [OF p(2,3) at] f by simp
    next
      have "uuid_parse L (si_NotificationID item) \<in> set (sched_keys L (wanted m))"
        if "item \<in> set (se_Notifications (rm_Event m))" for item
        using that by (auto simp: sched_keys_def wanted_def)
      with p(2) show "\<forall>item \<in> set (se_Notifications (rm_Event m)). uuid_parse L (si_NotificationID item) \<noteq> None"
        by metis
    qed
  qed
qed

lemma cancel_event_cases:
  assumes "sched_keyed w" "handleCancelEvent (sched_repo L) m w = (a, w')"
  obtains (removed) k where "a = Ack" "sched_keyed w'" "uuid_parse L (ce_NotificationID (rm_Event m)) = Some k"
      "sched_pending w' = (sched_pending w)(k := None)"
  | (kept) "a = Nak" "sched_keyed w'" "sched_pending w' = sched_pending w"
proof -
  let ?i = "ce_NotificationID (rm_Event m)"
  obtain r w1 where r: "sr_Delete (sched_repo L) ?i w = (r, w1)" by fastforce
  from schedule_store.wf_delete [OF sched_store assms(1), of L ?i]
  have wf: "sched_keyed w1" unfolding r by simp
  show thesis
  proof (cases r)
    case (Inl e)
    with r have "sched_pending w1 = sched_pending w" by (intro schedule_store.delete_err [OF sched_store]) simp
    moreover from assms(2) r Inl have "a = Nak" "w' = w1" by (simp_all add: handleCancelEvent_def)
    ultimately show ?thesis using kept wf by simp
  next
    case (Inr u)
    with assms(2) r have "a = Ack" "w' = w1" by (simp_all add: handleCancelEvent_def)
    with schedule_store.delete_ok [OF sched_store assms(1) r [unfolded Inr]] removed wf show ?thesis by blast
  qed
qed

section \<open>Sample events\<close>

definition sample_scheduled :: "scheduled_event delivered" where
  "sample_scheduled = \<lparr>rm_Ctx = [],
     rm_Event = \<lparr>se_Notifications = [\<lparr>si_NotificationID = ''7'', si_ScheduledAt = 300\<rparr>]\<rparr>,
     rm_Msg = 0, rm_AttemptNumber = 1\<rparr>"

definition sample_cancelled :: "cancelled_event delivered" where
  "sample_cancelled = \<lparr>rm_Ctx = [], rm_Event = \<lparr>ce_NotificationID = ''7''\<rparr>, rm_Msg = 1, rm_AttemptNumber = 1\<rparr>"

lemma sample_uuid_7: "uuid_parse sample_lib ''7'' = Some (UUID 7)"
  by code_simp

lemma sample_sched_keyed: "sched_keyed sample_sched"
  using sample_quiet by (simp add: quiet_def)

lemma sample_answers:
  "fst (handleScheduledEvents (sched_repo sample_lib) sample_scheduled sample_sched) = Ack"
  "fst (handleCancelEvent (sched_repo sample_lib) sample_cancelled
      (snd (handleScheduledEvents (sched_repo sample_lib) sample_scheduled sample_sched))) = Ack"
  "fst (handleCancelEvent (sched_repo sample_lib) sample_cancelled sample_sched) = Ack"
  "fst (handleScheduledEvents (sched_repo sample_lib) sample_scheduled
      (snd (handleCancelEvent (sched_repo sample_lib) sample_cancelled sample_sched))) = Ack"
  by code_simp+

lemma pair_of: "fst p = a \<Longrightarrow> p = (a, snd p)"
  by (cases p) simp

section \<open>Properties\<close>

text \<open>
  C28: the scheduling consumer. If it acknowledges an event, every notification of the event is
  pending at the time the event gives, rows of other notifications are as they were, and handling
  the event again (a redelivery), whether it succeeds or not, changes nothing. If it answers with a
  nak, the table is unchanged. A row that was already pending keeps its old trace metadata.
\<close>

theorem scheduled_event_is_stored:
  assumes "sched_keyed w" "handleScheduledEvents (sched_repo L) m w = (a, w')"
  shows "(a = Nak \<and> sched_pending w' = sched_pending w) \<or>
    (a = Ack
     \<and> (\<forall>item \<in> set (se_Notifications (rm_Event m)). \<exists>k. uuid_parse L (si_NotificationID item) = Some k
          \<and> sched_pending w' k = Some (si_ScheduledAt item, kept_trace m (sched_pending w k)))
     \<and> (\<forall>k. \<not> names_id L m k \<longrightarrow> sched_pending w' k = sched_pending w k)
     \<and> sched_pending (snd (handleScheduledEvents (sched_repo L) m w')) = sched_pending w')"
  using assms
proof (cases rule: scheduled_event_cases)
  case stored
  obtain b w2 where again: "handleScheduledEvents (sched_repo L) m w' = (b, w2)" by fastforce
  have "sched_pending w2 = sched_pending w'"
    using stored(2) again
  proof (cases rule: scheduled_event_cases)
    case s: stored
    show ?thesis
    proof
      fix k
      show "sched_pending w2 k = sched_pending w' k"
      proof (cases "names_id L m k")
        case True
        then obtain item where i: "item \<in> set (se_Notifications (rm_Event m))"
          "uuid_parse L (si_NotificationID item) = Some k" by (auto simp: names_id_def)
        from s(3) [OF this] stored(3) [OF this] show ?thesis by (simp add: kept_trace_def)
      qed (simp add: s(4))
    qed
  qed
  with stored(1,3,4,5) again show ?thesis by fastforce
qed simp

theorem scheduled_event_is_stored_witness:
  "\<exists>w'. handleScheduledEvents (sched_repo sample_lib) sample_scheduled sample_sched = (Ack, w') \<and>
     sched_pending w' (UUID 7) = Some (300, kept_trace sample_scheduled (sched_pending sample_sched (UUID 7)))"
  using scheduled_event_is_stored [OF sample_sched_keyed pair_of [OF sample_answers(1)]] pair_of [OF sample_answers(1)]
  by (auto simp: sample_scheduled_def sample_uuid_7)

text \<open>
  The cancelling consumer. If it acknowledges, the identifier is well formed and exactly that
  notification is no longer pending; if it answers with a nak nothing has changed.
\<close>

theorem cancel_event_removes:
  assumes "sched_keyed w" "handleCancelEvent (sched_repo L) m w = (a, w')"
  shows "(a = Nak \<and> sched_pending w' = sched_pending w) \<or>
    (a = Ack \<and> (\<exists>k. uuid_parse L (ce_NotificationID (rm_Event m)) = Some k
       \<and> sched_pending w' = (sched_pending w)(k := None)))"
  using assms by (cases rule: cancel_event_cases) auto

lemma schedule_then_cancel:
  assumes "sched_keyed w" "ce_NotificationID (rm_Event c) = i" "uuid_parse L i = Some k"
    "handleScheduledEvents (sched_repo L) s w = (Ack, w1)" "handleCancelEvent (sched_repo L) c w1 = (Ack, w2)"
  shows "sched_pending w2 k = None"
proof -
  from assms(1,4) have "sched_keyed w1" by (cases rule: scheduled_event_cases) auto
  from this assms(5) show ?thesis by (cases rule: cancel_event_cases) (use assms(2,3) in auto)
qed

lemma cancel_then_schedule:
  assumes "sched_keyed w" "item \<in> set (se_Notifications (rm_Event s))"
    "ce_NotificationID (rm_Event c) = si_NotificationID item"
    "uuid_parse L (si_NotificationID item) = Some k"
    "handleCancelEvent (sched_repo L) c w = (Ack, w1)" "handleScheduledEvents (sched_repo L) s w1 = (Ack, w2)"
  shows "sched_pending w2 k = Some (si_ScheduledAt item, ExtractTraceMetadata (rm_Ctx s))"
proof -
  from assms(1,5) have w1: "sched_keyed w1" "sched_pending w1 k = None"
    by (cases rule: cancel_event_cases; use assms(3,4) in auto)+
  from w1(1) assms(6) show ?thesis
  proof (cases rule: scheduled_event_cases)
    case stored
    from stored(3) [OF assms(2,4)] w1(2) show ?thesis by (simp add: kept_trace_def)
  qed simp
qed

theorem cancel_event_removes_witness:
  "\<exists>w'. handleCancelEvent (sched_repo sample_lib) sample_cancelled sample_sched = (Ack, w') \<and>
     sched_pending w' (UUID 7) = None"
  using cancel_event_removes [OF sample_sched_keyed pair_of [OF sample_answers(3)]] pair_of [OF sample_answers(3)]
  by (auto simp: sample_cancelled_def sample_uuid_7)



end
