(* ===== verification/Telemetry.thy ===== *)
theory Telemetry
  imports GoErrors Config
begin

text \<open>
  shared/otel/setup.go: the set-up of the three telemetry pipelines, the shutdown hook that
  flushes all of them, and the handler that drops log records below the configured level. The
  exporters and providers are the telemetry library's; what each of their calls returns is a
  parameter.
\<close>

section \<open>Set-up and shutdown\<close>

text \<open>
  The calls \<open>Init\<close> makes that can fail, the registration of a provider as the global one, and the
  flush of a provider at shutdown.
\<close>

datatype provider = TracerProvider | MeterProvider | LoggerProvider

record 'w otel_sdk =
  os_resource :: "string \<Rightarrow> 'w \<Rightarrow> go_error option \<times> 'w"
  os_exporter :: "provider \<Rightarrow> string \<Rightarrow> 'w \<Rightarrow> go_error option \<times> 'w"
  os_SetProvider :: "provider \<Rightarrow> 'w \<Rightarrow> 'w"
  os_SetDefaultLevel :: "int \<Rightarrow> 'w \<Rightarrow> 'w"
  os_Shutdown :: "provider \<Rightarrow> 'w \<Rightarrow> go_error option \<times> 'w"

definition with_cause :: "string \<Rightarrow> go_error \<Rightarrow> go_error" where
  "with_cause msg e = Joined [Opaque msg, e]"

text \<open>The hook: three flushes whatever the earlier ones return, the errors joined.\<close>

definition shutdown_hook :: "'w otel_sdk \<Rightarrow> 'w \<Rightarrow> go_error option \<times> 'w" where
  "shutdown_hook sdk w =
     (case os_Shutdown sdk TracerProvider w of (e1, w1) \<Rightarrow>
     (case os_Shutdown sdk MeterProvider w1 of (e2, w2) \<Rightarrow>
     (case os_Shutdown sdk LoggerProvider w2 of (e3, w3) \<Rightarrow>
        (errors_join (somes
           [map_option (with_cause ''failed shutting down tracer provider'') e1,
            map_option (with_cause ''failed shutting down meter provider'') e2,
            map_option (with_cause ''failed shutting down logger provider'') e3]), w3))))"

definition otel_Init ::
  "'w otel_sdk \<Rightarrow> string \<Rightarrow> string \<Rightarrow> string \<Rightarrow> 'w \<Rightarrow> ('w \<Rightarrow> go_error option \<times> 'w) result \<times> 'w" where
  "otel_Init sdk serviceName collectorEndpoint logLevel w =
     (case os_resource sdk serviceName w of
        (Some e, w1) \<Rightarrow> (Inl (with_cause ''failed to create otel resource'' e), w1)
      | (None, w1) \<Rightarrow>
     (case os_exporter sdk TracerProvider collectorEndpoint w1 of
        (Some e, w2) \<Rightarrow> (Inl (with_cause ''failed to create otlp trace exporter'' e), w2)
      | (None, w2) \<Rightarrow>
     (case os_exporter sdk MeterProvider collectorEndpoint (os_SetProvider sdk TracerProvider w2) of
        (Some e, w3) \<Rightarrow> (Inl (with_cause ''failed to create otlp metric exporter'' e), w3)
      | (None, w3) \<Rightarrow>
     (case os_exporter sdk LoggerProvider collectorEndpoint (os_SetProvider sdk MeterProvider w3) of
        (Some e, w4) \<Rightarrow> (Inl (with_cause ''failed to create otlp log exporter'' e), w4)
      | (None, w4) \<Rightarrow>
          (Inr (shutdown_hook sdk),
           os_SetDefaultLevel sdk (ParseLevel logLevel) (os_SetProvider sdk LoggerProvider w4))))))"

section \<open>The level handler\<close>

text \<open>
  The next handler of type \<open>'h\<close> belongs to the bridge of the telemetry library: how it handles a
  record, and how attributes and groups derive a handler from it.
\<close>

record log_record =
  lr_Level :: int
  lr_Message :: string

record ('h, 'w) slog_ops =
  so_Handle :: "'h \<Rightarrow> log_record \<Rightarrow> 'w \<Rightarrow> go_error option \<times> 'w"
  so_WithAttrs :: "(string \<times> string) list \<Rightarrow> 'h \<Rightarrow> 'h"
  so_WithGroup :: "string \<Rightarrow> 'h \<Rightarrow> 'h"

record 'h level_handler =
  lh_min :: int
  lh_next :: 'h

definition lh_Enabled :: "'h level_handler \<Rightarrow> int \<Rightarrow> bool" where
  "lh_Enabled h l \<longleftrightarrow> lh_min h \<le> l"

definition lh_Handle ::
  "('h, 'w) slog_ops \<Rightarrow> 'h level_handler \<Rightarrow> log_record \<Rightarrow> 'w \<Rightarrow> go_error option \<times> 'w" where
  "lh_Handle ops h r w =
     (if \<not> lh_Enabled h (lr_Level r) then (None, w) else so_Handle ops (lh_next h) r w)"

definition lh_WithAttrs ::
  "('h, 'w) slog_ops \<Rightarrow> (string \<times> string) list \<Rightarrow> 'h level_handler \<Rightarrow> 'h level_handler" where
  "lh_WithAttrs ops attrs h = \<lparr>lh_min = lh_min h, lh_next = so_WithAttrs ops attrs (lh_next h)\<rparr>"

definition lh_WithGroup :: "('h, 'w) slog_ops \<Rightarrow> string \<Rightarrow> 'h level_handler \<Rightarrow> 'h level_handler" where
  "lh_WithGroup ops name h = \<lparr>lh_min = lh_min h, lh_next = so_WithGroup ops name (lh_next h)\<rparr>"

text \<open>Handlers derived from another one by any sequence of attributes and groups.\<close>

datatype derivation = WithAttrs "(string \<times> string) list" | WithGroup string

definition derive :: "('h, 'w) slog_ops \<Rightarrow> derivation list \<Rightarrow> 'h level_handler \<Rightarrow> 'h level_handler" where
  "derive ops ds h =
     fold (\<lambda>d. case d of WithAttrs as \<Rightarrow> lh_WithAttrs ops as | WithGroup n \<Rightarrow> lh_WithGroup ops n) ds h"

lemma derive_min [simp]: "lh_min (derive ops ds h) = lh_min h"
proof (induction ds arbitrary: h)
  case (Cons d ds)
  then show ?case by (cases d) (simp_all add: derive_def lh_WithAttrs_def lh_WithGroup_def)
qed (simp add: derive_def)

lemma handle_below: "lr_Level r < lh_min h \<Longrightarrow> lh_Handle ops (derive ops ds h) r w = (None, w)"
  by (simp add: lh_Handle_def lh_Enabled_def)

section \<open>A failed set-up\<close>

text \<open>An \<open>Init\<close> that fails has registered only the providers before the failing step.\<close>

lemma otel_Init_cases:
  assumes "otel_Init sdk n c l w = (r, w')"
  obtains (bad) e where "r = Inl e" | (ok) "r = Inr (shutdown_hook sdk)"
  using assms by (auto simp: otel_Init_def split: prod.splits option.splits)

end
