(* ===== verification/Deploy.thy ===== *)
theory Deploy
  imports ApiConsumers Processor SchedEvents Telemetry
begin

text \<open>
  Start-up of the three services: connecting to the database, Redis and the broker (shared/bun,
  shared/redis, shared/messaging/nats/handle.go), the durable subscriptions, the metric
  instruments, and the functions \<open>New\<close> of the three app packages that wire everything together;
  and the ticker loop of the scheduler. What the drivers answer is a parameter.
\<close>

section \<open>Infrastructure\<close>

datatype retention = LimitsPolicy | InterestPolicy | WorkQueuePolicy
datatype storage = FileStorage | MemoryStorage

record stream_config =
  sc_Name :: string
  sc_Subjects :: "string list"
  sc_Retention :: retention
  sc_Storage :: storage

text \<open>The options of a pull subscription; acknowledgements are explicit in all of them.\<close>

record consumer_config =
  cc_Subject :: string
  cc_Durable :: string
  cc_MaxDeliver :: int
  cc_AckWait :: duration

datatype info_reply = StreamFound | StreamNotFound | InfoError go_error

text \<open>
  The drivers' calls: opening and pinging the database, connecting to the broker and opening
  JetStream, its stream and consumer administration, connecting to Redis with its two
  instrumentations, and registering a metric instrument.
\<close>

record 'w infra =
  if_DBPing :: "string \<Rightarrow> 'w \<Rightarrow> go_error option \<times> 'w"
  if_DBClose :: "'w \<Rightarrow> 'w"
  if_Connect :: "string \<Rightarrow> 'w \<Rightarrow> go_error option \<times> 'w"
  if_JetStream :: "'w \<Rightarrow> go_error option \<times> 'w"
  if_Drain :: "'w \<Rightarrow> 'w"
  if_StreamInfo :: "string \<Rightarrow> 'w \<Rightarrow> info_reply \<times> 'w"
  if_AddStream :: "stream_config \<Rightarrow> 'w \<Rightarrow> go_error option \<times> 'w"
  if_UpdateStream :: "stream_config \<Rightarrow> 'w \<Rightarrow> go_error option \<times> 'w"
  if_PullSubscribe :: "consumer_config \<Rightarrow> 'w \<Rightarrow> go_error option \<times> 'w"
  if_RedisPing :: "string \<Rightarrow> 'w \<Rightarrow> go_error option \<times> 'w"
  if_RedisTracing :: "'w \<Rightarrow> go_error option \<times> 'w"
  if_RedisMetrics :: "'w \<Rightarrow> go_error option \<times> 'w"
  if_RedisClose :: "'w \<Rightarrow> 'w"
  if_Instrument :: "string \<Rightarrow> 'w \<Rightarrow> go_error option \<times> 'w"

text \<open>A start-up step yields a value, returns an error, or panics.\<close>

datatype 'a started = Started 'a | StartError go_error | StartPanic string

definition and_then :: "'a started \<times> 'w \<Rightarrow> ('a \<Rightarrow> 'w \<Rightarrow> 'b started \<times> 'w) \<Rightarrow> 'b started \<times> 'w" where
  "and_then r k = (case r of
     (Started x, w) \<Rightarrow> k x w | (StartError e, w) \<Rightarrow> (StartError e, w) | (StartPanic m, w) \<Rightarrow> (StartPanic m, w))"

definition or_panic :: "string \<Rightarrow> go_error option \<times> 'w \<Rightarrow> unit started \<times> 'w" where
  "or_panic msg r = (case r of (None, w) \<Rightarrow> (Started (), w) | (Some e, w) \<Rightarrow> (StartPanic (msg @ err_text e), w))"

lemma and_then_simps [simp]:
  "and_then (Started x, w) k = k x w" "and_then (StartError e, w) k = (StartError e, w)"
  "and_then (StartPanic m, w) k = (StartPanic m, w)"
  by (simp_all add: and_then_def)

lemma or_panic_simps [simp]:
  "or_panic msg (None, w) = (Started (), w)" "or_panic msg (Some e, w) = (StartPanic (msg @ err_text e), w)"
  by (simp_all add: or_panic_def)

section \<open>Connections\<close>

definition bun_Connect :: "'w infra \<Rightarrow> string \<Rightarrow> 'w \<Rightarrow> unit started \<times> 'w" where
  "bun_Connect I databaseURL w = or_panic ''connect to postgres: '' (if_DBPing I databaseURL w)"

definition redis_NewClient :: "'w infra \<Rightarrow> string \<Rightarrow> 'w \<Rightarrow> unit started \<times> 'w" where
  "redis_NewClient I addr w =
     and_then (or_panic (''redis ping '' @ addr @ '': '') (if_RedisPing I addr w)) (\<lambda>_ w1.
     and_then (or_panic '''' (if_RedisTracing I w1)) (\<lambda>_ w2.
     or_panic '''' (if_RedisMetrics I w2)))"

definition NewHandle :: "'w infra \<Rightarrow> string \<Rightarrow> 'w \<Rightarrow> unit started \<times> 'w" where
  "NewHandle I url w =
     and_then (or_panic ''nats connect: '' (if_Connect I url w)) (\<lambda>_ w1.
     or_panic ''nats jetstream: '' (if_JetStream I w1))"

definition handle_Close :: "'w infra \<Rightarrow> 'w \<Rightarrow> 'w" where
  "handle_Close I w = if_Drain I w"

definition stream_config_of :: "string \<Rightarrow> string list \<Rightarrow> stream_config" where
  "stream_config_of name subjects = \<lparr>sc_Name = name, sc_Subjects = subjects,
     sc_Retention = WorkQueuePolicy, sc_Storage = FileStorage\<rparr>"

definition EnsureStream :: "'w infra \<Rightarrow> string \<Rightarrow> string list \<Rightarrow> 'w \<Rightarrow> go_error option \<times> 'w" where
  "EnsureStream I name subjects w =
     (let cfg = stream_config_of name subjects
      in case if_StreamInfo I name w of
           (StreamNotFound, w1) \<Rightarrow> if_AddStream I cfg w1
         | (InfoError e, w1) \<Rightarrow> (Some (Wrap (''nats stream info '' @ name @ '': '') e ''''), w1)
         | (StreamFound, w1) \<Rightarrow> if_UpdateStream I cfg w1)"

text \<open>
  The set-up of \<open>Subscribe\<close> and \<open>SubscribeBatch\<close>: the durable consumer, and what the fetch loop
  decodes with. \<open>start\<close> is the tracing library: tracer and subject give the consumer's context.
\<close>

definition setup_subscription ::
  "'w infra \<Rightarrow> (string \<Rightarrow> string \<Rightarrow> trace \<Rightarrow> trace) \<Rightarrow> (json \<Rightarrow> 'e result) \<Rightarrow> string \<Rightarrow> string \<Rightarrow> string
   \<Rightarrow> int \<Rightarrow> 'w \<Rightarrow> 'e subscription started \<times> 'w" where
  "setup_subscription I start unmarshal subject durableName tracerName maxDeliver w =
     and_then (or_panic (''nats pull subscribe '' @ subject @ '': '')
        (if_PullSubscribe I \<lparr>cc_Subject = subject, cc_Durable = durableName, cc_MaxDeliver = maxDeliver,
           cc_AckWait = 60000000000\<rparr> w)) (\<lambda>_ w1.
     (Started \<lparr>su_unmarshal = unmarshal, su_start = start tracerName subject\<rparr>, w1))"

definition notificationStream :: string where
  "notificationStream = ''NOTIFICATIONS''"

section \<open>Metric instruments\<close>

fun register_all :: "'w infra \<Rightarrow> string list \<Rightarrow> 'w \<Rightarrow> go_error option \<times> 'w" where
  "register_all I [] w = (None, w)"
| "register_all I (n # ns) w =
     (case if_Instrument I n w of (Some e, w1) \<Rightarrow> (Some e, w1) | (None, w1) \<Rightarrow> register_all I ns w1)"

definition NewMetrics :: "'w infra \<Rightarrow> 'w \<Rightarrow> go_error option \<times> 'w" where
  "NewMetrics I w = register_all I
     [''notification.sent'', ''notification.failed'', ''notification.delivery.latency.ms'',
      ''notification.queue.depth''] w"

text \<open>
  The callback of the queue depth gauge: the length of the Redis stream of each topic (\<open>order\<close> is
  the order in which the map is ranged over), an unreadable one left out.
\<close>

definition queue_topics :: "(string \<times> topic) list" where
  "queue_topics = [(''high'', TopicHigh), (''normal'', TopicNormal), (''low'', TopicLow)]"

fun observe_depths ::
  "(topic \<Rightarrow> 'r \<Rightarrow> int result \<times> 'r) \<Rightarrow> (string \<times> topic) list \<Rightarrow> 'r \<Rightarrow> (int \<times> string) list \<times> 'r" where
  "observe_depths xlen [] r = ([], r)"
| "observe_depths xlen ((p, t) # ps) r =
     (case xlen t r of
        (Inl e, r1) \<Rightarrow> observe_depths xlen ps r1
      | (Inr n, r1) \<Rightarrow> (case observe_depths xlen ps r1 of (os, r2) \<Rightarrow> ((n, p) # os, r2)))"

definition queue_depth ::
  "((string \<times> topic) list \<Rightarrow> (string \<times> topic) list) \<Rightarrow> (topic \<Rightarrow> 'r \<Rightarrow> int result \<times> 'r) option \<Rightarrow> 'r
   \<Rightarrow> (int \<times> string) list \<times> 'r" where
  "queue_depth order rdb r =
     (case rdb of None \<Rightarrow> ([], r) | Some xlen \<Rightarrow> observe_depths xlen (order queue_topics) r)"

section \<open>The API\<close>

record api_app =
  aa_Addr :: string
  aa_ReadHeaderTimeout :: duration
  aa_Handler :: "api_world app_router"
  aa_statusMsgs :: "result_event subscription"
  aa_deliveryResultConsumer :: "result_event delivered pick list \<Rightarrow> api_world \<Rightarrow> answers \<times> api_world"
  aa_scheduledDueMsgs :: "due_event subscription"
  aa_scheduledDueConsumer :: "due_event delivered list pick list \<Rightarrow> api_world \<Rightarrow> answers \<times> api_world"

record tracing =
  tr_start :: "string \<Rightarrow> string \<Rightarrow> trace \<Rightarrow> trace"
  tr_extract :: "trace \<Rightarrow> trace \<Rightarrow> trace"

record api_outside =
  ao_docs :: "api_world handler_func"
  ao_ping :: "trace \<Rightarrow> api_world \<Rightarrow> go_error option \<times> api_world"
  ao_order :: "(uuid \<times> due_event delivered) list \<Rightarrow> (uuid \<times> due_event delivered) list"

definition api_New ::
  "'w infra \<Rightarrow> golib \<Rightarrow> tracing \<Rightarrow> api_outside \<Rightarrow> api_config \<Rightarrow> 'w \<Rightarrow> api_app started \<times> 'w" where
  "api_New I L T X cfg w =
     and_then (bun_Connect I (ac_DatabaseURL cfg) w) (\<lambda>_ w1.
     and_then (NewHandle I (ac_NATSAddr cfg) w1) (\<lambda>_ w2.
     and_then (or_panic ''ensure nats stream: '' (EnsureStream I notificationStream [''notify.>''] w2)) (\<lambda>_ w3.
     and_then (setup_subscription I (tr_start T) result_of_json TopicStatus ''api-status''
         (bc_OTelServiceName (ac_Base cfg)) 0 w3) (\<lambda>statusMsgs w4.
     and_then (setup_subscription I (tr_start T) due_of_json TopicScheduledNotificationDue ''api-scheduled-due''
         (bc_OTelServiceName (ac_Base cfg)) 0 w4) (\<lambda>scheduledDueMsgs w5.
     (let svc = NewNotificationService (api_deps L)
      in (Started \<lparr>
            aa_Addr = '':'' @ int_text (ac_Port cfg), aa_ReadHeaderTimeout = 30000000000,
            aa_Handler = NewRouter L (ao_docs X) (ao_ping X) svc,
            aa_statusMsgs = statusMsgs, aa_deliveryResultConsumer = result_Run L svc,
            aa_scheduledDueMsgs = scheduledDueMsgs,
            aa_scheduledDueConsumer = due_Run (api_due L (ao_order X))\<rparr>, w5)))))))"

definition api_cleanup :: "'w infra \<Rightarrow> 'w \<Rightarrow> 'w" where
  "api_cleanup I w = if_DBClose I (handle_Close I w)"

section \<open>The delivery scheduler\<close>

record ds_app =
  da_msgs :: "scheduled_event subscription"
  da_consumer :: "scheduled_event delivered pick list \<Rightarrow> sched_world \<Rightarrow> answers \<times> sched_world"
  da_cancelMsgs :: "cancelled_event subscription"
  da_cancelConsumer :: "cancelled_event delivered pick list \<Rightarrow> sched_world \<Rightarrow> answers \<times> sched_world"
  da_dispatcher :: "sched_world dispatcher"
  da_pollInterval :: duration

definition ds_cleanup :: "'w infra \<Rightarrow> 'w \<Rightarrow> 'w" where
  "ds_cleanup I w = if_DBClose I (handle_Close I w)"

definition ds_New ::
  "'w infra \<Rightarrow> golib \<Rightarrow> tracing \<Rightarrow> ds_config \<Rightarrow> 'w \<Rightarrow> ds_app started \<times> 'w" where
  "ds_New I L T cfg w =
     and_then (bun_Connect I (dc_DatabaseURL cfg) w) (\<lambda>_ w1.
     and_then (NewHandle I (dc_NATSAddr cfg) w1) (\<lambda>_ w2.
     (case EnsureStream I notificationStream [''notify.>''] w2 of
        (Some e, w3) \<Rightarrow> (StartError e, if_DBClose I (handle_Close I w3))
      | (None, w3) \<Rightarrow>
     and_then (setup_subscription I (tr_start T) (scheduled_of_json L) TopicNotificationScheduled ''ds-scheduled''
         (bc_OTelServiceName (dc_Base cfg)) 0 w3) (\<lambda>msgs w4.
     and_then (setup_subscription I (tr_start T) cancelled_of_json TopicNotificationScheduleCancelled ''ds-cancel''
         (bc_OTelServiceName (dc_Base cfg)) 0 w4) (\<lambda>cancelMsgs w5.
     (Started \<lparr>
        da_msgs = msgs, da_consumer = scheduled_Run (sched_repo L),
        da_cancelMsgs = cancelMsgs, da_cancelConsumer = cancel_Run (sched_repo L),
        da_dispatcher = sched_dispatcher L (dc_PollBatchSize cfg) (tr_extract T),
        da_pollInterval = dc_PollInterval cfg\<rparr>, w5))))))"

text \<open>
  The ticker goroutine of \<open>Start\<close>: what each select picks (a tick, or the context's end);
  creating a ticker with an interval that is not positive panics. The inner option is the fuel of
  \<open>Tick\<close>.
\<close>

datatype tick_pick = TickFired | TickDone

fun tick_loop :: "'w dispatcher \<Rightarrow> trace \<Rightarrow> nat \<Rightarrow> tick_pick list \<Rightarrow> 'w \<Rightarrow> 'w option" where
  "tick_loop D ctx fuel [] w = Some w"
| "tick_loop D ctx fuel (TickDone # ps) w = Some w"
| "tick_loop D ctx fuel (TickFired # ps) w =
     (case Tick D ctx fuel w of None \<Rightarrow> None | Some w1 \<Rightarrow> tick_loop D ctx fuel ps w1)"

definition ds_ticker ::
  "'w dispatcher \<Rightarrow> duration \<Rightarrow> trace \<Rightarrow> nat \<Rightarrow> tick_pick list \<Rightarrow> 'w \<Rightarrow> string + 'w option" where
  "ds_ticker D pollInterval ctx fuel picks w =
     (if pollInterval \<le> 0 then Inl ''non-positive interval for NewTicker''
      else Inr (tick_loop D ctx fuel picks w))"

section \<open>The processor\<close>

record proc_app =
  pa_high :: "ready_event subscription"
  pa_normal :: "ready_event subscription"
  pa_low :: "ready_event subscription"
  pa_pipeline :: "proc_world pipeline"
  pa_consumer :: "ready_event delivered chan \<Rightarrow> ready_event delivered chan \<Rightarrow> ready_event delivered chan
    \<Rightarrow> ready_consumer option"

definition proc_cleanup :: "'w infra \<Rightarrow> 'w \<Rightarrow> 'w" where
  "proc_cleanup I w = if_RedisClose I (handle_Close I w)"

definition ready_subscriptions ::
  "'w infra \<Rightarrow> (string \<Rightarrow> string \<Rightarrow> trace \<Rightarrow> trace) \<Rightarrow> string \<Rightarrow> int \<Rightarrow> 'w
   \<Rightarrow> (ready_event subscription \<times> ready_event subscription \<times> ready_event subscription) started \<times> 'w" where
  "ready_subscriptions I start serviceName maxDeliver w =
     and_then (setup_subscription I start ready_of_json TopicHigh ''processor-high'' serviceName maxDeliver w) (\<lambda>h w1.
     and_then (setup_subscription I start ready_of_json TopicNormal ''processor-normal'' serviceName maxDeliver w1) (\<lambda>n w2.
     and_then (setup_subscription I start ready_of_json TopicLow ''processor-low'' serviceName maxDeliver w2) (\<lambda>l w3.
     (Started (h, n, l), w3))))"

definition processor_New ::
  "'w infra \<Rightarrow> (string \<Rightarrow> string \<Rightarrow> go_error option) \<Rightarrow> (int \<Rightarrow> duration) \<Rightarrow> tracing \<Rightarrow> proc_config \<Rightarrow> 'w
   \<Rightarrow> proc_app started \<times> 'w" where
  "processor_New I build conv T cfg w =
     and_then (redis_NewClient I (pc_RedisAddr cfg) w) (\<lambda>_ w1.
     and_then (NewHandle I (pc_NATSAddr cfg) w1) (\<lambda>_ w2.
     (case EnsureStream I notificationStream [''notify.>''] w2 of
        (Some e, w3) \<Rightarrow> (StartError (Wrap ''ensure nats stream: '' e ''''), w3)
      | (None, w3) \<Rightarrow>
     (case NewMetrics I w3 of
        (Some e, w4) \<Rightarrow> (StartError (Wrap ''init metrics: '' e ''''), if_RedisClose I (handle_Close I w4))
      | (None, w4) \<Rightarrow>
     and_then (ready_subscriptions I (tr_start T) (bc_OTelServiceName (pc_Base cfg))
         (wrap64 (pc_MaxAttempts cfg + 1)) w4) (\<lambda>(h, n, l) w5.
     (Started \<lparr>pa_high = h, pa_normal = n, pa_low = l, pa_pipeline = proc_pipeline cfg build conv,
        pa_consumer = proc_New cfg\<rparr>, w5))))))"

end
