(* ===== verification/DeployLaws.thy ===== *)
theory DeployLaws
  imports Deploy
begin

text \<open>
  What a start-up leaves behind: the stream and the durable consumers at the broker, the
  connections that are open, the values an empty environment gives; and that what one service
  publishes is read back by the subscription another one has set up for it.
\<close>

section \<open>What the drivers promise\<close>

datatype resource = DatabasePool | BrokerConnection | RedisClient

text \<open>What the start-up functions can see of the outside world.\<close>

record infra_view =
  iv_streams :: "string \<Rightarrow> stream_config option"
  iv_consumers :: "consumer_config list"
  iv_opened :: "resource multiset"

definition acquired :: "resource \<Rightarrow> infra_view \<Rightarrow> infra_view" where
  "acquired r v = v\<lparr>iv_opened := add_mset r (iv_opened v)\<rparr>"

definition released :: "resource \<Rightarrow> infra_view \<Rightarrow> infra_view" where
  "released r v = v\<lparr>iv_opened := iv_opened v - {#r#}\<rparr>"

definition configured :: "stream_config \<Rightarrow> infra_view \<Rightarrow> infra_view" where
  "configured c v = v\<lparr>iv_streams := (iv_streams v)(sc_Name c \<mapsto> c)\<rparr>"

text \<open>A durable consumer is identified by its name.\<close>

definition subscribed :: "consumer_config \<Rightarrow> infra_view \<Rightarrow> infra_view" where
  "subscribed c v = v\<lparr>iv_consumers := filter (\<lambda>d. cc_Durable d \<noteq> cc_Durable c) (iv_consumers v) @ [c]\<rparr>"

text \<open>
  Documented behaviour: a successful call opens, configures or subscribes what it names; a call
  that fails, an instrumentation and a look-up change nothing of this; closing closes.
\<close>

definition call_ok ::
  "('w \<Rightarrow> infra_view) \<Rightarrow> (infra_view \<Rightarrow> infra_view) \<Rightarrow> ('w \<Rightarrow> go_error option \<times> 'w) \<Rightarrow> bool" where
  "call_ok view f call \<longleftrightarrow>
     (\<forall>w e w'. call w = (e, w') \<longrightarrow> view w' = (if e = None then f (view w) else view w))"

definition infra_ok :: "'w infra \<Rightarrow> ('w \<Rightarrow> infra_view) \<Rightarrow> bool" where
  "infra_ok I view \<longleftrightarrow>
     (\<forall>url. call_ok view (acquired DatabasePool) (if_DBPing I url))
     \<and> (\<forall>w. view (if_DBClose I w) = released DatabasePool (view w))
     \<and> (\<forall>url. call_ok view (acquired BrokerConnection) (if_Connect I url))
     \<and> call_ok view (\<lambda>v. v) (if_JetStream I)
     \<and> (\<forall>w. view (if_Drain I w) = released BrokerConnection (view w))
     \<and> (\<forall>n w r w'. if_StreamInfo I n w = (r, w') \<longrightarrow> view w' = view w)
     \<and> (\<forall>c. call_ok view (configured c) (if_AddStream I c))
     \<and> (\<forall>c. call_ok view (configured c) (if_UpdateStream I c))
     \<and> (\<forall>c. call_ok view (subscribed c) (if_PullSubscribe I c))
     \<and> (\<forall>a. call_ok view (acquired RedisClient) (if_RedisPing I a))
     \<and> call_ok view (\<lambda>v. v) (if_RedisTracing I) \<and> call_ok view (\<lambda>v. v) (if_RedisMetrics I)
     \<and> (\<forall>w. view (if_RedisClose I w) = released RedisClient (view w))
     \<and> (\<forall>n. call_ok view (\<lambda>v. v) (if_Instrument I n))"

lemma call_okD: "call_ok view f call \<Longrightarrow> call w = (e, w') \<Longrightarrow> view w' = (if e = None then f (view w) else view w)"
  by (simp add: call_ok_def)

section \<open>The steps\<close>

lemma and_thenE:
  assumes "and_then r k = (Started y, w')"
  obtains x w where "r = (Started x, w)" "k x w = (Started y, w')"
  using assms by (auto simp: and_then_def split: prod.splits started.splits)

lemma or_panicE:
  assumes "or_panic msg r = (Started x, w)"
  obtains "r = (None, w)"
  using assms by (auto simp: or_panic_def split: prod.splits option.splits)

lemma or_panic_no_error: "or_panic msg r \<noteq> (StartError e, w)"
  by (auto simp: or_panic_def split: prod.splits option.splits)

text \<open>Connecting and subscribing panic rather than return an error.\<close>

lemma and_then_error:
  "and_then r k = (StartError e, w') \<longleftrightarrow>
     r = (StartError e, w') \<or> (\<exists>x w. r = (Started x, w) \<and> k x w = (StartError e, w'))"
  by (auto simp: and_then_def split: prod.splits started.splits)

lemma no_start_error [simp]:
  "or_panic msg r \<noteq> (StartError e, w')" "bun_Connect I url w \<noteq> (StartError e, w')"
  "NewHandle I url w \<noteq> (StartError e, w')" "redis_NewClient I a w \<noteq> (StartError e, w')"
  "setup_subscription I st un t d n m w \<noteq> (StartError e, w')"
  "ready_subscriptions I st n m w \<noteq> (StartError e, w')"
  by (auto simp: or_panic_no_error bun_Connect_def NewHandle_def redis_NewClient_def setup_subscription_def
      ready_subscriptions_def and_then_error)

lemma and_then_errorE:
  assumes "and_then r k = (StartError e, w')" and "r \<noteq> (StartError e, w')"
  obtains x w where "r = (Started x, w)" "k x w = (StartError e, w')"
  using assms by (auto simp: and_then_error)

lemma view_Connect:
  assumes "infra_ok I view" "bun_Connect I url w = (Started u, w')"
  shows "view w' = acquired DatabasePool (view w)"
  using assms call_okD [of view "acquired DatabasePool" "if_DBPing I url"]
  by (force simp: bun_Connect_def infra_ok_def elim!: or_panicE)

lemma view_Handle:
  assumes "infra_ok I view" "NewHandle I url w = (Started u, w')"
  shows "view w' = acquired BrokerConnection (view w)"
proof -
  from assms(2) obtain w1 where "if_Connect I url w = (None, w1)" "if_JetStream I w1 = (None, w')"
    by (auto simp: NewHandle_def elim!: and_thenE or_panicE)
  with assms(1) show ?thesis by (auto simp: infra_ok_def dest!: call_okD)
qed

lemma view_Redis:
  assumes "infra_ok I view" "redis_NewClient I a w = (Started u, w')"
  shows "view w' = acquired RedisClient (view w)"
proof -
  from assms(2) obtain w1 w2 where "if_RedisPing I a w = (None, w1)" "if_RedisTracing I w1 = (None, w2)"
    "if_RedisMetrics I w2 = (None, w')"
    by (auto simp: redis_NewClient_def elim!: and_thenE or_panicE)
  with assms(1) show ?thesis by (auto simp: infra_ok_def dest!: call_okD)
qed

lemma view_Ensure:
  assumes I: "infra_ok I view" and e: "EnsureStream I n ss w = (e, w')"
  shows "view w' = (if e = None then configured (stream_config_of n ss) (view w) else view w)"
proof -
  obtain r w1 where s: "if_StreamInfo I n w = (r, w1)" by fastforce
  with I have v: "view w1 = view w" by (auto simp: infra_ok_def)
  from I have c: "call_ok view (configured c) (if_AddStream I c)" "call_ok view (configured c) (if_UpdateStream I c)" for c
    by (auto simp: infra_ok_def)
  show ?thesis
    using e s v c(1) [THEN call_okD] c(2) [THEN call_okD]
    by (cases r) (auto simp: EnsureStream_def Let_def)
qed

lemma view_subscription:
  assumes "infra_ok I view" "setup_subscription I st un t d n m w = (Started S, w')"
  shows "view w' = subscribed \<lparr>cc_Subject = t, cc_Durable = d, cc_MaxDeliver = m, cc_AckWait = 60000000000\<rparr> (view w)"
    and "S = \<lparr>su_unmarshal = un, su_start = st n t\<rparr>"
proof -
  let ?c = "\<lparr>cc_Subject = t, cc_Durable = d, cc_MaxDeliver = m, cc_AckWait = 60000000000\<rparr>"
  from assms(2) have s: "if_PullSubscribe I ?c w = (None, w')" and "S = \<lparr>su_unmarshal = un, su_start = st n t\<rparr>"
    by (auto simp: setup_subscription_def elim!: and_thenE or_panicE)
  then show "S = \<lparr>su_unmarshal = un, su_start = st n t\<rparr>" by simp
  from assms(1) have "call_ok view (subscribed ?c) (if_PullSubscribe I ?c)" by (auto simp: infra_ok_def)
  from call_okD [OF this s] show "view w' = subscribed ?c (view w)" by simp
qed

lemma view_register: "infra_ok I view \<Longrightarrow> register_all I ns w = (e, w') \<Longrightarrow> view w' = view w"
proof (induction ns arbitrary: w)
  case (Cons n ns)
  obtain e1 w1 where i: "if_Instrument I n w = (e1, w1)" by fastforce
  from Cons.prems(1) have "call_ok view (\<lambda>v. v) (if_Instrument I n)" by (auto simp: infra_ok_def)
  from call_okD [OF this i] have "view w1 = view w" by (simp split: if_splits)
  with Cons i show ?case by (cases e1) auto
qed simp

lemmas view_close = infra_ok_def handle_Close_def

section \<open>What a started service has set up\<close>

definition durable :: "string \<Rightarrow> string \<Rightarrow> int \<Rightarrow> consumer_config" where
  "durable t d m = \<lparr>cc_Subject = t, cc_Durable = d, cc_MaxDeliver = m, cc_AckWait = 60000000000\<rparr>"

definition notification_stream :: stream_config where
  "notification_stream = stream_config_of notificationStream [''notify.>'']"

text \<open>A view after a start: the stream, the durable consumers in order, the connections.\<close>

definition set_up :: "consumer_config list \<Rightarrow> resource list \<Rightarrow> infra_view \<Rightarrow> infra_view" where
  "set_up cs rs v = fold subscribed cs (configured notification_stream (fold acquired rs v))"

lemma api_New_view:
  assumes I: "infra_ok I view" and n: "api_New I L T X cfg w = (Started a, w')"
  shows "view w' = set_up [durable TopicStatus ''api-status'' 0,
      durable TopicScheduledNotificationDue ''api-scheduled-due'' 0] [DatabasePool, BrokerConnection] (view w)"
    and "su_unmarshal (aa_statusMsgs a) = result_of_json" "su_unmarshal (aa_scheduledDueMsgs a) = due_of_json"
proof -
  from n obtain w1 w2 w3 w4 S D where
    1: "bun_Connect I (ac_DatabaseURL cfg) w = (Started (), w1)"
    and 2: "NewHandle I (ac_NATSAddr cfg) w1 = (Started (), w2)"
    and 3: "EnsureStream I notificationStream [''notify.>''] w2 = (None, w3)"
    and 4: "setup_subscription I (tr_start T) result_of_json TopicStatus ''api-status''
         (bc_OTelServiceName (ac_Base cfg)) 0 w3 = (Started S, w4)"
    and 5: "setup_subscription I (tr_start T) due_of_json TopicScheduledNotificationDue ''api-scheduled-due''
         (bc_OTelServiceName (ac_Base cfg)) 0 w4 = (Started D, w')"
    and a: "aa_statusMsgs a = S" "aa_scheduledDueMsgs a = D"
    unfolding api_New_def Let_def
    by (elim and_thenE or_panicE) (auto simp: Let_def elim!: and_thenE or_panicE)
  show "view w' = set_up [durable TopicStatus ''api-status'' 0,
      durable TopicScheduledNotificationDue ''api-scheduled-due'' 0] [DatabasePool, BrokerConnection] (view w)"
    using view_Connect [OF I 1] view_Handle [OF I 2] view_Ensure [OF I 3] view_subscription(1) [OF I 4]
      view_subscription(1) [OF I 5]
    by (simp add: set_up_def durable_def notification_stream_def)
  show "su_unmarshal (aa_statusMsgs a) = result_of_json" "su_unmarshal (aa_scheduledDueMsgs a) = due_of_json"
    using view_subscription(2) [OF I 4] view_subscription(2) [OF I 5] a by simp_all
qed

lemma ds_New_view:
  assumes I: "infra_ok I view" and n: "ds_New I L T cfg w = (Started d, w')"
  shows "view w' = set_up [durable TopicNotificationScheduled ''ds-scheduled'' 0,
      durable TopicNotificationScheduleCancelled ''ds-cancel'' 0] [DatabasePool, BrokerConnection] (view w)"
    and "su_unmarshal (da_msgs d) = scheduled_of_json L" "su_unmarshal (da_cancelMsgs d) = cancelled_of_json"
proof -
  from n obtain w1 w2 w3 w4 S D where
    1: "bun_Connect I (dc_DatabaseURL cfg) w = (Started (), w1)"
    and 2: "NewHandle I (dc_NATSAddr cfg) w1 = (Started (), w2)"
    and 3: "EnsureStream I notificationStream [''notify.>''] w2 = (None, w3)"
    and 4: "setup_subscription I (tr_start T) (scheduled_of_json L) TopicNotificationScheduled ''ds-scheduled''
         (bc_OTelServiceName (dc_Base cfg)) 0 w3 = (Started S, w4)"
    and 5: "setup_subscription I (tr_start T) cancelled_of_json TopicNotificationScheduleCancelled ''ds-cancel''
         (bc_OTelServiceName (dc_Base cfg)) 0 w4 = (Started D, w')"
    and a: "da_msgs d = S" "da_cancelMsgs d = D"
    unfolding ds_New_def
    by (elim and_thenE) (auto elim!: and_thenE split: prod.splits option.splits)
  show "view w' = set_up [durable TopicNotificationScheduled ''ds-scheduled'' 0,
      durable TopicNotificationScheduleCancelled ''ds-cancel'' 0] [DatabasePool, BrokerConnection] (view w)"
    using view_Connect [OF I 1] view_Handle [OF I 2] view_Ensure [OF I 3] view_subscription(1) [OF I 4]
      view_subscription(1) [OF I 5]
    by (simp add: set_up_def durable_def notification_stream_def)
  show "su_unmarshal (da_msgs d) = scheduled_of_json L" "su_unmarshal (da_cancelMsgs d) = cancelled_of_json"
    using view_subscription(2) [OF I 4] view_subscription(2) [OF I 5] a by simp_all
qed

lemma processor_New_view:
  assumes I: "infra_ok I view" and n: "processor_New I build conv T cfg w = (Started p, w')"
  shows "view w' = set_up [durable TopicHigh ''processor-high'' (wrap64 (pc_MaxAttempts cfg + 1)),
      durable TopicNormal ''processor-normal'' (wrap64 (pc_MaxAttempts cfg + 1)),
      durable TopicLow ''processor-low'' (wrap64 (pc_MaxAttempts cfg + 1))] [RedisClient, BrokerConnection] (view w)"
    and "su_unmarshal (pa_high p) = ready_of_json" "su_unmarshal (pa_normal p) = ready_of_json"
      "su_unmarshal (pa_low p) = ready_of_json"
proof -
  let ?m = "wrap64 (pc_MaxAttempts cfg + 1)"
  from n obtain w1 w2 w3 w4 w5 w6 h l m where
    1: "redis_NewClient I (pc_RedisAddr cfg) w = (Started (), w1)"
    and 2: "NewHandle I (pc_NATSAddr cfg) w1 = (Started (), w2)"
    and 3: "EnsureStream I notificationStream [''notify.>''] w2 = (None, w3)"
    and 4: "NewMetrics I w3 = (None, w4)"
    and 5: "setup_subscription I (tr_start T) ready_of_json TopicHigh ''processor-high''
         (bc_OTelServiceName (pc_Base cfg)) ?m w4 = (Started h, w5)"
    and 6: "setup_subscription I (tr_start T) ready_of_json TopicNormal ''processor-normal''
         (bc_OTelServiceName (pc_Base cfg)) ?m w5 = (Started m, w6)"
    and 7: "setup_subscription I (tr_start T) ready_of_json TopicLow ''processor-low''
         (bc_OTelServiceName (pc_Base cfg)) ?m w6 = (Started l, w')"
    and p: "pa_high p = h" "pa_normal p = m" "pa_low p = l"
    unfolding processor_New_def ready_subscriptions_def
    by (elim and_thenE) (auto elim!: and_thenE split: prod.splits option.splits)
  show "view w' = set_up [durable TopicHigh ''processor-high'' (wrap64 (pc_MaxAttempts cfg + 1)),
      durable TopicNormal ''processor-normal'' (wrap64 (pc_MaxAttempts cfg + 1)),
      durable TopicLow ''processor-low'' (wrap64 (pc_MaxAttempts cfg + 1))] [RedisClient, BrokerConnection] (view w)"
    using view_Redis [OF I 1] view_Handle [OF I 2] view_Ensure [OF I 3] view_register [OF I 4 [unfolded NewMetrics_def]]
      view_subscription(1) [OF I 5] view_subscription(1) [OF I 6] view_subscription(1) [OF I 7]
    by (simp add: set_up_def durable_def notification_stream_def)
  show "su_unmarshal (pa_high p) = ready_of_json" "su_unmarshal (pa_normal p) = ready_of_json"
      "su_unmarshal (pa_low p) = ready_of_json"
    using view_subscription(2) [OF I 5] view_subscription(2) [OF I 6] view_subscription(2) [OF I 7] p by simp_all
qed

section \<open>Drivers to run examples with\<close>

text \<open>Drivers over the view itself; \<open>down\<close> says which calls fail.\<close>

definition doing :: "bool \<Rightarrow> (infra_view \<Rightarrow> infra_view) \<Rightarrow> infra_view \<Rightarrow> go_error option \<times> infra_view" where
  "doing fails f w = (if fails then (Some (Opaque ''down''), w) else (None, f w))"

definition sample_infra :: "bool \<Rightarrow> bool \<Rightarrow> infra_view infra" where
  "sample_infra noStream noMetrics = \<lparr>
     if_DBPing = (\<lambda>_. doing False (acquired DatabasePool)), if_DBClose = released DatabasePool,
     if_Connect = (\<lambda>_. doing False (acquired BrokerConnection)), if_JetStream = doing False (\<lambda>v. v),
     if_Drain = released BrokerConnection,
     if_StreamInfo = (\<lambda>n w. (if iv_streams w n = None then StreamNotFound else StreamFound, w)),
     if_AddStream = (\<lambda>c. doing noStream (configured c)), if_UpdateStream = (\<lambda>c. doing noStream (configured c)),
     if_PullSubscribe = (\<lambda>c. doing False (subscribed c)),
     if_RedisPing = (\<lambda>_. doing False (acquired RedisClient)), if_RedisTracing = doing False (\<lambda>v. v),
     if_RedisMetrics = doing False (\<lambda>v. v), if_RedisClose = released RedisClient,
     if_Instrument = (\<lambda>_. doing noMetrics (\<lambda>v. v))\<rparr>"

lemma sample_infra_ok: "infra_ok (sample_infra a b) (\<lambda>v. v)"
  by (auto simp: infra_ok_def call_ok_def sample_infra_def doing_def split: if_splits)

lemma sample_infra_sel [simp]:
  "if_DBPing (sample_infra a b) url = doing False (acquired DatabasePool)"
  "if_Connect (sample_infra a b) url = doing False (acquired BrokerConnection)"
  "if_JetStream (sample_infra a b) = doing False (\<lambda>v. v)"
  "if_StreamInfo (sample_infra a b) n w = (if iv_streams w n = None then StreamNotFound else StreamFound, w)"
  "if_AddStream (sample_infra a b) c = doing a (configured c)"
  "if_UpdateStream (sample_infra a b) c = doing a (configured c)"
  "if_PullSubscribe (sample_infra a b) d = doing False (subscribed d)"
  "if_RedisPing (sample_infra a b) ad = doing False (acquired RedisClient)"
  "if_RedisTracing (sample_infra a b) = doing False (\<lambda>v. v)"
  "if_RedisMetrics (sample_infra a b) = doing False (\<lambda>v. v)"
  "if_Instrument (sample_infra a b) n = doing b (\<lambda>v. v)"
  by (simp_all add: sample_infra_def)

lemma doing_False [simp]: "doing False f w = (None, f w)" "doing True f w = (Some (Opaque ''down''), w)"
  by (simp_all add: doing_def)

definition bare :: infra_view where
  "bare = \<lparr>iv_streams = Map.empty, iv_consumers = [], iv_opened = {#}\<rparr>"

lemma sample_ensure: "EnsureStream (sample_infra False b) n ss w = (None, configured (stream_config_of n ss) w)"
  by (simp add: EnsureStream_def)

lemma sample_subscription: "\<exists>S w'. setup_subscription (sample_infra a b) st un t d n m w = (Started S, w')"
  by (simp add: setup_subscription_def)

lemma sample_register: "register_all (sample_infra a False) ns w = (None, w)"
  by (induction ns arbitrary: w) simp_all

lemmas sample_starts = bun_Connect_def NewHandle_def redis_NewClient_def sample_ensure
  setup_subscription_def NewMetrics_def sample_register

lemma sample_api_starts: "\<exists>a w'. api_New (sample_infra False b) L T X cfg w = (Started a, w')"
  by (simp add: api_New_def sample_starts Let_def)

lemma sample_ds_starts: "\<exists>d w'. ds_New (sample_infra False b) L T cfg w = (Started d, w')"
  by (simp add: ds_New_def sample_starts)

lemma sample_processor_starts:
  "\<exists>p w'. processor_New (sample_infra False False) build conv T cfg w = (Started p, w')"
  by (simp add: processor_New_def ready_subscriptions_def sample_starts)

section \<open>Properties\<close>

text \<open>How a broker matches a subject with a pattern: tokens between dots, a final \<open>>\<close> takes the rest.\<close>

fun tokens :: "string \<Rightarrow> string list" where
  "tokens [] = [[]]"
| "tokens (c # s) = (if c = CHR ''.'' then [] # tokens s
     else (case tokens s of [] \<Rightarrow> [[c]] | t # ts \<Rightarrow> (c # t) # ts))"

fun tokens_match :: "string list \<Rightarrow> string list \<Rightarrow> bool" where
  "tokens_match [] ts = (ts = [])"
| "tokens_match (p # ps) [] = False"
| "tokens_match (p # ps) (t # ts) =
     (p = ''>'' \<and> ps = [] \<or> (p = ''*'' \<or> p = t) \<and> tokens_match ps ts)"

definition subject_matches :: "string \<Rightarrow> string \<Rightarrow> bool" where
  "subject_matches pat subj = tokens_match (tokens pat) (tokens subj)"

text \<open>The subjects the services publish on.\<close>

definition published_topics :: "topic list" where
  "published_topics = map TopicByPriority [PriorityHigh, PriorityNormal, PriorityLow]
     @ [TopicNotificationScheduled, TopicNotificationScheduleCancelled, TopicScheduledNotificationDue, TopicStatus]"

lemma all_durables:
  assumes "iv_consumers v = []"
  shows "iv_consumers (set_up [durable TopicHigh ''processor-high'' m, durable TopicNormal ''processor-normal'' m,
        durable TopicLow ''processor-low'' m] rs3
      (set_up [durable TopicNotificationScheduled ''ds-scheduled'' 0,
        durable TopicNotificationScheduleCancelled ''ds-cancel'' 0] rs2
      (set_up [durable TopicStatus ''api-status'' 0,
        durable TopicScheduledNotificationDue ''api-scheduled-due'' 0] rs1 v)))
    = [durable TopicStatus ''api-status'' 0, durable TopicScheduledNotificationDue ''api-scheduled-due'' 0,
       durable TopicNotificationScheduled ''ds-scheduled'' 0,
       durable TopicNotificationScheduleCancelled ''ds-cancel'' 0,
       durable TopicHigh ''processor-high'' m, durable TopicNormal ''processor-normal'' m,
       durable TopicLow ''processor-low'' m]"
proof -
  have k: "iv_consumers (fold acquired rs v) = iv_consumers v" for rs and v
    by (induction rs arbitrary: v) (simp_all add: acquired_def)
  show ?thesis using assms by (simp add: set_up_def k subscribed_def durable_def configured_def)
qed

text \<open>
  C37: the three services agree on the stream. When the API, the delivery scheduler and the
  processor have started on the same broker, the work-queue stream with the subjects below notify
  exists, every topic any of them publishes on lies in it and has exactly one durable consumer,
  with no delivery limit except on the three priority topics, where it is one more than the
  configured number of attempts; and no consumer reads anything else.
\<close>

theorem services_share_the_stream:
  assumes I: "infra_ok I view" and none: "iv_consumers (view w) = []"
    and a: "api_New I L T X acfg w = (Started a, w1)"
    and d: "ds_New I L T dcfg w1 = (Started d, w2)"
    and p: "processor_New I build conv T pcfg w2 = (Started p, w3)"
  shows "iv_streams (view w3) notificationStream = Some (stream_config_of notificationStream [''notify.>''])
    \<and> (\<forall>t \<in> set published_topics. subject_matches ''notify.>'' t
        \<and> (\<exists>c. filter (\<lambda>c. cc_Subject c = t) (iv_consumers (view w3)) = [c]
             \<and> cc_MaxDeliver c = (if t \<in> {TopicHigh, TopicNormal, TopicLow} then wrap64 (pc_MaxAttempts pcfg + 1) else 0)))
    \<and> set (map cc_Subject (iv_consumers (view w3))) = set published_topics"
proof -
  let ?m = "wrap64 (pc_MaxAttempts pcfg + 1)"
  note v = api_New_view(1) [OF I a] ds_New_view(1) [OF I d] processor_New_view(1) [OF I p]
  have c: "iv_consumers (view w3) =
      [durable TopicStatus ''api-status'' 0, durable TopicScheduledNotificationDue ''api-scheduled-due'' 0,
       durable TopicNotificationScheduled ''ds-scheduled'' 0,
       durable TopicNotificationScheduleCancelled ''ds-cancel'' 0,
       durable TopicHigh ''processor-high'' ?m, durable TopicNormal ''processor-normal'' ?m,
       durable TopicLow ''processor-low'' ?m]"
    unfolding v using none by (rule all_durables)
  have k: "iv_streams (subscribed c u) = iv_streams u" for c u
    by (simp add: subscribed_def)
  have "iv_streams (view w3) notificationStream = Some notification_stream"
    by (simp add: v(3) set_up_def k configured_def notification_stream_def stream_config_of_def)
  moreover have "subject_matches ''notify.>'' t" if "t \<in> set published_topics" for t
    using that by (auto simp: published_topics_def TopicByPriority_def subject_matches_def topic_defs)
  moreover have "\<exists>c. filter (\<lambda>c. cc_Subject c = t) (iv_consumers (view w3)) = [c]
       \<and> cc_MaxDeliver c = (if t \<in> {TopicHigh, TopicNormal, TopicLow} then ?m else 0)"
    if "t \<in> set published_topics" for t
    using that by (auto simp: c published_topics_def TopicByPriority_def durable_def topic_defs enum_defs)
  moreover have "set (map cc_Subject (iv_consumers (view w3))) = set published_topics"
    by (auto simp: c published_topics_def TopicByPriority_def durable_def topic_defs enum_defs)
  ultimately show ?thesis by (simp add: notification_stream_def)
qed

definition sample_api_cfg :: api_config where
  "sample_api_cfg = \<lparr>ac_Base = sample_base, ac_DatabaseURL = ''d'', ac_NATSAddr = ''n'', ac_Port = 8080,
     ac_SchedulerInterval = 5000000000\<rparr>"

definition sample_ds_cfg :: ds_config where
  "sample_ds_cfg = \<lparr>dc_Base = sample_base, dc_DatabaseURL = ''d'', dc_NATSAddr = ''n'', dc_PollBatchSize = 100,
     dc_PollInterval = 5000000000\<rparr>"

definition sample_tracing :: tracing where
  "sample_tracing = \<lparr>tr_start = (\<lambda>_ _ h. h), tr_extract = (\<lambda>_ h. h)\<rparr>"

definition sample_outside :: api_outside where
  "sample_outside = \<lparr>ao_docs = (\<lambda>r w s. ((None, w), s)), ao_ping = (\<lambda>_ s. (None, s)), ao_order = (\<lambda>ps. ps)\<rparr>"

theorem services_share_the_stream_witness:
  "\<exists>v :: infra_view. iv_streams v notificationStream = Some (stream_config_of notificationStream [''notify.>''])
    \<and> set (map cc_Subject (iv_consumers v)) = set published_topics"
proof -
  let ?I = "sample_infra False False"
  obtain a w1 where a: "api_New ?I sample_lib sample_tracing sample_outside sample_api_cfg bare = (Started a, w1)"
    using sample_api_starts by blast
  obtain d w2 where d: "ds_New ?I sample_lib sample_tracing sample_ds_cfg w1 = (Started d, w2)"
    using sample_ds_starts by blast
  obtain p w3 where p: "processor_New ?I (\<lambda>_ _. None) (\<lambda>_. 0) sample_tracing sample_cfg w2 = (Started p, w3)"
    using sample_processor_starts by blast
  have "iv_consumers bare = []" by (simp add: bare_def)
  note s = services_share_the_stream [OF sample_infra_ok this a d p]
  show ?thesis using s [THEN conjunct1] s [THEN conjunct2, THEN conjunct2] by blast
qed

text \<open>A subscription reads a payload as an event, with the delivery's number.\<close>

definition reads_as :: "'e subscription \<Rightarrow> json \<Rightarrow> 'e \<Rightarrow> bool" where
  "reads_as S j e \<longleftrightarrow> (\<forall>m. im_Data m = Some j \<longrightarrow>
     decode S m = ([], Some \<lparr>rm_Ctx = su_start S (im_Header m), rm_Event = e, rm_Msg = im_Msg m,
       rm_AttemptNumber = attempt_number (im_NumDelivered m)\<rparr>))"

lemma reads_asI: "su_unmarshal S j = Inr e \<Longrightarrow> reads_as S j e"
  by (simp add: reads_as_def decode_def)



text \<open>
  What a failed start leaves open. The scheduler's \<open>New\<close> that returns an error has closed the
  database and the broker connection again. The processor's has done so when the metrics cannot be
  registered, but an error from ensuring the stream leaves its Redis client and its broker
  connection open. The API's \<open>New\<close> returns no error: it panics.
\<close>

theorem failed_start_releases:
  assumes I: "infra_ok I view"
  shows "(ds_New I L T dcfg w = (StartError e, w') \<longrightarrow> iv_opened (view w') = iv_opened (view w))
    \<and> (processor_New I build conv T pcfg w = (StartError e, w') \<longrightarrow>
        (\<exists>c. e = Wrap ''init metrics: '' c '''') \<and> iv_opened (view w') = iv_opened (view w)
        \<or> (\<exists>c. e = Wrap ''ensure nats stream: '' c '''')
          \<and> iv_opened (view w') = iv_opened (view w) + {#RedisClient, BrokerConnection#})
    \<and> api_New I L T X acfg w \<noteq> (StartError e, w')"
proof (intro conjI impI notI)
  assume n: "ds_New I L T dcfg w = (StartError e, w')"
  let ?ensure = "EnsureStream I notificationStream [''notify.>'']"
  from n [unfolded ds_New_def] obtain w1 w2 where
    1: "bun_Connect I (dc_DatabaseURL dcfg) w = (Started (), w1)"
    and 2: "NewHandle I (dc_NATSAddr dcfg) w1 = (Started (), w2)"
    and k: "(\<exists>w3. ?ensure w2 = (Some e, w3) \<and> w' = if_DBClose I (handle_Close I w3))"
    by (auto elim!: and_then_errorE split: prod.split_asm option.split_asm)
  then obtain w3 where 3: "?ensure w2 = (Some e, w3)" and w': "w' = if_DBClose I (handle_Close I w3)" by blast
  show "iv_opened (view w') = iv_opened (view w)"
    using view_Connect [OF I 1] view_Handle [OF I 2] view_Ensure [OF I 3] I
    by (simp add: w' view_close acquired_def released_def)
next
  assume n: "processor_New I build conv T pcfg w = (StartError e, w')"
  show "(\<exists>c. e = Wrap ''init metrics: '' c '''') \<and> iv_opened (view w') = iv_opened (view w)
      \<or> (\<exists>c. e = Wrap ''ensure nats stream: '' c '''')
        \<and> iv_opened (view w') = iv_opened (view w) + {#RedisClient, BrokerConnection#}"
  proof -
    from n obtain w1 w2 w3 x where 1: "redis_NewClient I (pc_RedisAddr pcfg) w = (Started (), w1)"
      and 2: "NewHandle I (pc_NATSAddr pcfg) w1 = (Started (), w2)"
      and 3: "EnsureStream I notificationStream [''notify.>''] w2 = (x, w3)"
      and or: "x = None \<and> (\<exists>c w4. NewMetrics I w3 = (Some c, w4) \<and> e = Wrap ''init metrics: '' c ''''
            \<and> w' = if_RedisClose I (handle_Close I w4))
          \<or> (\<exists>c. x = Some c \<and> e = Wrap ''ensure nats stream: '' c '''' \<and> w' = w3)"
      unfolding processor_New_def
      by (auto elim!: and_then_errorE split: prod.split_asm option.split_asm)
    note v = view_Redis [OF I 1] view_Handle [OF I 2] view_Ensure [OF I 3]
    from or show ?thesis
    proof (elim disjE conjE exE)
      fix c w4
      assume m: "NewMetrics I w3 = (Some c, w4)"
        and *: "x = None" "w' = if_RedisClose I (handle_Close I w4)" "e = Wrap ''init metrics: '' c ''''"
      from view_register [OF I m [unfolded NewMetrics_def]] have "view w4 = view w3" .
      with v I * show ?thesis by (simp add: view_close acquired_def released_def configured_def)
    qed (simp add: v acquired_def)
  qed
next
  assume "api_New I L T X acfg w = (StartError e, w')"
  then show False
    by (auto simp: api_New_def Let_def and_then_error)
qed


section \<open>An empty environment\<close>

text \<open>
  The variables with a default, or without one but not required; the others of a service are
  required.
\<close>

definition optional_variables :: "string list" where
  "optional_variables = map fst proc_defaults
     @ [''PORT'', ''SCHEDULER_INTERVAL'', ''POLL_BATCH_SIZE'', ''POLL_INTERVAL'',
        ''LOG_LEVEL'', ''OTEL_ENABLED'', ''OTEL_SERVICE_NAME'', ''OTEL_ENDPOINT'']"

text \<open>
  The configuration of an empty environment. With only the required variables set, the API
  listens on port 8080, the scheduler polls 100 rows every five seconds, and the processor runs ten
  workers over channels weighted 3, 2 and 1 whose consumers deliver a message at most five times;
  a service with an empty required variable does not start at all.
\<close>

theorem empty_environment:
  assumes u: "\<forall>k \<in> set optional_variables. unset_reads lib parse k"
    and p: "parse ''5s'' = Some 5000000000" "parse ''10s'' = Some 10000000000"
    and r: "\<forall>k d. k \<in> {''DATABASE_URL'', ''NATS_ADDR'', ''REDIS_ADDR''} \<longrightarrow> vl_string lib k d = req k"
  shows "(api_Load lib = None \<longleftrightarrow> req ''DATABASE_URL'' = '''' \<or> req ''NATS_ADDR'' = '''')
    \<and> (ds_Load lib = None \<longleftrightarrow> req ''DATABASE_URL'' = '''' \<or> req ''NATS_ADDR'' = '''')
    \<and> (proc_Load lib = None \<longleftrightarrow> req ''NATS_ADDR'' = '''' \<or> req ''REDIS_ADDR'' = '''')
    \<and> (\<forall>c. api_Load lib = Some c \<longrightarrow> ac_Port c = 8080)
    \<and> (\<forall>c. ds_Load lib = Some c \<longrightarrow> dc_PollBatchSize c = 100 \<and> dc_PollInterval c = 5000000000
         \<and> bc_OTelServiceName (dc_Base c) = ''deliveryscheduler'')
    \<and> (\<forall>c h n l. proc_Load lib = Some c \<longrightarrow> pc_ClientTimeout c = 10000000000
         \<and> (case proc_New c h n l of None \<Rightarrow> False
            | Some rc \<Rightarrow> rc_concurrency rc = 10 \<and> rc_maxDeliver rc = 5
                \<and> NewPriorityRouter [\<lparr>ws_Ch = h, ws_Weight = 3\<rparr>, \<lparr>ws_Ch = n, ws_Weight = 2\<rparr>,
                     \<lparr>ws_Ch = l, ws_Weight = 1\<rparr>] = Some (rc_router rc)))"
proof -
  have o: "unset_reads lib parse k" if "k \<in> set optional_variables" for k using u that by blast
  note o = o [of "''PORT''"] o [of "''POLL_BATCH_SIZE''"] o [of "''POLL_INTERVAL''"] o [of "''OTEL_SERVICE_NAME''"]
    o [of "''WORKER_CONCURRENCY''"] o [of "''MAX_ATTEMPTS''"] o [of "''NTFN_DELIVERY_CLIENT_TIMEOUT''"]
    o [of "''HIGH_WEIGHT''"] o [of "''NORMAL_WEIGHT''"] o [of "''LOW_WEIGHT''"]
  note o = o [unfolded optional_variables_def proc_defaults_def, simplified]
  have r': "vl_string lib ''DATABASE_URL'' x = req ''DATABASE_URL''" "vl_string lib ''NATS_ADDR'' x = req ''NATS_ADDR''"
    "vl_string lib ''REDIS_ADDR'' x = req ''REDIS_ADDR''" for x using r by blast+
  note get = GetString_def GetInt_def GetDuration_def LoadBase_def
  have port: "ac_Port c = 8080" if "api_Load lib = Some c" for c
    using that o(1) by (auto simp: api_Load_def get Let_def unset_reads_def split: if_splits)
  have poll: "dc_PollBatchSize c = 100 \<and> dc_PollInterval c = 5000000000
      \<and> bc_OTelServiceName (dc_Base c) = ''deliveryscheduler''" if "ds_Load lib = Some c" for c
    using that o(2,3,4) p(1) by (auto simp: ds_Load_def get Let_def unset_reads_def split: if_splits)
  let ?v = "fold (\<lambda>(k, d). SetDefault k d) proc_defaults (NewViper lib)"
  have def: "vi_defaults ?v ''WORKER_CONCURRENCY'' = Some (VInt 10)"
    "vi_defaults ?v ''MAX_ATTEMPTS'' = Some (VInt MaxAttempts)"
    "vi_defaults ?v ''NTFN_DELIVERY_CLIENT_TIMEOUT'' = Some (VString ''10s'')"
    "vi_defaults ?v ''HIGH_WEIGHT'' = Some (VInt 3)" "vi_defaults ?v ''NORMAL_WEIGHT'' = Some (VInt 2)"
    "vi_defaults ?v ''LOW_WEIGHT'' = Some (VInt 1)"
    by (simp_all add: proc_defaults_def)
  have read: "GetInt ?v ''WORKER_CONCURRENCY'' = 10" "GetInt ?v ''MAX_ATTEMPTS'' = 4"
    "GetDuration ?v ''NTFN_DELIVERY_CLIENT_TIMEOUT'' = 10000000000" "GetInt ?v ''HIGH_WEIGHT'' = 3"
    "GetInt ?v ''NORMAL_WEIGHT'' = 2" "GetInt ?v ''LOW_WEIGHT'' = 1"
    using o(5-10) p(2) by (simp_all add: GetInt_def GetDuration_def def unset_reads_def MaxAttempts_def)
  have work: "pc_ClientTimeout c = 10000000000 \<and> pc_WorkerConcurrency c = 10 \<and> pc_MaxAttempts c = 4
      \<and> pc_HighWeight c = 3 \<and> pc_NormalWeight c = 2 \<and> pc_LowWeight c = 1" if "proc_Load lib = Some c" for c
    using that unfolding proc_Load_def Let_def by (auto simp: read split: if_splits)
  have none: "api_Load lib = None \<longleftrightarrow> req ''DATABASE_URL'' = '''' \<or> req ''NATS_ADDR'' = ''''"
    "ds_Load lib = None \<longleftrightarrow> req ''DATABASE_URL'' = '''' \<or> req ''NATS_ADDR'' = ''''"
    "proc_Load lib = None \<longleftrightarrow> req ''NATS_ADDR'' = '''' \<or> req ''REDIS_ADDR'' = ''''"
    by (simp_all add: api_Load_def ds_Load_def proc_Load_def Let_def GetString_def r')
  have new: "case proc_New c h n l of None \<Rightarrow> False
            | Some rc \<Rightarrow> rc_concurrency rc = 10 \<and> rc_maxDeliver rc = 5
                \<and> NewPriorityRouter [\<lparr>ws_Ch = h, ws_Weight = 3\<rparr>, \<lparr>ws_Ch = n, ws_Weight = 2\<rparr>,
                     \<lparr>ws_Ch = l, ws_Weight = 1\<rparr>] = Some (rc_router rc)" if "proc_Load lib = Some c" for c h n l
    using work [OF that]
    by (auto simp: proc_New_def NewNotificationReadyConsumer_def NewPriorityRouter_def int64_def split: option.split)
  show ?thesis using port poll work none new by blast
qed

theorem empty_environment_witness:
  "\<exists>c. proc_Load (env_lib [''NATS_ADDR'' \<mapsto> ''n'', ''REDIS_ADDR'' \<mapsto> ''r'', ''DATABASE_URL'' \<mapsto> ''d'']
      [''5s'' \<mapsto> 5000000000, ''10s'' \<mapsto> 10000000000]) = Some c \<and> pc_ClientTimeout c = 10000000000"
proof -
  let ?env = "[''NATS_ADDR'' \<mapsto> ''n'', ''REDIS_ADDR'' \<mapsto> ''r'', ''DATABASE_URL'' \<mapsto> ''d'']"
  let ?parse = "[''5s'' \<mapsto> 5000000000, ''10s'' \<mapsto> 10000000000 :: int]"
  let ?req = "\<lambda>k. case ?env k of Some s \<Rightarrow> s | None \<Rightarrow> ''''"
  have u: "\<forall>k \<in> set optional_variables. unset_reads (env_lib ?env ?parse) ?parse k"
    by (intro ballI env_unset) (auto simp: optional_variables_def proc_defaults_def)
  have r: "\<forall>k d. k \<in> {''DATABASE_URL'', ''NATS_ADDR'', ''REDIS_ADDR''} \<longrightarrow> vl_string (env_lib ?env ?parse) k d = ?req k"
    by (auto simp: env_lib_def)
  have "?parse ''5s'' = Some 5000000000" "?parse ''10s'' = Some 10000000000" by simp_all
  from empty_environment [OF u this r] show ?thesis
    by (cases "proc_Load (env_lib ?env ?parse)") simp_all
qed

end
