(* ===== verification/Process.thy ===== *)
theory Process
  imports DeployLaws
begin

text \<open>
  The three main functions (api/cmd, deliveryscheduler/cmd, processor/cmd): loading the
  configuration, logging and telemetry, building the service, running it until a signal, and what
  the deferred calls release on each way out. What runs between \<open>Start\<close> and the return of its stop
  function is a parameter: it ends normally, or a goroutine panics and takes the process with it.
\<close>

section \<open>Ways out\<close>

text \<open>
  A main function returns, which runs its deferred calls; calls \<open>os.Exit\<close>, which does not; or
  panics: in its own goroutine the deferred calls run, in another one they do not.
\<close>

datatype exit = ExitReturned | ExitStatus int | ExitPanic string

record 'w process_env =
  pe_logger :: "int \<Rightarrow> 'w \<Rightarrow> 'w"
  pe_sdk :: "'w otel_sdk"

definition logger_Init :: "'w process_env \<Rightarrow> string \<Rightarrow> 'w \<Rightarrow> 'w" where
  "logger_Init E level w = pe_logger E (ParseLevel level) w"

text \<open>The deferred call of the telemetry's shutdown hook ignores its error.\<close>

definition start_telemetry :: "'w process_env \<Rightarrow> base_config \<Rightarrow> 'w \<Rightarrow> ('w \<Rightarrow> 'w) result \<times> 'w" where
  "start_telemetry E base w =
     (if bc_OTelEnabled base
      then (case otel_Init (pe_sdk E) (bc_OTelServiceName base) (bc_OTelEndpoint base) (bc_LogLevel base) w of
              (Inl e, w1) \<Rightarrow> (Inl e, w1)
            | (Inr hook, w1) \<Rightarrow> (Inr (\<lambda>v. snd (hook v)), w1))
      else (Inr (\<lambda>v. v), w))"

text \<open>
  The body the three functions share after \<open>config.Load\<close>. \<open>otelShutdown\<close> and \<open>cleanup\<close> are deferred:
  the first before the service is built, the second after.
\<close>

definition main_with ::
  "'w process_env \<Rightarrow> base_config \<Rightarrow> ('w \<Rightarrow> 'a started \<times> 'w) \<Rightarrow> ('w \<Rightarrow> 'w)
   \<Rightarrow> ('a \<Rightarrow> 'w \<Rightarrow> string option \<times> 'w) \<Rightarrow> 'w \<Rightarrow> exit \<times> 'w" where
  "main_with E base new cleanup run w =
     (case start_telemetry E base (logger_Init E (bc_LogLevel base) w) of
        (Inl e, w1) \<Rightarrow> (ExitStatus 1, w1)
      | (Inr otelShutdown, w1) \<Rightarrow>
          (case new w1 of
             (StartPanic m, w2) \<Rightarrow> (ExitPanic m, otelShutdown w2)
           | (StartError e, w2) \<Rightarrow> (ExitStatus 1, w2)
           | (Started a, w2) \<Rightarrow>
               (case run a w2 of
                  (Some m, w3) \<Rightarrow> (ExitPanic m, w3)
                | (None, w3) \<Rightarrow> (ExitReturned, otelShutdown (cleanup w3)))))"

definition api_main ::
  "'w process_env \<Rightarrow> 'w infra \<Rightarrow> golib \<Rightarrow> tracing \<Rightarrow> api_outside \<Rightarrow> viper_lib
   \<Rightarrow> (api_app \<Rightarrow> 'w \<Rightarrow> string option \<times> 'w) \<Rightarrow> 'w \<Rightarrow> exit \<times> 'w" where
  "api_main E I L T X lib run w =
     (case api_Load lib of
        None \<Rightarrow> (ExitStatus 1, w)
      | Some cfg \<Rightarrow> main_with E (ac_Base cfg) (api_New I L T X cfg) (api_cleanup I) run w)"

definition ds_main ::
  "'w process_env \<Rightarrow> 'w infra \<Rightarrow> golib \<Rightarrow> tracing \<Rightarrow> viper_lib
   \<Rightarrow> (ds_app \<Rightarrow> 'w \<Rightarrow> string option \<times> 'w) \<Rightarrow> 'w \<Rightarrow> exit \<times> 'w" where
  "ds_main E I L T lib run w =
     (case ds_Load lib of
        None \<Rightarrow> (ExitStatus 1, w)
      | Some cfg \<Rightarrow> main_with E (dc_Base cfg) (ds_New I L T cfg) (ds_cleanup I) run w)"

definition proc_main ::
  "'w process_env \<Rightarrow> 'w infra \<Rightarrow> (string \<Rightarrow> string \<Rightarrow> go_error option) \<Rightarrow> (int \<Rightarrow> duration) \<Rightarrow> tracing
   \<Rightarrow> viper_lib \<Rightarrow> (proc_app \<Rightarrow> 'w \<Rightarrow> string option \<times> 'w) \<Rightarrow> 'w \<Rightarrow> exit \<times> 'w" where
  "proc_main E I build conv T lib run w =
     (case proc_Load lib of
        None \<Rightarrow> (ExitStatus 1, w)
      | Some cfg \<Rightarrow> main_with E (pc_Base cfg) (processor_New I build conv T cfg) (proc_cleanup I) run w)"

section \<open>What each way out leaves\<close>

text \<open>Telemetry, logging and the running service neither open nor close connections.\<close>

definition keeps :: "('w \<Rightarrow> resource multiset) \<Rightarrow> ('w \<Rightarrow> 'a \<times> 'w) \<Rightarrow> bool" where
  "keeps opened call \<longleftrightarrow> (\<forall>w r w'. call w = (r, w') \<longrightarrow> opened w' = opened w)"

definition env_ok :: "'w process_env \<Rightarrow> ('w \<Rightarrow> resource multiset) \<Rightarrow> bool" where
  "env_ok E opened \<longleftrightarrow>
     (\<forall>l w. opened (pe_logger E l w) = opened w)
     \<and> (\<forall>n. keeps opened (os_resource (pe_sdk E) n)) \<and> (\<forall>p c. keeps opened (os_exporter (pe_sdk E) p c))
     \<and> (\<forall>p w. opened (os_SetProvider (pe_sdk E) p w) = opened w)
     \<and> (\<forall>l w. opened (os_SetDefaultLevel (pe_sdk E) l w) = opened w)
     \<and> (\<forall>p. keeps opened (os_Shutdown (pe_sdk E) p))"

lemma keepsD: "keeps opened call \<Longrightarrow> call w = (r, w') \<Longrightarrow> opened w' = opened w"
  by (simp add: keeps_def)

lemma hook_keeps:
  assumes "env_ok E opened"
  shows "opened (snd (shutdown_hook (pe_sdk E) w)) = opened w"
proof -
  have k: "keeps opened (os_Shutdown (pe_sdk E) p)" for p using assms by (simp add: env_ok_def)
  show ?thesis
    by (auto simp: shutdown_hook_def split: prod.split dest!: keepsD [OF k])
qed

lemma telemetry_keeps:
  assumes E: "env_ok E opened" and s: "start_telemetry E base w = (r, w')"
  shows "opened w' = opened w"
    and "r = Inr f \<Longrightarrow> opened (f v) = opened v"
    and "r = Inr f \<Longrightarrow> bc_OTelEnabled base \<Longrightarrow> f = (\<lambda>v. snd (shutdown_hook (pe_sdk E) v))"
proof -
  have k: "keeps opened (os_resource (pe_sdk E) n)" "keeps opened (os_exporter (pe_sdk E) p c)"
    "opened (os_SetProvider (pe_sdk E) p x) = opened x" "opened (os_SetDefaultLevel (pe_sdk E) l x) = opened x"
    for n p c l x using E by (simp_all add: env_ok_def)
  show "opened w' = opened w"
    using s by (auto simp: start_telemetry_def otel_Init_def k split: if_splits prod.split_asm option.split_asm sum.split_asm
        dest!: keepsD [OF k(1)] keepsD [OF k(2)])
  show hook: "r = Inr f \<Longrightarrow> bc_OTelEnabled base \<Longrightarrow> f = (\<lambda>v. snd (shutdown_hook (pe_sdk E) v))" for f
    using s by (auto simp: start_telemetry_def otel_Init_def split: prod.split_asm option.split_asm sum.split_asm)
  show "r = Inr f \<Longrightarrow> opened (f v) = opened v"
    using s hook [of f] hook_keeps [OF E] by (cases "bc_OTelEnabled base") (auto simp: start_telemetry_def)
qed

lemma main_cases:
  assumes E: "env_ok E opened" and m: "main_with E base new cleanup run w = (x, w')"
  obtains (no_telemetry) "x = ExitStatus 1" "opened w' = opened w"
    | (failed) e w1 w2 where "x = ExitStatus 1" "new w1 = (StartError e, w2)" "opened w1 = opened w" "w' = w2"
    | (panicked) m w1 w2 where "x = ExitPanic m" "new w1 = (StartPanic m, w2)" "opened w1 = opened w"
        "opened w' = opened w2"
    | (crashed) m a w1 w2 where "x = ExitPanic m" "new w1 = (Started a, w2)" "opened w1 = opened w"
        "run a w2 = (Some m, w')"
    | (returned) a w1 w2 w3 f where "x = ExitReturned" "new w1 = (Started a, w2)" "opened w1 = opened w"
        "run a w2 = (None, w3)" "w' = f (cleanup w3)" "opened w' = opened (cleanup w3)"
        "bc_OTelEnabled base \<longrightarrow> f = (\<lambda>v. snd (shutdown_hook (pe_sdk E) v))"
proof -
  have l: "opened (logger_Init E (bc_LogLevel base) w) = opened w"
    using E by (simp add: logger_Init_def env_ok_def)
  obtain r w1 where s: "start_telemetry E base (logger_Init E (bc_LogLevel base) w) = (r, w1)" by fastforce
  note k = telemetry_keeps [OF E s]
  show thesis
  proof (cases r)
    case (Inl e)
    with m s k(1) l show thesis by (intro no_telemetry) (auto simp: main_with_def)
  next
    case (Inr f)
    obtain y w2 where y: "new w1 = (y, w2)" by fastforce
    show thesis
    proof (cases y)
      case (Started a)
      obtain z w3 where z: "run a w2 = (z, w3)" by fastforce
      show thesis
      proof (cases z)
        case None
        with m s Inr y Started z have "x = ExitReturned" "w' = f (cleanup w3)" by (simp_all add: main_with_def)
        moreover have "opened (f (cleanup w3)) = opened (cleanup w3)"
          "bc_OTelEnabled base \<longrightarrow> f = (\<lambda>v. snd (shutdown_hook (pe_sdk E) v))" using k(2,3) Inr by simp_all
        ultimately show thesis
          using k(1) l y Started z None by (intro returned [of w1 a w2 w3 f]) simp_all
      next
        case (Some p)
        with m s Inr y Started z k(1) l show thesis
          by (intro crashed [of p w1 a w2]) (simp_all add: main_with_def)
      qed
    next
      case (StartError e)
      with m s Inr y k(1) l show thesis by (intro failed [of w1 e w2]) (simp_all add: main_with_def)
    next
      case (StartPanic p)
      have "opened (f w2) = opened w2" using k(2) Inr by simp
      with m s Inr y StartPanic k(1) l show thesis by (intro panicked [of p w1 w2]) (simp_all add: main_with_def)
    qed
  qed
qed

text \<open>The connections a start opens and a cleanup closes.\<close>

lemma set_up_opened: "iv_opened (set_up cs rs v) = iv_opened v + mset rs"
proof -
  have c: "iv_opened (fold subscribed cs x) = iv_opened x" for x
    by (induction cs arbitrary: x) (simp_all add: subscribed_def)
  have "iv_opened (fold acquired rs x) = iv_opened x + mset rs" for x
    by (induction rs arbitrary: x) (simp_all add: acquired_def)
  then show ?thesis by (simp add: set_up_def c configured_def)
qed

lemma cleanup_closes:
  assumes I: "infra_ok I view"
  shows "iv_opened (view w) = o' + {#DatabasePool, BrokerConnection#} \<Longrightarrow> iv_opened (view (api_cleanup I w)) = o'"
    and "iv_opened (view w) = o' + {#DatabasePool, BrokerConnection#} \<Longrightarrow> iv_opened (view (ds_cleanup I w)) = o'"
    and "iv_opened (view w) = o' + {#RedisClient, BrokerConnection#} \<Longrightarrow> iv_opened (view (proc_cleanup I w)) = o'"
  using I by (simp_all add: api_cleanup_def ds_cleanup_def proc_cleanup_def view_close released_def)

text \<open>
  The end of a process: after a return nothing is open that was not open before, and telemetry, if
  enabled, was flushed last; \<open>left\<close> is what a failed start may leave open.
\<close>

definition ended ::
  "'w process_env \<Rightarrow> ('w \<Rightarrow> resource multiset) \<Rightarrow> base_config \<Rightarrow> resource multiset set \<Rightarrow> 'w \<Rightarrow> exit \<times> 'w \<Rightarrow> bool" where
  "ended E opened base left w r \<longleftrightarrow> (case r of (x, w') \<Rightarrow>
     (x = ExitReturned \<longrightarrow> opened w' = opened w
        \<and> (bc_OTelEnabled base \<longrightarrow> (\<exists>v. w' = snd (shutdown_hook (pe_sdk E) v))))
     \<and> (\<forall>n. x = ExitStatus n \<longrightarrow> n = 1 \<and> (opened w' = opened w \<or> (\<exists>l \<in> left. opened w' = opened w + l))))"

lemma main_ended:
  assumes E: "env_ok E opened" and run: "\<forall>a. keeps opened (run a)"
    and new: "\<And>w a w'. new w = (Started a, w') \<Longrightarrow> opened w' = opened w + rs"
    and cleanup: "\<And>o' w. opened w = o' + rs \<Longrightarrow> opened (cleanup w) = o'"
    and failed: "\<And>w e w'. new w = (StartError e, w') \<Longrightarrow>
      opened w' = opened w \<or> (\<exists>l \<in> left. opened w' = opened w + l)"
  shows "ended E opened base left w (main_with E base new cleanup run w)"
proof -
  obtain x w' where m: "main_with E base new cleanup run w = (x, w')" by fastforce
  with E have "ended E opened base left w (x, w')"
  proof (cases rule: main_cases)
    case (failed e w1 w2)
    with assms(5) [OF failed(2)] show ?thesis by (simp add: ended_def)
  next
    case (returned a w1 w2 w3 f)
    have "keeps opened (run a)" using run by blast
    from keepsD [OF this returned(4)] new [OF returned(2)] returned(3)
    have "opened w3 = opened w + rs" by simp
    from cleanup [OF this] returned show ?thesis by (auto simp: ended_def)
  qed (simp_all add: ended_def)
  with m show ?thesis by simp
qed


definition sample_env :: "infra_view process_env" where
  "sample_env = \<lparr>pe_logger = (\<lambda>_ w. w), pe_sdk = \<lparr>
     os_resource = (\<lambda>_ w. (None, w)), os_exporter = (\<lambda>_ _ w. (None, w)), os_SetProvider = (\<lambda>_ w. w),
     os_SetDefaultLevel = (\<lambda>_ w. w), os_Shutdown = (\<lambda>_ w. (None, w))\<rparr>\<rparr>"


end
