(* ===== verification/Workers.thy ===== *)
theory Workers
  imports Processor
begin

text \<open>
  StartMessageProcessing of
  processor/internal/transport/messaging/notification_ready_consumer.go as the concurrent program it
  is: the workers of the pool share the router, Redis, the broker and the provider, and each run of the
  pipeline (processor/internal/delivery/pipeline.go) takes its five calls in turn, with the other
  workers, the clock and other instances of the processor in between.
\<close>

section \<open>Leases\<close>

text \<open>No identifier is claimed twice.\<close>

definition one_each :: "(string \<times> time) multiset \<Rightarrow> bool" where
  "one_each C \<longleftrightarrow> (\<forall>i. count (image_mset fst C) i \<le> 1)"

lemma one_each_empty [simp]: "one_each {#}"
  by (simp add: one_each_def)

lemma one_each_add: "one_each (add_mset (i, t) C) \<longleftrightarrow> one_each C \<and> (\<forall>x \<in># C. fst x \<noteq> i)"
proof -
  have "(\<forall>j. (if i = j then Suc (f j) else f j) \<le> 1) \<longleftrightarrow> (\<forall>j. f j \<le> 1) \<and> f i = (0 :: nat)" for f
    by (metis One_nat_def Suc_le_mono bot_nat_0.extremum le_zero_eq)
  from this [of "count (image_mset fst C)"]
  have "(\<forall>j. (if i = j then Suc (count (image_mset fst C) j) else count (image_mset fst C) j) \<le> 1)
      \<longleftrightarrow> (\<forall>j. count (image_mset fst C) j \<le> 1) \<and> count (image_mset fst C) i = 0" .
  moreover have "count (image_mset fst C) i = 0 \<longleftrightarrow> (\<forall>x \<in># C. fst x \<noteq> i)"
    unfolding count_eq_zero_iff by auto
  ultimately show ?thesis
    unfolding one_each_def image_mset_add_mset count_add_mset fst_conv by (simp only:)
qed

text \<open>
  What a client that finishes within the time limit may rely on: a lease is granted only when every
  earlier one for the identifier has run out, and no one else's call ends a lease that has not.
\<close>

locale lease_port =
  fixes try_lock :: "string \<Rightarrow> 'w \<Rightarrow> bool result \<times> 'w"
    and unlock :: "string \<Rightarrow> 'w \<Rightarrow> unit result \<times> 'w"
    and leased :: "'w \<Rightarrow> string \<Rightarrow> time \<Rightarrow> bool"
    and clock :: "'w \<Rightarrow> time"
    and ttl :: duration
  assumes lease_taken: "try_lock i w = (Inr True, w') \<Longrightarrow> leased w' i (clock w) \<and> (\<forall>t. leased w i t \<longrightarrow> t + ttl \<le> clock w)"
    and lease_kept: "try_lock i w = (r, w') \<Longrightarrow> leased w j t \<Longrightarrow> clock w < t + ttl \<Longrightarrow> leased w' j t"
    and unlock_kept: "unlock i w = (q, w') \<Longrightarrow> leased w j t \<Longrightarrow> j \<noteq> i \<Longrightarrow> leased w' j t"
    and clock_kept: "try_lock i w = (r, w') \<Longrightarrow> clock w' = clock w" "unlock i w = (q, w') \<Longrightarrow> clock w' = clock w"
begin

lemma take_lease:
  assumes "try_lock i w = (Inr True, w')" "one_each C"
    and "\<And>j t. (j, t) \<in># C \<Longrightarrow> leased w j t \<and> clock w < t + ttl"
  shows "one_each (add_mset (i, clock w) C)"
    and "(j, t) \<in># add_mset (i, clock w) C \<Longrightarrow> leased w' j t"
proof -
  have "fst x \<noteq> i" if "x \<in># C" for x
    using assms(3) [of "fst x" "snd x"] that lease_taken [OF assms(1)] by force
  then show "one_each (add_mset (i, clock w) C)" using assms(2) by (simp add: one_each_add)
  show "leased w' j t" if "(j, t) \<in># add_mset (i, clock w) C"
    using that assms(3) lease_taken [OF assms(1)] lease_kept [OF assms(1)] by auto
qed

lemma drop_lease:
  assumes "unlock i w = (q, w')" "one_each (add_mset (i, t) C)"
    and "\<And>j t. (j, t) \<in># C \<Longrightarrow> leased w j t"
  shows "one_each C" and "(j, t') \<in># C \<Longrightarrow> leased w' j t'"
  using assms(2,3) unlock_kept [OF assms(1)] by (fastforce simp: one_each_add)+

end

definition redis_leased :: "redis \<Rightarrow> string \<Rightarrow> time \<Rightarrow> bool" where
  "redis_leased s i t \<longleftrightarrow> rd_keys s (lock_key i) = Some (t + lockTTL)"

interpretation redis_lease: lease_port TryLock Unlock redis_leased rd_now lockTTL
proof
  fix i s s'
  assume "TryLock i s = (Inr True, s')"
  then show "redis_leased s' i (rd_now s) \<and> (\<forall>t. redis_leased s i t \<longrightarrow> t + lockTTL \<le> rd_now s)"
    by (auto simp: redis_leased_def TryLock_def redis_command_def set_nx_def live_def Let_def
        split: option.splits if_splits prod.splits)
next
  fix i s r s' j t
  assume "TryLock i s = (r, s')" "redis_leased s j t" "rd_now s < t + lockTTL"
  then show "redis_leased s' j t"
    by (auto simp: redis_leased_def TryLock_def redis_command_def set_nx_def live_def lock_key_def Let_def
        split: option.splits if_splits prod.splits)
next
  fix i s q s' j t
  assume "Unlock i s = (q, s')" "redis_leased s j t" "j \<noteq> (i :: string)"
  then show "redis_leased s' j t"
    by (auto simp: redis_leased_def Unlock_def redis_command_def del_key_def lock_key_def Let_def
        split: option.splits if_splits prod.splits)
qed (auto simp: TryLock_def Unlock_def redis_command_def set_nx_def del_key_def Let_def
        split: option.splits if_splits prod.splits)

section \<open>The pool\<close>

text \<open>
  Where a worker is: at the condition of its loop, inside \<open>Next\<close>, with a message, inside \<open>Run\<close> after
  the lock, after the limiter, after the request, before the deferred release; or it has returned. The
  time is that of the server when the lock was taken.
\<close>

datatype phase =
    Idle
  | Looking
  | Fetched "ready_event delivered"
  | Claimed "ready_event delivered" time
  | Allowed "ready_event delivered" time
  | Sent "ready_event delivered" time delivery_result
  | Closing "ready_event delivered" time "unit result"
  | Gone

fun in_hand :: "phase \<Rightarrow> ready_event delivered option" where
  "in_hand (Fetched m) = Some m"
| "in_hand (Claimed m _) = Some m"
| "in_hand (Allowed m _) = Some m"
| "in_hand (Sent m _ _) = Some m"
| "in_hand (Closing m _ _) = Some m"
| "in_hand _ = None"

fun claim :: "phase \<Rightarrow> (string \<times> time) option" where
  "claim (Claimed m t) = Some (re_NotificationID (rm_Event m), t)"
| "claim (Allowed m t) = Some (re_NotificationID (rm_Event m), t)"
| "claim (Sent m t _) = Some (re_NotificationID (rm_Event m), t)"
| "claim (Closing m t _) = Some (re_NotificationID (rm_Event m), t)"
| "claim _ = None"

text \<open>The next call of a worker that has a message, and its answer once the call is the last.\<close>

fun advance :: "proc_world pipeline \<Rightarrow> phase \<Rightarrow> proc_world \<Rightarrow> (phase \<times> ack option \<times> proc_world) option" where
  "advance P (Fetched m) w =
     (case lk_TryLock (pl_locker P) (re_NotificationID (rm_Event m)) w of
        (Inl e, w1) \<Rightarrow> Some (Idle, Some (run_answer (Inl e)), w1)
      | (Inr lockAcquired, w1) \<Rightarrow>
          (if \<not> lockAcquired then Some (Idle, Some (run_answer (Inr ())), w1)
           else Some (Claimed m (rd_now (pw_redis w1)), None, w1)))"
| "advance P (Claimed m t) w =
     (case applyRateLimit P (rm_Event m) w of
        (Inl e, w1) \<Rightarrow> Some (Closing m t (Inl e), None, w1)
      | (Inr _, w1) \<Rightarrow> Some (Allowed m t, None, w1))"
| "advance P (Allowed m t) w =
     (case pl_Send P (re_Recipient (rm_Event m)) (re_Channel (rm_Event m)) (re_Content (rm_Event m)) w of
        (dr, w1) \<Rightarrow> Some (Sent m t dr, None, w1))"
| "advance P (Sent m t dr) w =
     (case handleDeliveryResult P (rm_Ctx m) (rm_Event m) dr (rm_AttemptNumber m) w of
        (r, w1) \<Rightarrow> Some (Closing m t r, None, w1))"
| "advance P (Closing m t r) w =
     Some (Idle, Some (run_answer r), snd (lk_Unlock (pl_locker P) (re_NotificationID (rm_Event m)) w))"
| "advance P _ w = None"

text \<open>
  The pool: the messages its workers have taken from the router and their answers, in order, and the
  locks that other instances of the processor hold.
\<close>

record pool =
  po_router :: "ready_event delivered router"
  po_workers :: "phase list"
  po_cancelled :: bool
  po_world :: proc_world
  po_elsewhere :: "(string \<times> time) list"
  po_taken :: "ready_event delivered list"
  po_answers :: "(ready_event delivered \<times> ack) list"

definition clock_of :: "pool \<Rightarrow> time" where
  "clock_of s = rd_now (pw_redis (po_world s))"

definition set_worker :: "nat \<Rightarrow> phase \<Rightarrow> pool \<Rightarrow> pool" where
  "set_worker j ph s = s\<lparr>po_workers := (po_workers s)[j := ph]\<rparr>"

definition answer_list :: "phase \<Rightarrow> ack option \<Rightarrow> (ready_event delivered \<times> ack) list" where
  "answer_list ph a = (case (in_hand ph, a) of (Some m, Some x) \<Rightarrow> [(m, x)] | _ \<Rightarrow> [])"

text \<open>A step of worker \<open>j\<close>.\<close>

inductive work :: "proc_world pipeline \<Rightarrow> nat \<Rightarrow> pool \<Rightarrow> pool \<Rightarrow> bool" for P :: "proc_world pipeline" and j :: nat where
  stop: "j < length (po_workers s) \<Longrightarrow> po_workers s ! j = Idle \<Longrightarrow> po_cancelled s \<Longrightarrow>
    work P j s (set_worker j Gone s)"
| look: "j < length (po_workers s) \<Longrightarrow> po_workers s ! j = Idle \<Longrightarrow> \<not> po_cancelled s \<Longrightarrow>
    work P j s (set_worker j Looking s)"
| take: "j < length (po_workers s) \<Longrightarrow> po_workers s ! j = Looking \<Longrightarrow>
    Next (po_router s) wake = (Value m, r) \<Longrightarrow>
    work P j s (set_worker j (Fetched m) s\<lparr>po_router := r, po_taken := po_taken s @ [m]\<rparr>)"
| none: "j < length (po_workers s) \<Longrightarrow> po_workers s ! j = Looking \<Longrightarrow>
    wake = WakeTimeout \<or> wake = WakeDone \<and> po_cancelled s \<or>
      wake = WakeClosed \<and> ch_closed (hd (ro_sources (po_router s))) \<Longrightarrow>
    Next (po_router s) wake = (NoValue, r) \<Longrightarrow>
    work P j s (set_worker j Idle s\<lparr>po_router := r\<rparr>)"
| call: "j < length (po_workers s) \<Longrightarrow> advance P (po_workers s ! j) (po_world s) = Some (ph, a, w) \<Longrightarrow>
    work P j s (set_worker j ph s\<lparr>po_world := w,
      po_answers := po_answers s @ answer_list (po_workers s ! j) a\<rparr>)"

text \<open>
  What happens around the workers: a subscription hands over a message or closes its channel, the
  context is cancelled, time passes, another instance takes a lock or releases one it holds.
\<close>

inductive around :: "pool \<Rightarrow> pool \<Rightarrow> bool" where
  arrival: "i < length (ro_sources (po_router s)) \<Longrightarrow> c = ro_sources (po_router s) ! i \<Longrightarrow> \<not> ch_closed c \<Longrightarrow>
    around s (s\<lparr>po_router := (po_router s)\<lparr>ro_sources := (ro_sources (po_router s))[i := c\<lparr>ch_ready := ch_ready c @ [m]\<rparr>]\<rparr>\<rparr>)"
| closing: "i < length (ro_sources (po_router s)) \<Longrightarrow> c = ro_sources (po_router s) ! i \<Longrightarrow> po_cancelled s \<Longrightarrow>
    around s (s\<lparr>po_router := (po_router s)\<lparr>ro_sources := (ro_sources (po_router s))[i := c\<lparr>ch_closed := True\<rparr>]\<rparr>\<rparr>)"
| cancelling: "around s (s\<lparr>po_cancelled := True\<rparr>)"
| tick: "clock_of s \<le> t \<Longrightarrow>
    around s (s\<lparr>po_world := set_redis ((pw_redis (po_world s))\<lparr>rd_now := t\<rparr>) (po_world s)\<rparr>)"
| taken_elsewhere: "TryLock i (pw_redis (po_world s)) = (Inr True, rd) \<Longrightarrow>
    around s (s\<lparr>po_world := set_redis rd (po_world s), po_elsewhere := (i, clock_of s) # po_elsewhere s\<rparr>)"
| released_elsewhere: "po_elsewhere s = xs @ (i, t) # ys \<Longrightarrow> Unlock i (pw_redis (po_world s)) = (q, rd) \<Longrightarrow>
    around s (s\<lparr>po_world := set_redis rd (po_world s), po_elsewhere := xs @ ys\<rparr>)"

text \<open>
  The pool's runs, with the number of steps of its workers; \<open>keep\<close> is what is assumed of every state
  the run passes through.
\<close>

inductive runs :: "proc_world pipeline \<Rightarrow> (pool \<Rightarrow> bool) \<Rightarrow> nat \<Rightarrow> pool \<Rightarrow> pool \<Rightarrow> bool"
  for P :: "proc_world pipeline" and keep :: "pool \<Rightarrow> bool" where
  start: "keep s \<Longrightarrow> runs P keep 0 s s"
| worker: "runs P keep n s s1 \<Longrightarrow> work P j s1 s2 \<Longrightarrow> keep s2 \<Longrightarrow> runs P keep (Suc n) s s2"
| around: "runs P keep n s s1 \<Longrightarrow> around s1 s2 \<Longrightarrow> keep s2 \<Longrightarrow> runs P keep n s s2"

text \<open>\<open>Start\<close>: the pool as the processor starts it, on a Redis and a broker in any state.\<close>

definition proc_Start :: "ready_consumer \<Rightarrow> proc_world \<Rightarrow> pool" where
  "proc_Start c w = \<lparr>
     po_router = rc_router c, po_workers = replicate (nat (rc_concurrency c)) Idle, po_cancelled = False,
     po_world = w, po_elsewhere = [], po_taken = [], po_answers = []\<rparr>"

text \<open>The stop function returns when every worker has.\<close>

definition all_gone :: "pool \<Rightarrow> bool" where
  "all_gone s \<longleftrightarrow> (\<forall>ph \<in> set (po_workers s). ph = Gone)"

section \<open>One worker per notification\<close>

text \<open>The locks held by the workers and elsewhere, each with the time it was taken.\<close>

definition claims :: "pool \<Rightarrow> (string \<times> time) multiset" where
  "claims s = mset (somes (map claim (po_workers s))) + mset (po_elsewhere s)"

definition in_time :: "pool \<Rightarrow> bool" where
  "in_time s \<longleftrightarrow> (\<forall>(i, t) \<in># claims s. clock_of s < t + lockTTL)"

definition pool_ok :: "pool \<Rightarrow> bool" where
  "pool_ok s \<longleftrightarrow> one_each (claims s) \<and> (\<forall>(i, t) \<in># claims s. redis_leased (pw_redis (po_world s)) i t)"

fun mset_of :: "'a option \<Rightarrow> 'a multiset" where
  "mset_of None = {#}"
| "mset_of (Some x) = {#x#}"

lemma mset_somes_update:
  assumes "j < length xs"
  obtains D where "mset (somes (map f xs)) = mset_of (f (xs ! j)) + D"
    "\<And>p. mset (somes (map f (xs[j := p]))) = mset_of (f p) + D"
proof -
  have cons: "mset (somes (x # xs)) = mset_of x + mset (somes xs)" for x :: "'b option" and xs
    by (cases x) auto
  have "\<exists>D. \<forall>p. mset (somes (map f (xs[j := p]))) = mset_of (f p) + D"
    using assms
  proof (induction xs arbitrary: j)
    case (Cons x xs)
    show ?case
    proof (cases j)
      case (Suc k)
      with Cons obtain D where "\<forall>p. mset (somes (map f (xs[k := p]))) = mset_of (f p) + D" by fastforce
      then show ?thesis by (intro exI [of _ "mset_of (f x) + D"]) (simp add: Suc cons)
    qed (auto simp: cons)
  qed simp
  then obtain D where D: "\<And>p. mset (somes (map f (xs[j := p]))) = mset_of (f p) + D" by blast
  show thesis by (rule that [of D]) (use D [of "xs ! j"] assms D in simp_all)
qed

lemma claims_update:
  assumes "j < length (po_workers s)"
  obtains D where "claims s = mset_of (claim (po_workers s ! j)) + D"
    "\<And>p. claims (set_worker j p s) = mset_of (claim p) + D"
proof -
  from assms obtain D where "mset (somes (map claim (po_workers s))) = mset_of (claim (po_workers s ! j)) + D"
    "\<And>p. mset (somes (map claim ((po_workers s)[j := p]))) = mset_of (claim p) + D"
    by (rule mset_somes_update [where f = claim]) blast
  then show thesis
    by (intro that [of "D + mset (po_elsewhere s)"]) (simp_all add: claims_def set_worker_def)
qed

lemma handle_redis:
  "handleDeliveryResult (proc_pipeline cfg build conv) ctx evt dr n w = (r, w') \<Longrightarrow> pw_redis w' = pw_redis w"
  by (auto simp: handleDeliveryResult_def publishStatus_def world_random_def on_part_eq Let_def
      split: if_splits sum.splits prod.splits)

lemma limit_redis:
  "applyRateLimit (proc_pipeline cfg build conv) evt w = (r, w') \<Longrightarrow> pw_redis w' = pw_redis w"
  by (auto simp: applyRateLimit_def split: if_splits sum.splits prod.splits dest: limiter_effects)

text \<open>What a call does to the lock of the message.\<close>

lemma advance_cases:
  assumes "advance (proc_pipeline cfg build conv) ph w = Some (ph', a, w')"
  obtains (within) "pw_redis w' = pw_redis w" "claim ph' = claim ph" "in_hand ph' = in_hand ph" "a = None"
  | (lock) m r where "ph = Fetched m" "TryLock (re_NotificationID (rm_Event m)) (pw_redis w) = (r, pw_redis w')"
      "claim ph' = (if r = Inr True then Some (re_NotificationID (rm_Event m), rd_now (pw_redis w')) else None)"
      "(if r = Inr True then in_hand ph' = Some m \<and> a = None else ph' = Idle \<and> a \<noteq> None)"
  | (unlock) m t r q where "ph = Closing m t r" "ph' = Idle" "a = Some (run_answer r)"
      "Unlock (re_NotificationID (rm_Event m)) (pw_redis w) = (q, pw_redis w')"
proof (cases ph)
  case (Fetched m)
  obtain r rd where l: "TryLock (re_NotificationID (rm_Event m)) (pw_redis w) = (r, rd)" by fastforce
  then show thesis using assms Fetched
    by (intro lock [of m r]) (auto simp: on_part_eq split: sum.splits if_splits)
next
  case (Closing m t r)
  obtain q rd where l: "Unlock (re_NotificationID (rm_Event m)) (pw_redis w) = (q, rd)" by fastforce
  then show thesis using assms Closing by (intro unlock [of m t r q]) auto
next
  case (Claimed m t)
  then show thesis using assms by (intro within) (auto dest: limit_redis split: sum.splits prod.splits)
next
  case (Allowed m t)
  then show thesis using assms by (intro within) (auto dest: send_effects split: prod.splits)
next
  case (Sent m t dr)
  then show thesis using assms by (intro within) (auto dest: handle_redis split: prod.splits)
qed (use assms in auto)

lemma set_worker_sel [simp]:
  "po_router (set_worker j ph s) = po_router s" "po_world (set_worker j ph s) = po_world s"
  "po_cancelled (set_worker j ph s) = po_cancelled s" "po_elsewhere (set_worker j ph s) = po_elsewhere s"
  "po_taken (set_worker j ph s) = po_taken s" "po_answers (set_worker j ph s) = po_answers s"
  "po_workers (set_worker j ph s) = (po_workers s)[j := ph]"
  by (simp_all add: set_worker_def)

lemma pool_okI:
  "claims s' = C \<Longrightarrow> one_each C \<Longrightarrow> (\<And>i t. (i, t) \<in># C \<Longrightarrow> redis_leased (pw_redis (po_world s')) i t) \<Longrightarrow> pool_ok s'"
  by (auto simp: pool_ok_def)

lemma pool_okD: "pool_ok s \<Longrightarrow> (i, t) \<in># claims s \<Longrightarrow> redis_leased (pw_redis (po_world s)) i t"
  by (auto simp: pool_ok_def)

lemma in_timeD: "in_time s \<Longrightarrow> (i, t) \<in># claims s \<Longrightarrow> rd_now (pw_redis (po_world s)) < t + lockTTL"
  by (auto simp: in_time_def clock_of_def)

lemma claims_more [simp]:
  "claims (s\<lparr>po_router := r\<rparr>) = claims s" "claims (s\<lparr>po_taken := m\<rparr>) = claims s"
  "claims (s\<lparr>po_answers := a\<rparr>) = claims s" "claims (s\<lparr>po_world := w\<rparr>) = claims s"
  "claims (s\<lparr>po_cancelled := b\<rparr>) = claims s"
  by (simp_all add: claims_def)

lemma claims_same:
  assumes "j < length (po_workers s)" "claim ph = claim (po_workers s ! j)"
  shows "claims (set_worker j ph s) = claims s"
  using claims_update [OF assms(1)] assms(2) by metis

text \<open>A lock taken or released, by a worker or elsewhere, keeps every other claim leased.\<close>

lemma pool_ok_take:
  assumes ok: "pool_ok s" and time: "in_time s" and l: "TryLock i (pw_redis (po_world s)) = (r, rd)"
    and s': "claims s' = (if r = Inr True then add_mset (i, clock_of s) (claims s) else claims s)"
      "pw_redis (po_world s') = rd"
  shows "pool_ok s'"
proof (cases "r = Inr True")
  case True
  have L: "redis_leased (pw_redis (po_world s)) k t \<and> rd_now (pw_redis (po_world s)) < t + lockTTL"
    if "(k, t) \<in># claims s" for k t using that ok time by (blast dest: pool_okD in_timeD)
  have one: "one_each (claims s)" using ok by (simp add: pool_ok_def)
  have c: "claims s' = add_mset (i, rd_now (pw_redis (po_world s))) (claims s)"
    using True s'(1) by (simp add: clock_of_def)
  show ?thesis
    by (rule pool_okI [OF c]) (use redis_lease.take_lease [OF l [unfolded True] one L] s'(2) in blast)+
next
  case False
  then show ?thesis using ok in_timeD [OF time] redis_lease.lease_kept [OF l]
    by (intro pool_okI [OF s'(1)]) (auto simp: s'(2) pool_ok_def)
qed

lemma pool_ok_drop:
  assumes ok: "pool_ok s" and l: "Unlock i (pw_redis (po_world s)) = (q, rd)"
    and s': "claims s = add_mset (i, t) (claims s')" "pw_redis (po_world s') = rd"
  shows "pool_ok s'"
proof -
  have one: "one_each (add_mset (i, t) (claims s'))" using ok s'(1) by (simp add: pool_ok_def)
  have L: "redis_leased (pw_redis (po_world s)) k u" if "(k, u) \<in># claims s'" for k u
    using that s'(1) by (intro pool_okD [OF ok]) simp
  show ?thesis
    by (rule pool_okI [OF refl]) (use redis_lease.drop_lease [OF l one L] s'(2) in blast)+
qed

lemma work_ok:
  assumes "work (proc_pipeline cfg build conv) j s s'" "pool_ok s" "in_time s"
  shows "pool_ok s'"
  using assms(1)
proof cases
  case (call ph a w)
  obtain D where D: "claims s = mset_of (claim (po_workers s ! j)) + D"
    "\<And>p. claims (set_worker j p s) = mset_of (claim p) + D" using call(2) by (rule claims_update) blast
  from call(3) show ?thesis
  proof (cases rule: advance_cases)
    case within
    with assms(2) call D show ?thesis by (auto simp: pool_ok_def)
  next
    case (lock m r)
    have "rd_now (pw_redis w) = clock_of s" using redis_lease.clock_kept(1) [OF lock(2)] by (simp add: clock_of_def)
    with lock D call(1) show ?thesis
      by (intro pool_ok_take [OF assms(2,3) lock(2)]) auto
  next
    case (unlock m t r q)
    with D call(1) show ?thesis
      by (intro pool_ok_drop [OF assms(2) unlock(4), where t = t]) auto
  qed
qed (use assms(2) in \<open>auto simp: pool_ok_def claims_same\<close>)

lemma around_ok:
  assumes "around s s'" "pool_ok s" "in_time s"
  shows "pool_ok s'"
  using assms(1)
proof cases
  case (taken_elsewhere i rd)
  then show ?thesis
    by (intro pool_ok_take [OF assms(2,3) taken_elsewhere(2)]) (auto simp: claims_def)
next
  case (released_elsewhere xs i t ys q rd)
  then show ?thesis
    by (intro pool_ok_drop [OF assms(2) released_elsewhere(3), where t = t]) (auto simp: claims_def)
qed (use assms(2) in \<open>auto simp: pool_ok_def redis_leased_def\<close>)

lemma start_claims [simp]: "claims (proc_Start c w) = {#}"
proof -
  have "somes (map claim (replicate n Idle)) = []" for n by (induction n) auto
  then show ?thesis by (simp add: claims_def proc_Start_def)
qed

lemma runs_ok: "runs (proc_pipeline cfg build conv) in_time n (proc_Start c w) s \<Longrightarrow> pool_ok s \<and> in_time s"
proof (induction n "proc_Start c w" s rule: runs.induct)
  case start
  then show ?case by (simp add: pool_ok_def)
qed (use work_ok around_ok in blast)+

text \<open>
  Without the time limit: a worker that is still at work when its lease has run out does not keep
  another one from the same notification, and its release ends the other's lease as well.
\<close>

lemma overrun_admits_another:
  assumes "j < length (po_workers s)" "po_workers s ! j = Fetched m"
    and "rd_keys (pw_redis (po_world s)) (lock_key (re_NotificationID (rm_Event m))) = Some (t + lockTTL)"
    and "t + lockTTL \<le> clock_of s" "tape_read (rd_faults (pw_redis (po_world s))) = None"
  shows "\<exists>s'. work (proc_pipeline cfg build conv) j s s'
    \<and> po_workers s' = (po_workers s)[j := Claimed m (clock_of s)]"
proof -
  let ?P = "proc_pipeline cfg build conv" and ?i = "re_NotificationID (rm_Event m)"
  obtain r rd where l: "TryLock ?i (pw_redis (po_world s)) = (r, rd)" by fastforce
  with assms(3-5) have "r = Inr True \<and> rd_now rd = clock_of s"
    by (auto simp: TryLock_def redis_command_def set_nx_def live_def clock_of_def split: if_splits)
  with l assms(2) have "advance ?P (po_workers s ! j) (po_world s)
      = Some (Claimed m (clock_of s), None, set_redis rd (po_world s))"
    by (simp add: on_part_eq)
  from work.call [where P = ?P, OF assms(1) this] show ?thesis by force
qed

lemma release_ends_any_lease:
  "Unlock i rd = (Inr u, rd') \<Longrightarrow> \<not> redis_leased rd' i t"
  by (auto simp: Unlock_def redis_command_def del_key_def redis_leased_def Let_def split: option.splits if_splits)

section \<open>Properties\<close>

text \<open>A worker takes a message and its lock.\<close>

lemma idle_take:
  assumes "router_ok r" "sint (ro_cursor r) < 2 ^ 63 - 1" "\<forall>c \<in> set (ro_sources r). ch_ready c = []"
  shows "Next r (WakeValue m) = (Value m, r\<lparr>ro_cursor := ro_cursor r + 1\<rparr>)"
proof -
  obtain x r' where n: "Next r (WakeValue m) = (x, r')" by fastforce
  have a: "ch_ready (ro_sources r ! active r) = []" using assms(3) active_source(2) [OF assms(1,2)] by simp
  from assms(1,2) n show ?thesis by (cases rule: Next_cases) (use assms(3) a n in auto)
qed

lemma in_time_more:
  "in_time s \<Longrightarrow> claims s' = claims s \<Longrightarrow> clock_of s' = clock_of s \<Longrightarrow> in_time s'"
  by (simp add: in_time_def)

lemma runs_keep: "runs P keep n s s' \<Longrightarrow> keep s'"
  by (induction rule: runs.induct)

lemma runs_fetch:
  assumes "runs P keep n s0 s" "j < length (po_workers s)" "po_workers s ! j = Idle" "\<not> po_cancelled s"
    and "Next (po_router s) wake = (Value m, r)" "keep (set_worker j Looking s)"
    and "keep (set_worker j (Fetched m) s\<lparr>po_router := r, po_taken := po_taken s @ [m]\<rparr>)"
  shows "runs P keep (Suc (Suc n)) s0 (set_worker j (Fetched m) s\<lparr>po_router := r, po_taken := po_taken s @ [m]\<rparr>)"
proof -
  note l = runs.worker [OF assms(1) work.look [OF assms(2-4)] assms(6)]
  have "work P j (set_worker j Looking s) (set_worker j (Fetched m) (set_worker j Looking s)
      \<lparr>po_router := r, po_taken := po_taken (set_worker j Looking s) @ [m]\<rparr>)"
    by (rule work.take) (use assms in simp_all)
  then have "work P j (set_worker j Looking s) (set_worker j (Fetched m) s\<lparr>po_router := r, po_taken := po_taken s @ [m]\<rparr>)"
    by (simp add: set_worker_def)
  from runs.worker [OF l this assms(7)] show ?thesis .
qed

lemma set_worker_answers:
  "set_worker j ph s\<lparr>po_world := w, po_answers := po_answers s\<rparr> = set_worker j ph s\<lparr>po_world := w\<rparr>"
  by (cases s) (simp add: set_worker_def)

lemma runs_lock:
  assumes run: "runs (proc_pipeline cfg build conv) in_time n s0 s" and j: "j < length (po_workers s)"
    "po_workers s ! j = Fetched m" and l: "TryLock (re_NotificationID (rm_Event m)) (pw_redis (po_world s)) = (Inr True, rd)"
  shows "runs (proc_pipeline cfg build conv) in_time (Suc n) s0
    (set_worker j (Claimed m (clock_of s)) s\<lparr>po_world := set_redis rd (po_world s)\<rparr>)"
proof -
  let ?P = "proc_pipeline cfg build conv"
  have c: "rd_now rd = clock_of s" using redis_lease.clock_kept(1) [OF l] by (simp add: clock_of_def)
  with j(2) l have "advance ?P (po_workers s ! j) (po_world s) = Some (Claimed m (clock_of s), None, set_redis rd (po_world s))"
    by (simp add: on_part_eq)
  from work.call [where P = ?P, OF j(1) this]
  have w: "work ?P j s (set_worker j (Claimed m (clock_of s)) s\<lparr>po_world := set_redis rd (po_world s)\<rparr>)"
    by (simp add: answer_list_def set_worker_answers cong: option.case_cong split: option.splits)
  from j(1) obtain D where D: "claims s = mset_of (claim (po_workers s ! j)) + D"
    "\<And>p. claims (set_worker j p s) = mset_of (claim p) + D" by (rule claims_update) blast
  have "in_time (set_worker j (Claimed m (clock_of s)) s\<lparr>po_world := set_redis rd (po_world s)\<rparr>)"
    using runs_keep [OF run] D j c by (auto simp: in_time_def clock_of_def lockTTL_def)
  from runs.worker [OF run w this] show ?thesis .
qed

lemma runs_claim:
  assumes run: "runs (proc_pipeline cfg build conv) in_time n s0 s" and j: "j < length (po_workers s)"
    "po_workers s ! j = Idle" and c: "\<not> po_cancelled s" and r: "router_ok (po_router s)"
    "sint (ro_cursor (po_router s)) < 2 ^ 63 - 1" "\<forall>c \<in> set (ro_sources (po_router s)). ch_ready c = []"
    and l: "TryLock (re_NotificationID (rm_Event m)) (pw_redis (po_world s)) = (Inr True, rd)"
  obtains s' where "runs (proc_pipeline cfg build conv) in_time (Suc (Suc (Suc n))) s0 s'"
    "po_workers s' = (po_workers s)[j := Claimed m (clock_of s)]"
    "po_router s' = (po_router s)\<lparr>ro_cursor := ro_cursor (po_router s) + 1\<rparr>"
    "pw_redis (po_world s') = rd" "\<not> po_cancelled s'"
proof -
  have same: "claims (set_worker j ph s) = claims s" if "claim ph = None" for ph
    using j that by (intro claims_same) simp_all
  let ?s1 = "set_worker j (Fetched m) s
      \<lparr>po_router := (po_router s)\<lparr>ro_cursor := ro_cursor (po_router s) + 1\<rparr>, po_taken := po_taken s @ [m]\<rparr>"
  have "runs (proc_pipeline cfg build conv) in_time (Suc (Suc n)) s0 ?s1"
    by (rule runs_fetch [OF run j c idle_take [OF r]]; rule in_time_more [OF runs_keep [OF run]])
      (simp_all add: same clock_of_def)
  from runs_lock [OF this, where j = j and m = m and rd = rd] j l
  have "runs (proc_pipeline cfg build conv) in_time (Suc (Suc (Suc n))) s0
      (set_worker j (Claimed m (clock_of ?s1)) ?s1\<lparr>po_world := set_redis rd (po_world ?s1)\<rparr>)" by simp
  then show thesis by (rule that) (use c in \<open>simp_all add: clock_of_def\<close>)
qed


text \<open>Two workers, two messages, empty channels.\<close>

definition idle_chan :: "ready_event delivered chan" where
  "idle_chan = \<lparr>ch_ready = [], ch_closed = False\<rparr>"

definition pair_cfg :: proc_config where
  "pair_cfg = sample_cfg\<lparr>pc_WorkerConcurrency := 2\<rparr>"

definition pair_consumer :: ready_consumer where
  "pair_consumer = \<lparr>
     rc_router = \<lparr>ro_sources = [idle_chan, idle_chan, idle_chan], ro_slots = [0, 0, 0, 1, 1, 2], ro_cursor = 0\<rparr>,
     rc_maxDeliver = 5, rc_concurrency = 2\<rparr>"

lemma pair_consumer_built: "proc_New pair_cfg idle_chan idle_chan idle_chan = Some pair_consumer"
proof -
  have "slot_list [3, 2, 1] = [0, 0, 0, 1, 1, 2]" by code_simp
  then show ?thesis
    by (simp add: proc_New_def NewNotificationReadyConsumer_def NewPriorityRouter_def pair_cfg_def sample_cfg_def
        pair_consumer_def wrap64_id int64_def)
qed

definition other_ready :: "ready_event delivered" where
  "other_ready = \<lparr>rm_Ctx = [], rm_Event = sample_event\<lparr>re_NotificationID := ''n2''\<rparr>, rm_Msg = 1, rm_AttemptNumber = 1\<rparr>"

lemma pair_start:
  "po_workers (proc_Start pair_consumer w) = [Idle, Idle]" "\<not> po_cancelled (proc_Start pair_consumer w)"
  "po_router (proc_Start pair_consumer w) = rc_router pair_consumer" "po_world (proc_Start pair_consumer w) = w"
  "po_taken (proc_Start pair_consumer w) = []" "po_answers (proc_Start pair_consumer w) = []"
  "router_ok (rc_router pair_consumer)" "ro_cursor (rc_router pair_consumer) = 0"
  "\<forall>c \<in> set (ro_sources (rc_router pair_consumer)). ch_ready c = []"
  by (simp_all add: proc_Start_def pair_consumer_def eval_nat_numeral router_ok_def idle_chan_def)

lemma sample_locks:
  obtains rd rd' where "TryLock ''n1'' (pw_redis sample_proc) = (Inr True, rd)" "TryLock ''n2'' rd = (Inr True, rd')"
  by (simp add: lock_defs sample_proc_def sample_redis_def)


end
