(* ===== verification/PoolStop.thy ===== *)
theory PoolStop
  imports Workers
begin

text \<open>
  What the stop function of processor/internal/app/app.go waits for: once the context is cancelled the
  pool of workers drains, every message taken from the router is answered, and a run that no one
  interrupts is the pipeline's.
\<close>

section \<open>The stop function\<close>

text \<open>A message taken from the router is answered once, or still in a worker's hands.\<close>

definition accounted :: "pool \<Rightarrow> bool" where
  "accounted s \<longleftrightarrow> mset (map fst (po_answers s)) + mset (somes (map in_hand (po_workers s))) = mset (po_taken s)"

lemma advance_in_hand:
  assumes "advance P ph w = Some (ph', a, w')"
  obtains m where "in_hand ph = Some m" "a = None" "in_hand ph' = Some m"
  | m x where "in_hand ph = Some m" "a = Some x" "in_hand ph' = None"
  using assms by (cases ph) (auto split: sum.splits prod.splits if_splits)

lemma work_accounted:
  assumes "work P j s s'" "accounted s"
  shows "accounted s'"
proof -
  from assms(1) have "j < length (po_workers s)" by cases
  then obtain D where D: "mset (somes (map in_hand (po_workers s))) = mset_of (in_hand (po_workers s ! j)) + D"
    "\<And>p. mset (somes (map in_hand ((po_workers s)[j := p]))) = mset_of (in_hand p) + D"
    by (rule mset_somes_update [where f = in_hand]) blast
  from assms(1) show ?thesis
  proof cases
    case (call ph a w)
    from call(3) show ?thesis
      by (cases rule: advance_in_hand) (use assms(2) D call(1) in \<open>auto simp: accounted_def answer_list_def\<close>)
  qed (use assms(2) D in \<open>auto simp: accounted_def\<close>)
qed

lemma runs_accounted: "runs P keep n s s' \<Longrightarrow> accounted s \<Longrightarrow> accounted s'"
proof (induction rule: runs.induct)
  case (around n s s1 s2)
  from around(2) show ?case by cases (use around in \<open>auto simp: accounted_def\<close>)
qed (auto dest: work_accounted)

text \<open>The steps a worker has left once the context is cancelled, at most.\<close>

fun steps_left :: "phase \<Rightarrow> nat" where
  "steps_left Gone = 0"
| "steps_left Idle = 1"
| "steps_left (Closing _ _ _) = 2"
| "steps_left (Sent _ _ _) = 3"
| "steps_left (Allowed _ _) = 4"
| "steps_left (Claimed _ _) = 5"
| "steps_left (Fetched _) = 6"
| "steps_left Looking = 7"

definition drain :: "pool \<Rightarrow> nat" where
  "drain s = sum_list (map steps_left (po_workers s))"

lemma drain_bound: "drain s \<le> 7 * length (po_workers s)"
proof -
  have "steps_left ph \<le> 7" for ph by (cases ph) auto
  then have "sum_list (map steps_left xs) \<le> 7 * length xs" for xs
    by (induction xs) (auto intro: add_mono)
  then show ?thesis by (simp add: drain_def)
qed

lemma sum_list_update_less:
  "j < length xs \<Longrightarrow> f y < f (xs ! j) \<Longrightarrow> sum_list (map f (xs[j := y])) < sum_list (map f xs)"
  for f :: "'a \<Rightarrow> nat"
proof (induction xs arbitrary: j)
  case (Cons x xs)
  then show ?case by (cases j) auto
qed simp

lemma advance_steps: "advance P ph w = Some (ph', a, w') \<Longrightarrow> steps_left ph' < steps_left ph"
  by (cases ph) (auto split: sum.splits prod.splits if_splits)

lemma work_drain:
  assumes "work P j s s'" "po_cancelled s"
  shows "drain s' < drain s" "po_cancelled s'" "length (po_workers s') = length (po_workers s)"
  using assms by (cases; auto simp: drain_def intro!: sum_list_update_less dest: advance_steps)+

lemma around_drain:
  assumes "around s s'"
  shows "po_workers s' = po_workers s" "po_cancelled s \<Longrightarrow> po_cancelled s'"
  using assms by (cases; simp)+

lemma runs_drain: "runs P keep n s s' \<Longrightarrow> po_cancelled s \<Longrightarrow> n + drain s' \<le> drain s \<and> po_cancelled s'"
proof (induction rule: runs.induct)
  case (worker n s s1 j s2)
  then show ?case using work_drain [OF worker(2)] by force
next
  case (around n s s1 s2)
  then show ?case using around_drain [OF around(2)] by (auto simp: drain_def)
qed simp

lemma around_router:
  assumes "around s s'"
  shows "router_ok (po_router s') = router_ok (po_router s)" "ro_cursor (po_router s') = ro_cursor (po_router s)"
  using assms by (cases; simp add: router_ok_def)+

lemma work_router:
  assumes "work P j s s'" "router_ok (po_router s)" "sint (ro_cursor (po_router s)) < 2 ^ 63 - 1"
  shows "router_ok (po_router s') \<and> sint (ro_cursor (po_router s')) \<le> sint (ro_cursor (po_router s)) + 1"
  using assms(1)
proof cases
  case (take wake m r)
  with Next_keeps [OF assms(2,3), of wake] show ?thesis by simp
next
  case (none wake r)
  with Next_keeps [OF assms(2,3), of wake] show ?thesis by simp
qed (use assms(2) in simp_all)

lemma runs_router:
  "runs P keep n s s' \<Longrightarrow> router_ok (po_router s) \<Longrightarrow> sint (ro_cursor (po_router s)) + int n < 2 ^ 63 \<Longrightarrow>
     router_ok (po_router s') \<and> sint (ro_cursor (po_router s')) \<le> sint (ro_cursor (po_router s)) + int n"
proof (induction rule: runs.induct)
  case (worker n s s1 j s2)
  then show ?case using work_router [OF worker(2)] by force
next
  case (around n s s1 s2)
  then show ?case using around_router [OF around(2)] by auto
qed simp

lemma advance_defined: "in_hand ph = Some m \<Longrightarrow> \<exists>ph' a w'. advance P ph w = Some (ph', a, w')"
  by (cases ph) (auto split: sum.splits prod.splits if_splits)

text \<open>A cancelled worker that has not returned can take its next step.\<close>

lemma work_possible:
  assumes "j < length (po_workers s)" "po_workers s ! j \<noteq> Gone" "po_cancelled s"
    and "router_ok (po_router s)" "sint (ro_cursor (po_router s)) < 2 ^ 63 - 1"
  shows "\<exists>s'. work P j s s'"
proof (cases "in_hand (po_workers s ! j)")
  case (Some m)
  then obtain ph a w where "advance P (po_workers s ! j) (po_world s) = Some (ph, a, w)"
    using advance_defined by blast
  from work.call [OF assms(1) this] show ?thesis by blast
next
  case None
  with assms(2) consider "po_workers s ! j = Idle" | "po_workers s ! j = Looking"
    by (cases "po_workers s ! j") auto
  then show ?thesis
  proof cases
    case 1
    from work.stop [OF assms(1) this assms(3)] show ?thesis by blast
  next
    case 2
    obtain x r where n: "Next (po_router s) WakeDone = (x, r)" by fastforce
    with assms(4,5) have "x \<noteq> Panicked" by (cases rule: Next_cases) auto
    with n consider m where "Next (po_router s) WakeDone = (Value m, r)"
      | "Next (po_router s) WakeDone = (NoValue, r)" by (cases x) auto
    then show ?thesis
      by cases (use assms(3) work.take [OF assms(1) 2] work.none [OF assms(1) 2, where wake = WakeDone] in blast)+
  qed
qed

lemma runs_length:
  "runs P keep n s s' \<Longrightarrow> length (po_workers s') = length (po_workers s)"
proof (induction rule: runs.induct)
  case (worker n s s1 j s2)
  from worker(2) show ?case by cases (use worker in auto)
next
  case (around n s s1 s2)
  then show ?case using around_drain by simp
qed simp

lemma NewNotificationReadyConsumer_router:
  assumes "proc_New cfg high normal low = Some c"
  shows "router_ok (rc_router c)" "sint (ro_cursor (rc_router c)) = 0" "rc_concurrency c = pc_WorkerConcurrency cfg"
  using assms by (auto simp: proc_New_def NewNotificationReadyConsumer_def dest: NewPriorityRouter_ok split: option.splits)

section \<open>A run in its calls\<close>

text \<open>The calls of a worker with nothing in between, within a number of steps.\<close>

fun finish :: "nat \<Rightarrow> proc_world pipeline \<Rightarrow> phase \<Rightarrow> proc_world \<Rightarrow> (ack \<times> proc_world) option" where
  "finish 0 P ph w = None"
| "finish (Suc n) P ph w =
     (case advance P ph w of
        Some (_, Some a, w1) \<Rightarrow> Some (a, w1)
      | Some (ph1, None, w1) \<Rightarrow> finish n P ph1 w1
      | None \<Rightarrow> None)"

lemma finish_processOne: "finish 5 P (Fetched m) w = Some (processOne P m w)"
  by (simp add: eval_nat_numeral processOne_def Run_def run_locked_def split: sum.splits prod.splits if_splits)

lemma advance_idle: "advance P ph w = Some (ph', Some a, w') \<Longrightarrow> ph' = Idle"
  by (cases ph) (auto split: sum.splits prod.splits if_splits)

lemma finish_works:
  assumes "finish n P (po_workers s ! j) (po_world s) = Some (a, w')" "j < length (po_workers s)"
    and "in_hand (po_workers s ! j) = Some m"
  shows "\<exists>q \<le> n. (work P j ^^ q) s (set_worker j Idle s\<lparr>po_world := w', po_answers := po_answers s @ [(m, a)]\<rparr>)"
  using assms
proof (induction n arbitrary: s)
  case (Suc n)
  from Suc.prems(1) obtain ph b w1 where adv: "advance P (po_workers s ! j) (po_world s) = Some (ph, b, w1)"
    by (auto split: option.splits)
  define s1 where "s1 = set_worker j ph s\<lparr>po_world := w1, po_answers := po_answers s @ answer_list (po_workers s ! j) b\<rparr>"
  have step: "work P j s s1" unfolding s1_def by (rule work.call [OF Suc.prems(2) adv])
  show ?case
  proof (cases b)
    case None
    with adv Suc.prems(3) have h: "in_hand ph = Some m" by (auto elim: advance_in_hand)
    have s1: "po_workers s1 ! j = ph" "po_world s1 = w1" "po_answers s1 = po_answers s" "j < length (po_workers s1)"
      "set_worker j Idle s1\<lparr>po_world := w', po_answers := x\<rparr> = set_worker j Idle s\<lparr>po_world := w', po_answers := x\<rparr>" for x
      using Suc.prems(2) None by (simp_all add: s1_def set_worker_def answer_list_def split: option.splits)
    from Suc.prems(1) adv None s1 have "finish n P (po_workers s1 ! j) (po_world s1) = Some (a, w')" by simp
    from Suc.IH [OF this s1(4)] h s1(1) obtain q where "q \<le> n"
      "(work P j ^^ q) s1 (set_worker j Idle s1\<lparr>po_world := w', po_answers := po_answers s1 @ [(m, a)]\<rparr>)" by auto
    from relpowp_Suc_I2 [OF step this(2)] \<open>q \<le> n\<close> show ?thesis
      unfolding s1(3,5) by (intro exI [of _ "Suc q"]) simp
  next
    case (Some x)
    with adv Suc.prems have "x = a" "w1 = w'" "ph = Idle" by (auto dest: advance_idle)
    with step Some Suc.prems(3) show ?thesis
      by (intro exI [of _ 1]) (simp add: s1_def answer_list_def eq_OO)
  qed
qed simp

lemma relpowp_runs: "(work P j ^^ q) s s' \<Longrightarrow> runs P (\<lambda>_. True) q s s'"
  by (induction q arbitrary: s') (auto intro: runs.intros)

section \<open>Properties\<close>

text \<open>
  C19: the stop function of the processor returns, and no message is lost on the way. Once the context
  is cancelled, the workers of the pool take at most seven more steps each, however they are scheduled;
  until all of them have returned, one can always take a step; and when they have, every message taken
  from the router has been answered exactly once.
\<close>

theorem stop_waits_for_the_workers:
  assumes "proc_New cfg high normal low = Some c" "runs P (\<lambda>_. True) k (proc_Start c w) s" "po_cancelled s"
    and "runs P (\<lambda>_. True) n s s'" "int (k + n) < 2 ^ 63 - 1"
  shows "n \<le> 7 * nat (pc_WorkerConcurrency cfg) \<and> (all_gone s' \<or> (\<exists>j s''. work P j s' s''))
    \<and> (all_gone s' \<longrightarrow> mset (map fst (po_answers s')) = mset (po_taken s'))"
proof -
  note c = NewNotificationReadyConsumer_router [OF assms(1)]
  have len: "length (po_workers s) = nat (pc_WorkerConcurrency cfg)"
    using runs_length [OF assms(2)] c(3) by (simp add: proc_Start_def)
  have n: "n \<le> 7 * nat (pc_WorkerConcurrency cfg)" and s': "po_cancelled s'"
    using runs_drain [OF assms(4,3)] drain_bound [of s] len by auto
  have "router_ok (po_router s) \<and> sint (ro_cursor (po_router s)) \<le> int k"
    using runs_router [OF assms(2)] c assms(5) by (simp add: proc_Start_def)
  then have "router_ok (po_router s') \<and> sint (ro_cursor (po_router s')) \<le> int (k + n)"
    using runs_router [OF assms(4)] assms(5) by auto
  then have r': "router_ok (po_router s')" "sint (ro_cursor (po_router s')) < 2 ^ 63 - 1" using assms(5) by simp_all
  have "all_gone s' \<or> (\<exists>j s''. work P j s' s'')"
  proof (cases "all_gone s'")
    case False
    then obtain j where "j < length (po_workers s')" "po_workers s' ! j \<noteq> Gone"
      by (auto simp: all_gone_def in_set_conv_nth)
    from work_possible [OF this s' r'] show ?thesis by blast
  qed simp
  moreover have "mset (map fst (po_answers s')) = mset (po_taken s')" if "all_gone s'"
  proof -
    have "somes (map in_hand (replicate m Idle)) = []" for m by (induction m) auto
    then have "accounted (proc_Start c w)" by (simp add: accounted_def proc_Start_def)
    then have "accounted s'" using assms(2,4) runs_accounted by blast
    moreover have "somes (map in_hand xs) = []" if "\<forall>ph \<in> set xs. ph = Gone" for xs
      using that by (induction xs) auto
    ultimately show ?thesis using that by (simp add: accounted_def all_gone_def)
  qed
  ultimately show ?thesis using n by blast
qed

theorem stop_waits_for_the_workers_witness:
  "\<exists>s s' k n. runs (proc_pipeline pair_cfg (\<lambda>_ _. None) (\<lambda>_. 0)) (\<lambda>_. True) k (proc_Start pair_consumer sample_proc) s
     \<and> runs (proc_pipeline pair_cfg (\<lambda>_ _. None) (\<lambda>_. 0)) (\<lambda>_. True) n s s' \<and> po_cancelled s \<and> all_gone s'
     \<and> n \<le> 14 \<and> po_taken s' = [sample_ready] \<and> mset (map fst (po_answers s')) = {#sample_ready#}"
proof -
  let ?P = "proc_pipeline pair_cfg (\<lambda>_ _. None) (\<lambda>_. 0)" and ?s0 = "proc_Start pair_consumer sample_proc"
  let ?T = "\<lambda>_ :: pool. True"
  have "runs ?P ?T 0 ?s0 ?s0" by (rule runs.start) simp
  then have "runs ?P ?T (Suc (Suc 0)) ?s0 (set_worker 0 (Fetched sample_ready) ?s0
      \<lparr>po_router := (rc_router pair_consumer)\<lparr>ro_cursor := 0 + 1\<rparr>, po_taken := po_taken ?s0 @ [sample_ready]\<rparr>)"
    by (rule runs_fetch [where wake = "WakeValue sample_ready"])
      (use idle_take [OF pair_start(7) _ pair_start(9)] in \<open>simp_all add: pair_start\<close>)
  from runs.around [OF this around.cancelling] obtain s where s: "runs ?P ?T (Suc (Suc 0)) ?s0 s" "po_cancelled s"
    "po_workers s = [Fetched sample_ready, Idle]" "po_taken s = [sample_ready]"
    by (rule that) (simp_all add: pair_start)
  obtain a w' where "finish 5 ?P (po_workers s ! 0) (po_world s) = Some (a, w')"
    using finish_processOne [of ?P sample_ready "po_world s"] s(3) by (metis nth_Cons_0 surj_pair)
  let ?s1 = "set_worker 0 Idle s\<lparr>po_world := w', po_answers := po_answers s @ [(sample_ready, a)]\<rparr>"
  let ?s3 = "set_worker 1 Gone (set_worker 0 Gone ?s1)"
  from finish_works [OF \<open>finish 5 _ _ _ = _\<close>] s(3) obtain q where q: "q \<le> 5" "(work ?P 0 ^^ q) s ?s1" by auto
  note s1 = relpowp_runs [OF q(2)]
  have w1: "po_workers ?s1 = [Idle, Idle]" "po_cancelled ?s1" using s by simp_all
  have "work ?P 0 ?s1 (set_worker 0 Gone ?s1)" by (rule work.stop) (simp_all add: w1)
  from runs.worker [OF s1 this] have s2: "runs ?P ?T (Suc q) s (set_worker 0 Gone ?s1)" by simp
  have "work ?P 1 (set_worker 0 Gone ?s1) ?s3"
    by (rule work.stop) (use w1 in simp_all)
  from runs.worker [OF s2 this] have s3: "runs ?P ?T (Suc (Suc q)) s ?s3" by simp
  have gone: "all_gone ?s3" "po_taken ?s3 = [sample_ready]" using w1 s(4) by (simp_all add: all_gone_def)
  have "Suc (Suc q) \<le> 14 \<and> mset (map fst (po_answers ?s3)) = {#sample_ready#}"
    using stop_waits_for_the_workers [OF pair_consumer_built s(1,2) s3] q(1) gone
    by (simp add: pair_cfg_def)
  with s(1,2) s3 gone show ?thesis
    by (intro exI [of _ s] exI [of _ ?s3] exI [of _ "Suc (Suc 0)"] exI [of _ "Suc (Suc q)"] conjI) simp_all
qed

text \<open>
  C16: the pipeline's \<open>Run\<close> in one piece is one of the interleavings. When no one comes in between, a
  worker with a message ends its at most five calls in the world, and with the answer, that
  \<open>processOne\<close> gives for the message.
\<close>

theorem processOne_is_an_interleaving:
  assumes "j < length (po_workers s)" "po_workers s ! j = Fetched m" "processOne P m (po_world s) = (a, w')"
  shows "\<exists>q \<le> 5. (work P j ^^ q) s (set_worker j Idle s\<lparr>po_world := w', po_answers := po_answers s @ [(m, a)]\<rparr>)"
  by (rule finish_works) (use assms finish_processOne [of P m] in simp_all)

theorem processOne_is_an_interleaving_witness:
  "\<exists>s s' q. po_workers s = [Fetched sample_ready, Idle] \<and> po_workers s' = [Idle, Idle] \<and> q \<le> 5
     \<and> (work (proc_pipeline pair_cfg (\<lambda>_ _. None) (\<lambda>_. 0)) 0 ^^ q) s s' \<and> map fst (po_answers s') = [sample_ready]"
proof -
  let ?P = "proc_pipeline pair_cfg (\<lambda>_ _. None) (\<lambda>_. 0)"
  let ?s = "set_worker 0 (Fetched sample_ready) (proc_Start pair_consumer sample_proc)"
  have ws: "po_workers ?s = [Fetched sample_ready, Idle]" by (simp add: pair_start)
  obtain a w' where p: "processOne ?P sample_ready (po_world ?s) = (a, w')" by fastforce
  have j: "0 < length (po_workers ?s)" "po_workers ?s ! 0 = Fetched sample_ready" unfolding ws by simp_all
  let ?s' = "set_worker 0 Idle ?s\<lparr>po_world := w', po_answers := po_answers ?s @ [(sample_ready, a)]\<rparr>"
  from processOne_is_an_interleaving [OF j p] obtain q where "q \<le> 5" "(work ?P 0 ^^ q) ?s ?s'" by blast
  moreover have "po_workers ?s' = [Idle, Idle]" "map fst (po_answers ?s') = [sample_ready]"
    by (simp_all add: pair_start)
  ultimately show ?thesis using ws
    by (intro exI [of _ ?s] exI [of _ ?s'] exI [of _ q] conjI)
qed

end
