(* ===== verification/Lifecycle.thy ===== *)
theory Lifecycle
  imports Process PoolStop
begin

text \<open>
  A running service, between the \<open>Start\<close> of its internal/app package and the end of its main function:
  the goroutines of the wait group, the HTTP server of the API, and the main goroutine that waits for
  the signal, then for the server and the wait group, and last lets the deferred calls close the
  connections. The work a goroutine does for one item is one step from its start to its end; what it
  does is modelled with its component.
\<close>

section \<open>The parts of a running service\<close>

text \<open>
  A loop waits in its select, handles what it picked, or has returned; the server of the API is about
  to listen, serves, has failed to listen, or has been shut down; the main goroutine is at
  the receive from \<open>ctx.Done()\<close>, in \<open>server.Shutdown\<close>, in \<open>wg.Wait\<close>, or past the deferred calls.
\<close>

datatype goroutine = Selecting | Handling | Returned
datatype listener = NoServer | Starting | Serving | ListenFailed | ServerClosed
datatype main_at = AtSignal | AtShutdown | AtWait | AtEnd

record running =
  rn_loops :: "goroutine list"
  rn_server :: listener
  rn_requests :: nat
  rn_cancelled :: bool
  rn_expired :: bool
  rn_main :: main_at
  rn_open :: bool

definition started :: "nat \<Rightarrow> listener \<Rightarrow> running" where
  "started n srv = \<lparr>rn_loops = replicate n Selecting, rn_server = srv, rn_requests = 0, rn_cancelled = False,
     rn_expired = False, rn_main = AtSignal, rn_open = True\<rparr>"

text \<open>The API runs two consumers and the server; the scheduler two consumers and the ticker.\<close>

definition api_Start :: running where
  "api_Start = started 2 Starting"

definition ds_Start :: running where
  "ds_Start = started 3 NoServer"

text \<open>The processor's one goroutine waits for its workers.\<close>

definition processor_Start :: "ready_consumer \<Rightarrow> running" where
  "processor_Start c = started (nat (rc_concurrency c)) NoServer"

definition set_loop :: "nat \<Rightarrow> goroutine \<Rightarrow> running \<Rightarrow> running" where
  "set_loop j g s = s\<lparr>rn_loops := (rn_loops s)[j := g]\<rparr>"

text \<open>
  \<open>ListenAndServe\<close> that fails is logged; once \<open>Shutdown\<close> was called, the server accepts no request, and
  \<open>Shutdown\<close> returns when none is being handled or its context has expired. A select may still pick
  an item after the cancellation.
\<close>

inductive run_step :: "running \<Rightarrow> running \<Rightarrow> bool" where
  signal: "run_step s (s\<lparr>rn_cancelled := True\<rparr>)"
| pick: "j < length (rn_loops s) \<Longrightarrow> rn_loops s ! j = Selecting \<Longrightarrow> run_step s (set_loop j Handling s)"
| handled: "j < length (rn_loops s) \<Longrightarrow> rn_loops s ! j = Handling \<Longrightarrow> run_step s (set_loop j Selecting s)"
| leave: "j < length (rn_loops s) \<Longrightarrow> rn_loops s ! j = Selecting \<Longrightarrow> rn_cancelled s \<Longrightarrow>
    run_step s (set_loop j Returned s)"
| listen: "rn_server s = Starting \<Longrightarrow> run_step s (s\<lparr>rn_server := Serving\<rparr>)"
| listen_fails: "rn_server s \<in> {Starting, Serving} \<Longrightarrow> run_step s (s\<lparr>rn_server := ListenFailed\<rparr>)"
| request: "rn_server s = Serving \<Longrightarrow> run_step s (s\<lparr>rn_requests := rn_requests s + 1\<rparr>)"
| respond: "rn_requests s = Suc n \<Longrightarrow> run_step s (s\<lparr>rn_requests := n\<rparr>)"
| shutdown: "rn_main s = AtSignal \<Longrightarrow> rn_cancelled s \<Longrightarrow> rn_server s \<noteq> NoServer \<Longrightarrow>
    run_step s (s\<lparr>rn_main := AtShutdown, rn_server := ServerClosed\<rparr>)"
| only_wait: "rn_main s = AtSignal \<Longrightarrow> rn_cancelled s \<Longrightarrow> rn_server s = NoServer \<Longrightarrow> run_step s (s\<lparr>rn_main := AtWait\<rparr>)"
| expire: "rn_main s = AtShutdown \<Longrightarrow> run_step s (s\<lparr>rn_expired := True\<rparr>)"
| shutdown_returns: "rn_main s = AtShutdown \<Longrightarrow> rn_requests s = 0 \<or> rn_expired s \<Longrightarrow> run_step s (s\<lparr>rn_main := AtWait\<rparr>)"
| joined: "rn_main s = AtWait \<Longrightarrow> \<forall>g \<in> set (rn_loops s). g = Returned \<Longrightarrow> run_step s (s\<lparr>rn_main := AtEnd, rn_open := False\<rparr>)"

section \<open>What the shutdown keeps\<close>

definition life_ok :: "running \<Rightarrow> bool" where
  "life_ok s \<longleftrightarrow> (rn_open s \<longleftrightarrow> rn_main s \<noteq> AtEnd)
     \<and> (rn_main s = AtEnd \<longrightarrow> (\<forall>g \<in> set (rn_loops s). g = Returned))
     \<and> (rn_main s \<in> {AtWait, AtEnd} \<longrightarrow> rn_requests s = 0 \<or> rn_expired s)
     \<and> (rn_main s \<noteq> AtSignal \<longrightarrow> rn_cancelled s \<and> rn_server s \<in> {NoServer, ServerClosed})
     \<and> (rn_server s \<in> {NoServer, Starting} \<longrightarrow> rn_requests s = 0)"

lemma started_ok: "srv \<in> {NoServer, Starting} \<Longrightarrow> life_ok (started n srv)"
  by (auto simp: life_ok_def started_def)

lemma returned_stays: "\<forall>g \<in> set xs. g = Returned \<Longrightarrow> j < length xs \<Longrightarrow> xs ! j = Returned"
  by (metis nth_mem)

lemma run_step_ok: "run_step s s' \<Longrightarrow> life_ok s \<Longrightarrow> life_ok s'"
proof (induction rule: run_step.induct)
  case (pick j s)
  then show ?case using returned_stays [of "rn_loops s" j] by (auto simp: life_ok_def set_loop_def)
next
  case (handled j s)
  then show ?case using returned_stays [of "rn_loops s" j] by (auto simp: life_ok_def set_loop_def)
next
  case (leave j s)
  then show ?case using returned_stays [of "rn_loops s" j] by (auto simp: life_ok_def set_loop_def)
qed (auto simp: life_ok_def)

lemma runs_life: "run_step\<^sup>*\<^sup>* s s' \<Longrightarrow> life_ok s \<Longrightarrow> life_ok s'"
  by (induction rule: rtranclp_induct) (auto dest: run_step_ok)

section \<open>The shutdown completes\<close>

fun loop_left :: "goroutine \<Rightarrow> nat" where
  "loop_left Handling = 2"
| "loop_left Selecting = 1"
| "loop_left Returned = 0"

lemma loops_return:
  assumes "rn_cancelled s"
  shows "\<exists>gs. run_step\<^sup>*\<^sup>* s (s\<lparr>rn_loops := gs\<rparr>) \<and> (\<forall>g \<in> set gs. g = Returned)"
  using assms
proof (induction "sum_list (map loop_left (rn_loops s))" arbitrary: s rule: less_induct)
  case less
  show ?case
  proof (cases "\<forall>g \<in> set (rn_loops s). g = Returned")
    case True
    have "run_step\<^sup>*\<^sup>* s (s\<lparr>rn_loops := rn_loops s\<rparr>)" by simp
    with True show ?thesis by blast
  next
    case False
    then obtain j where j: "j < length (rn_loops s)" "rn_loops s ! j \<noteq> Returned" by (auto simp: in_set_conv_nth)
    then obtain g where g: "run_step s (set_loop j g s)" "loop_left g < loop_left (rn_loops s ! j)"
    proof (cases "rn_loops s ! j")
      case Selecting
      with run_step.leave [OF j(1) _ less.prems] that [of Returned] show thesis by simp
    next
      case Handling
      with run_step.handled [OF j(1)] that [of Selecting] show thesis by simp
    qed simp
    have "sum_list (map loop_left (rn_loops (set_loop j g s))) < sum_list (map loop_left (rn_loops s))"
      using sum_list_update_less [where f = loop_left, OF j(1) g(2)] by (simp add: set_loop_def)
    from less.hyps [OF this] less.prems obtain gs where gs:
      "run_step\<^sup>*\<^sup>* (set_loop j g s) (set_loop j g s\<lparr>rn_loops := gs\<rparr>)" "\<forall>g \<in> set gs. g = Returned"
      by (auto simp: set_loop_def)
    from converse_rtranclp_into_rtranclp [of run_step, OF g(1) gs(1)] gs(2) show ?thesis
      by (auto simp: set_loop_def)
  qed
qed

definition can_end :: "running \<Rightarrow> bool" where
  "can_end s \<longleftrightarrow> (\<exists>s'. run_step\<^sup>*\<^sup>* s s' \<and> rn_main s' = AtEnd \<and> \<not> rn_open s')"

lemma can_end_steps: "run_step\<^sup>*\<^sup>* s s1 \<Longrightarrow> can_end s1 \<Longrightarrow> can_end s"
  unfolding can_end_def by (meson rtranclp_trans)

lemma can_end_step: "run_step s s1 \<Longrightarrow> can_end s1 \<Longrightarrow> can_end s"
  by (rule can_end_steps) (rule r_into_rtranclp)

lemma main_waits:
  assumes "rn_cancelled s" "rn_main s \<noteq> AtEnd" "\<forall>g \<in> set (rn_loops s). g = Returned"
  shows "can_end s"
proof -
  have wait: "can_end s" if "rn_main s = AtWait" "\<forall>g \<in> set (rn_loops s). g = Returned" for s
    by (rule can_end_step [OF run_step.joined [OF that]]) (auto simp: can_end_def)
  have down: "can_end s" if "rn_main s = AtShutdown" "\<forall>g \<in> set (rn_loops s). g = Returned" for s
  proof (rule can_end_step [OF run_step.expire [OF that(1)]], rule can_end_step [OF run_step.shutdown_returns])
    show "can_end (s\<lparr>rn_expired := True, rn_main := AtWait\<rparr>)" using that by (intro wait) simp_all
  qed (use that in simp_all)
  show ?thesis
  proof (cases "rn_main s")
    case AtSignal
    show ?thesis
    proof (cases "rn_server s = NoServer")
      case True
      show ?thesis
        by (rule can_end_step [OF run_step.only_wait [OF AtSignal assms(1) True]], rule wait) (use assms in simp_all)
    next
      case False
      show ?thesis
        by (rule can_end_step [OF run_step.shutdown [OF AtSignal assms(1) False]], rule down) (use assms in simp_all)
    qed
  qed (use assms wait down in blast)+
qed

lemma shutdown_completes:
  assumes "rn_cancelled s" "life_ok s"
  shows "can_end s"
proof (cases "rn_main s = AtEnd")
  case True
  with assms(2) show ?thesis by (auto simp: life_ok_def can_end_def)
next
  case False
  from loops_return [OF assms(1)] obtain gs where gs: "run_step\<^sup>*\<^sup>* s (s\<lparr>rn_loops := gs\<rparr>)" "\<forall>g \<in> set gs. g = Returned"
    by blast
  show ?thesis by (rule can_end_steps [OF gs(1)], rule main_waits) (use assms(1) False gs(2) in simp_all)
qed

text \<open>A server that cannot listen leaves the process running: nothing but a signal moves its main goroutine.\<close>

lemma listen_failure_is_survived:
  "\<exists>s. run_step\<^sup>*\<^sup>* api_Start s \<and> rn_server s = ListenFailed \<and> rn_main s = AtSignal \<and> rn_open s"
  "run_step\<^sup>*\<^sup>* api_Start s \<Longrightarrow> rn_server s = ListenFailed \<Longrightarrow> \<not> rn_cancelled s \<Longrightarrow> rn_main s = AtSignal \<and> rn_open s"
proof -
  have "run_step api_Start (api_Start\<lparr>rn_server := ListenFailed\<rparr>)"
    by (rule run_step.listen_fails) (simp add: api_Start_def started_def)
  then show "\<exists>s. run_step\<^sup>*\<^sup>* api_Start s \<and> rn_server s = ListenFailed \<and> rn_main s = AtSignal \<and> rn_open s"
    by (intro exI [of _ "api_Start\<lparr>rn_server := ListenFailed\<rparr>"]) (simp add: r_into_rtranclp api_Start_def started_def)
  assume s: "run_step\<^sup>*\<^sup>* api_Start s" "rn_server s = ListenFailed" "\<not> rn_cancelled s"
  from s(1) have "life_ok s" by (rule runs_life) (simp add: api_Start_def started_ok)
  with s(2,3) show "rn_main s = AtSignal \<and> rn_open s" unfolding life_ok_def by auto
qed



end
