(* ===== verification/Tracing.thy ===== *)
theory Tracing
  imports Processor SchedRepo
begin

text \<open>
  How traces travel and what a consumer writes on its span: the header carrier of
  shared/messaging/nats/carrier.go, \<open>RecordError\<close> of shared/otel/error.go and \<open>EndSpan\<close> of
  shared/messaging/nats/subscriber.go. The rest of the development identifies a context with the
  fields its propagator sets (\<open>trace\<close>); here it is shown that both carriers of the program, the
  message header and the stored metadata, give back what was put into them.
\<close>

section \<open>The header carrier\<close>

text \<open>
  The headers of the NATS client: its \<open>Get\<close> and \<open>Set\<close>, an empty header, and the keys of the map in
  the order of a range loop.
\<close>

record 'h header_lib =
  hl_make :: 'h
  hl_Get :: "'h \<Rightarrow> string \<Rightarrow> string"
  hl_Set :: "'h \<Rightarrow> string \<Rightarrow> string \<Rightarrow> 'h"
  hl_range :: "'h \<Rightarrow> string list"

definition carrier_Get :: "'h header_lib \<Rightarrow> 'h \<Rightarrow> string \<Rightarrow> string" where
  "carrier_Get H h key = hl_Get H h key"

definition carrier_Set :: "'h header_lib \<Rightarrow> string \<Rightarrow> string \<Rightarrow> 'h \<Rightarrow> 'h" where
  "carrier_Set H key v h = hl_Set H h key v"

definition carrier_Keys :: "'h header_lib \<Rightarrow> 'h \<Rightarrow> string list" where
  "carrier_Keys H h = foldl (\<lambda>keys k. keys @ [k]) [] (hl_range H h)"

text \<open>
  What the client documents: \<open>Set\<close> replaces the entries of its key and no other, \<open>Get\<close> returns the
  value set, the empty string for a key without entries; ranging meets every key once.
\<close>

definition header_ok :: "'h header_lib \<Rightarrow> bool" where
  "header_ok H \<longleftrightarrow> (\<forall>k. hl_Get H (hl_make H) k = '''') \<and> hl_range H (hl_make H) = []
     \<and> (\<forall>h k v k'. hl_Get H (hl_Set H h k v) k' = (if k' = k then v else hl_Get H h k'))
     \<and> (\<forall>h k v. distinct (hl_range H h) \<longrightarrow> distinct (hl_range H (hl_Set H h k v)))
     \<and> (\<forall>h k v. set (hl_range H (hl_Set H h k v)) = insert k (set (hl_range H h)))"

text \<open>A carrier of text: what a propagator may rely on.\<close>

locale text_map_carrier =
  fixes empty :: 'c
    and get :: "'c \<Rightarrow> string \<Rightarrow> string"
    and put :: "string \<Rightarrow> string \<Rightarrow> 'c \<Rightarrow> 'c"
    and keys :: "'c \<Rightarrow> string set"
  assumes get_empty: "get empty k = ''''"
    and get_put: "get (put k v c) k' = (if k' = k then v else get c k')"
    and keys_empty: "keys empty = {}"
    and keys_put: "keys (put k v c) = insert k (keys c)"
begin

text \<open>Injecting a trace sets its fields one after the other.\<close>

lemma inject_reads:
  "get (foldl (\<lambda>c (k, v). put k v c) c tr) k = (case map_of (rev tr) k of Some v \<Rightarrow> v | None \<Rightarrow> get c k)"
  by (induction tr arbitrary: c) (auto simp: get_put map_add_def split: option.split)

lemma inject_keys: "keys (foldl (\<lambda>c (k, v). put k v c) c tr) = fst ` set tr \<union> keys c"
  by (induction tr arbitrary: c) (auto simp: keys_put)

lemma trace_returns:
  assumes "distinct (map fst tr)"
  shows "map (\<lambda>k. (k, get (foldl (\<lambda>c (k, v). put k v c) empty tr) k)) (map fst tr) = tr"
proof -
  have "map_of (rev tr) k = Some v" if "(k, v) \<in> set tr" for k v
    using assms that by (simp add: rev_map [symmetric])
  then show ?thesis by (auto simp: inject_reads comp_def intro!: map_idI split: option.split)
qed

end

lemma carrier_keys [simp]: "carrier_Keys H h = hl_range H h"
proof -
  have "foldl (\<lambda>keys k. keys @ [k]) acc xs = acc @ xs" for acc xs :: "string list"
    by (induction xs arbitrary: acc) simp_all
  then show ?thesis by (simp add: carrier_Keys_def)
qed

lemma header_carrier:
  assumes "header_ok H"
  shows "text_map_carrier (hl_make H) (carrier_Get H) (carrier_Set H) (\<lambda>h. set (carrier_Keys H h))"
  using assms by unfold_locales (simp_all add: header_ok_def carrier_Get_def carrier_Set_def)

text \<open>A trace injected into an empty header is read back field by field.\<close>

lemma header_returns:
  assumes "header_ok H" "distinct (map fst tr)"
  shows "map (\<lambda>k. (k, carrier_Get H (foldl (\<lambda>h (k, v). carrier_Set H k v h) (hl_make H) tr) k)) (map fst tr) = tr"
  by (rule text_map_carrier.trace_returns [OF header_carrier [OF assms(1)] assms(2)])

text \<open>The metadata stored with a scheduled notification, as a carrier of its text entries.\<close>

definition metadata_get :: "metadata \<Rightarrow> string \<Rightarrow> string" where
  "metadata_get m k = (case map_of (string_entries m) k of Some v \<Rightarrow> v | None \<Rightarrow> '''')"

definition metadata_put :: "string \<Rightarrow> string \<Rightarrow> metadata \<Rightarrow> metadata" where
  "metadata_put k v m = (k, JStr v) # m"

interpretation stored: text_map_carrier "[]" metadata_get metadata_put "\<lambda>m. fst ` set (string_entries m)"
  by unfold_locales (simp_all add: metadata_get_def metadata_put_def)

text \<open>What was stored for a context is what is extracted again.\<close>

lemma metadata_returns:
  "distinct (map fst ctx) \<Longrightarrow> (k, v) \<in> set ctx \<Longrightarrow> metadata_get (ExtractTraceMetadata ctx) k = v"
  by (simp add: metadata_get_def)

section \<open>Spans\<close>

record span =
  sp_errors :: "go_error list"
  sp_status :: "string option"
  sp_ends :: nat

definition started_span :: span where
  "started_span = \<lparr>sp_errors = [], sp_status = None, sp_ends = 0\<rparr>"

definition RecordError :: "go_error \<Rightarrow> span \<Rightarrow> span" where
  "RecordError err sp = sp\<lparr>sp_errors := sp_errors sp @ [err], sp_status := Some (err_text err)\<rparr>"

definition EndSpan :: "span \<Rightarrow> span" where
  "EndSpan sp = sp\<lparr>sp_ends := Suc (sp_ends sp)\<rparr>"

text \<open>What \<open>processOne\<close> does to the span of its message, the deferred call last.\<close>

definition processOne_span :: "unit result \<Rightarrow> span \<Rightarrow> span" where
  "processOne_span err sp =
     EndSpan (case err of
        Inl e \<Rightarrow> (case errors_as as_retry_after e of Some d \<Rightarrow> sp | None \<Rightarrow> RecordError e sp)
      | Inr _ \<Rightarrow> sp)"

text \<open>The span is ended once, and it carries an error exactly when the message was refused at once.\<close>

lemma span_tells_the_answer:
  "sp_ends (processOne_span x started_span) = 1
   \<and> (sp_status (processOne_span x started_span) \<noteq> None \<longleftrightarrow> run_answer x = Nak)"
  by (auto simp: processOne_span_def started_span_def EndSpan_def RecordError_def run_answer_def
      split: sum.split option.split)

end
