(* ===== verification/System.thy ===== *)
theory System
  imports Deploy PoolStop
begin

text \<open>
  The three services and what connects them, as one transition system. A message is any message of
  the stream that is on the consumer's subject and decodes: the broker may deliver it late,
  repeatedly, out of order and under any delivery number. Time only moves forward, the clock of the
  scheduler is never ahead of it, and Redis may lose or change its keys at any moment.

  Requests, consumers, workers, ticks and replicas overlap, so the steps are the calls the handlers
  make on what they share, with any steps in between. Cancelling a notification and storing a result
  first read the row and then write its status. A worker of the processor takes a message, and then
  the lock, the limiter's answer, the provider's, and releases the lock. A tick of the dispatcher claims
  rows, publishes them, and puts them back when that fails. What is between two of its calls is a call
  under way. The other operations of the API make one statement that changes a table, and may also be
  taken in one step; what they publish they publish later only, and a message of the stream may be
  delivered late anyway.
\<close>

section \<open>State\<close>

text \<open>
  What is under way: a cancellation or a result that has read its row, with what it found; a run of
  the pipeline; a tick that has claimed rows, or has failed to publish them.
\<close>

datatype under_way =
    OpenCancel trace uuid "nrow result"
  | OpenUpdate uuid status "nrow result"
  | OpenRun phase
  | OpenDue trace "sched list"
  | OpenBack "sched list"

record system =
  sy_now :: time
  sy_api :: api_world
  sy_sched :: sched_world
  sy_proc :: proc_world
  sy_open :: "under_way multiset"

record deployment =
  dp_lib :: golib
  dp_cfg :: proc_config
  dp_build :: "string \<Rightarrow> string \<Rightarrow> go_error option"
  dp_conv :: "int \<Rightarrow> duration"
  dp_order :: "(uuid \<times> due_event delivered) list \<Rightarrow> (uuid \<times> due_event delivered) list"
  dp_extract :: "trace \<Rightarrow> trace \<Rightarrow> trace"
  dp_batch :: int

text \<open>A delivery of a stored message to the consumer of a subject.\<close>

definition on_stream :: "nats_msg list \<Rightarrow> topic set \<Rightarrow> (json \<Rightarrow> 'e result) \<Rightarrow> 'e delivered \<Rightarrow> bool" where
  "on_stream msgs ts un m \<longleftrightarrow> (\<exists>x \<in> set msgs. nm_subject x \<in> ts \<and> un (nm_data x) = Inr (rm_Event m))"

definition priority_topics :: "topic set" where
  "priority_topics = {TopicHigh, TopicNormal, TopicLow}"

definition the_pipeline :: "deployment \<Rightarrow> proc_world pipeline" where
  "the_pipeline P = proc_pipeline (dp_cfg P) (dp_build P) (dp_conv P)"

definition the_dispatcher :: "deployment \<Rightarrow> sched_world dispatcher" where
  "the_dispatcher P = sched_dispatcher (dp_lib P) (dp_batch P) (dp_extract P)"

section \<open>Steps\<close>

inductive sys_step :: "deployment \<Rightarrow> system \<Rightarrow> system \<Rightarrow> bool" for P :: deployment where
  http_request:
    "rt \<in> set (notification_routes (dp_lib P) (api_service (dp_lib P)) []) \<Longrightarrow>
     rt_handler rt req fresh_writer (sy_api s) = (out, a) \<Longrightarrow> sys_step P s (s\<lparr>sy_api := a\<rparr>)"
| delivery_result:
    "on_stream (stream_of (sy_proc s)) {TopicStatus} result_of_json m \<Longrightarrow>
     result_processOne (dp_lib P) (api_service (dp_lib P)) m (sy_api s) = (ack, a) \<Longrightarrow>
     sys_step P s (s\<lparr>sy_api := a\<rparr>)"
| cancel_reads:
    "repo_GetByID (svc_repo (api_deps (dp_lib P))) i (sy_api s) = (found, a) \<Longrightarrow>
     sys_step P s (s\<lparr>sy_api := a, sy_open := add_mset (OpenCancel ctx i found) (sy_open s)\<rparr>)"
| cancel_writes:
    "OpenCancel ctx i found \<in># sy_open s \<Longrightarrow>
     cancel_rest (api_deps (dp_lib P)) ctx i found (sy_api s) = (row, a) \<Longrightarrow>
     sys_step P s (s\<lparr>sy_api := a, sy_open := sy_open s - {#OpenCancel ctx i found#}\<rparr>)"
| result_reads:
    "on_stream (stream_of (sy_proc s)) {TopicStatus} result_of_json m \<Longrightarrow>
     uuid_parse (dp_lib P) (rs_NotificationID (rm_Event m)) = Some i \<Longrightarrow>
     repo_GetByID (svc_repo (api_deps (dp_lib P))) i (sy_api s) = (found, a) \<Longrightarrow>
     sys_step P s (s\<lparr>sy_api := a, sy_open := add_mset (OpenUpdate i (rs_Status (rm_Event m)) found) (sy_open s)\<rparr>)"
| result_writes:
    "OpenUpdate i st found \<in># sy_open s \<Longrightarrow>
     update_rest (api_deps (dp_lib P)) i st found (sy_api s) = (answer, a) \<Longrightarrow>
     sys_step P s (s\<lparr>sy_api := a, sy_open := sy_open s - {#OpenUpdate i st found#}\<rparr>)"
| due_batch:
    "\<forall>m \<in> set batch. on_stream (sched_stream (sy_sched s)) {TopicScheduledNotificationDue} due_of_json m \<Longrightarrow>
     handleBatch (api_due (dp_lib P) (dp_order P)) batch (sy_api s) = (acks, a) \<Longrightarrow>
     sys_step P s (s\<lparr>sy_api := a\<rparr>)"
| schedule_event:
    "on_stream (api_sent (sy_api s)) {TopicNotificationScheduled} (scheduled_of_json (dp_lib P)) m \<Longrightarrow>
     handleScheduledEvents (sched_repo (dp_lib P)) m (sy_sched s) = (ack, d) \<Longrightarrow>
     sys_step P s (s\<lparr>sy_sched := d\<rparr>)"
| cancel_event:
    "on_stream (api_sent (sy_api s)) {TopicNotificationScheduleCancelled} cancelled_of_json m \<Longrightarrow>
     handleCancelEvent (sched_repo (dp_lib P)) m (sy_sched s) = (ack, d) \<Longrightarrow>
     sys_step P s (s\<lparr>sy_sched := d\<rparr>)"
| tick_claims:
    "\<forall>k. tape_fun clock k \<le> sy_now s \<Longrightarrow>
     tick_claim (the_dispatcher P) ((sy_sched s)\<lparr>sd_clock := clock\<rparr>) = (ns, d) \<Longrightarrow>
     sys_step P s (s\<lparr>sy_sched := d, sy_open := (if ns = [] then {#} else {#OpenDue ctx ns#}) + sy_open s\<rparr>)"
| tick_publishes:
    "OpenDue ctx ns \<in># sy_open s \<Longrightarrow> tick_publish (the_dispatcher P) ctx ns (sy_sched s) = (ok, d) \<Longrightarrow>
     sys_step P s (s\<lparr>sy_sched := d,
       sy_open := (if ok then {#} else {#OpenBack ns#}) + (sy_open s - {#OpenDue ctx ns#})\<rparr>)"
| tick_puts_back:
    "OpenBack ns \<in># sy_open s \<Longrightarrow>
     sys_step P s (s\<lparr>sy_sched := tick_back (the_dispatcher P) ns (sy_sched s),
       sy_open := sy_open s - {#OpenBack ns#}\<rparr>)"
| run_takes:
    "on_stream (api_sent (sy_api s)) priority_topics ready_of_json m \<Longrightarrow>
     sys_step P s (s\<lparr>sy_open := add_mset (OpenRun (Fetched m)) (sy_open s)\<rparr>)"
| run_calls:
    "OpenRun ph \<in># sy_open s \<Longrightarrow> advance (the_pipeline P) ph (sy_proc s) = Some (ph', answer, p) \<Longrightarrow>
     sys_step P s (s\<lparr>sy_proc := p,
       sy_open := (if answer = None then {#OpenRun ph'#} else {#}) + (sy_open s - {#OpenRun ph#})\<rparr>)"
| time_passes: "sy_now s \<le> t \<Longrightarrow> sys_step P s (s\<lparr>sy_now := t\<rparr>)"
| redis_changes: "sys_step P s (s\<lparr>sy_proc := set_redis keys (sy_proc s)\<rparr>)"

inductive_cases sys_stepE: "sys_step P s s'"

text \<open>The services start on empty tables and empty streams.\<close>

definition empty_system :: "system \<Rightarrow> bool" where
  "empty_system s \<longleftrightarrow> api_keyed (sy_api s) \<and> api_row (sy_api s) = Map.empty \<and> api_sent (sy_api s) = []
     \<and> sched_keyed (sy_sched s) \<and> sched_pending (sy_sched s) = Map.empty \<and> sched_stream (sy_sched s) = []
     \<and> stream_of (sy_proc s) = [] \<and> requests (sy_proc s) = [] \<and> tape_pos (pw_provider (sy_proc s)) = 0
     \<and> sy_open s = {#}"

inductive sys_reachable :: "deployment \<Rightarrow> system \<Rightarrow> bool" for P :: deployment where
  start: "empty_system s \<Longrightarrow> sys_reachable P s"
| step: "sys_reachable P s \<Longrightarrow> sys_step P s s' \<Longrightarrow> sys_reachable P s'"

section \<open>What of a row never changes\<close>

definition fixed_part :: "nrow \<Rightarrow> nrow" where
  "fixed_part r = r\<lparr>r_Status := '''', r_CreatedAt := 0, r_UpdatedAt := 0\<rparr>"

lemma fixed_part_sel [simp]:
  "r_ID (fixed_part r) = r_ID r" "r_BatchID (fixed_part r) = r_BatchID r"
  "r_Recipient (fixed_part r) = r_Recipient r" "r_Channel (fixed_part r) = r_Channel r"
  "r_Content (fixed_part r) = r_Content r" "r_Priority (fixed_part r) = r_Priority r"
  "r_DeliverAfter (fixed_part r) = r_DeliverAfter r" "r_MaxAttempts (fixed_part r) = r_MaxAttempts r"
  by (simp_all add: fixed_part_def)

lemma ready_fixed [simp]: "ready_message L (fixed_part r) = ready_message L r"
  by (simp add: ready_message_def ready_From_def)

lemma same_but_times_fixed: "same_but_times (r\<lparr>r_Status := st\<rparr>) r' \<Longrightarrow> fixed_part r' = fixed_part r"
proof -
  assume "same_but_times (r\<lparr>r_Status := st\<rparr>) r'"
  then obtain c u where "r' = r\<lparr>r_Status := st, r_CreatedAt := c, r_UpdatedAt := u\<rparr>"
    unfolding same_but_times_def by fastforce
  then show ?thesis by (simp add: fixed_part_def)
qed

definition known :: "api_world \<Rightarrow> uuid \<Rightarrow> nrow \<Rightarrow> bool" where
  "known a i d \<longleftrightarrow> map_option fixed_part (api_row a i) = Some d"

definition grows :: "api_world \<Rightarrow> api_world \<Rightarrow> bool" where
  "grows a a' \<longleftrightarrow> (\<forall>i r. api_row a i = Some r \<longrightarrow> (\<exists>r'. api_row a' i = Some r' \<and> fixed_part r' = fixed_part r))"

lemma known_grows: "grows a a' \<Longrightarrow> known a i d \<Longrightarrow> known a' i d"
  by (fastforce simp: grows_def known_def)

lemma known_row: "api_row a i = Some r \<Longrightarrow> known a i (fixed_part r)"
  by (simp add: known_def)

lemma knownE: "known a i d \<Longrightarrow> (\<And>r. api_row a i = Some r \<Longrightarrow> d = fixed_part r \<Longrightarrow> thesis) \<Longrightarrow> thesis"
  by (auto simp: known_def)

lemma grows_refl [simp]: "grows a a"
  by (simp add: grows_def)

lemma grows_same: "api_row a' = api_row a \<Longrightarrow> grows a a'"
  by (simp add: grows_def)

section \<open>What announces a notification\<close>

text \<open>
  A ready message of its row, or a schedule event that names it: nothing else makes the services send.
\<close>

definition announces :: "golib \<Rightarrow> uuid \<Rightarrow> nats_msg \<Rightarrow> bool" where
  "announces L i x \<longleftrightarrow> (\<exists>c d. x = in_context c (ready_message L d) \<and> r_ID d = i)
     \<or> (\<exists>c is. x = in_context c (scheduled_message L is) \<and> uuid_text L i \<in> si_NotificationID ` set is)"

definition announced :: "golib \<Rightarrow> api_world \<Rightarrow> uuid \<Rightarrow> bool" where
  "announced L a i \<longleftrightarrow> (\<exists>x \<in> set (api_sent a). announces L i x)"

lemma text_inj: "uuid_text_parses L \<Longrightarrow> uuid_text L i = uuid_text L j \<longleftrightarrow> i = j"
  unfolding uuid_text_parses_def by (metis option.inject)

lemma priority_topic_differs [simp]:
  "TopicByPriority p \<noteq> TopicNotificationScheduled" "TopicByPriority p \<noteq> TopicNotificationScheduleCancelled"
  "TopicNotificationScheduled \<noteq> TopicByPriority p" "TopicNotificationScheduleCancelled \<noteq> TopicByPriority p"
  by (simp_all add: TopicByPriority_def topic_defs)

lemma announces_ready:
  "uuid_text_parses L \<Longrightarrow> announces L i (in_context c (ready_message L d)) \<longleftrightarrow> i = r_ID d"
  by (auto simp: announces_def in_context_def ready_message_def scheduled_message_def ready_to_json_def ready_From_def
      text_inj)

lemma items_json: "map (item_to_json L) xs = map (item_to_json L) ys \<Longrightarrow> map si_NotificationID xs = map si_NotificationID ys"
proof -
  let ?id = "\<lambda>j. case j of JObj ((_, JStr t) # _) \<Rightarrow> t | _ \<Rightarrow> []"
  assume "map (item_to_json L) xs = map (item_to_json L) ys"
  then have "map ?id (map (item_to_json L) xs) = map ?id (map (item_to_json L) ys)" by (rule arg_cong)
  then show "map si_NotificationID xs = map si_NotificationID ys" by (simp add: item_to_json_def comp_def)
qed

lemma announces_scheduled:
  "announces L i (in_context c (scheduled_message L is)) \<longleftrightarrow> uuid_text L i \<in> si_NotificationID ` set is"
proof
  assume "announces L i (in_context c (scheduled_message L is))"
  then obtain js where "map (item_to_json L) is = map (item_to_json L) js" "uuid_text L i \<in> si_NotificationID ` set js"
    by (auto simp: announces_def in_context_def ready_message_def scheduled_message_def scheduled_to_json_def)
  then show "uuid_text L i \<in> si_NotificationID ` set is" by (metis items_json list.set_map)
next
  assume "uuid_text L i \<in> si_NotificationID ` set is"
  then show "announces L i (in_context c (scheduled_message L is))" unfolding announces_def by blast
qed

lemma announces_cancelled: "nm_subject x = TopicNotificationScheduleCancelled \<Longrightarrow> \<not> announces L i x"
  by (auto simp: announces_def in_context_def ready_message_def scheduled_message_def)

section \<open>What the provider gets\<close>

definition to_send :: "nrow \<Rightarrow> string \<times> string \<times> string" where
  "to_send r = (r_Recipient r, r_Channel r, r_Content r)"

lemma to_send_fixed [simp]: "to_send (fixed_part r) = to_send r"
  by (simp add: to_send_def)

text \<open>
  A request the provider accepted: the answer to the \<open>k\<close>-th request is the \<open>k\<close>-th of the tape.
\<close>

definition accepted :: "proc_world \<Rightarrow> string \<times> string \<times> string \<Rightarrow> bool" where
  "accepted p q \<longleftrightarrow> (\<exists>k < length (requests p). requests p ! k = q \<and> tape_fun (pw_provider p) k = Inr 202)"

definition due_by :: "nrow \<Rightarrow> time \<Rightarrow> bool" where
  "due_by r now \<longleftrightarrow> (\<forall>t. r_DeliverAfter r = Some t \<longrightarrow> t \<le> now)"

lemma due_by_fixed [simp]: "due_by (fixed_part r) now = due_by r now"
  by (simp add: due_by_def)

lemma due_by_later: "due_by r now \<Longrightarrow> now \<le> t \<Longrightarrow> due_by r t"
  by (auto simp: due_by_def)

section \<open>The invariant\<close>

text \<open>A stored row, as the setters leave it, with a status of the table.\<close>

definition row_ok :: "golib \<Rightarrow> nrow \<Rightarrow> bool" where
  "row_ok L r \<longleftrightarrow> r_Channel r \<in> {ChannelSMS, ChannelEmail, ChannelPush}
     \<and> valid_recipient L (r_Channel r) (r_Recipient r) \<and> r_Content r \<noteq> ''''
     \<and> r_Priority r \<in> {PriorityHigh, PriorityNormal, PriorityLow} \<and> 0 < r_MaxAttempts r
     \<and> validTransitions (r_Status r) \<noteq> None"

text \<open>The messages the API may have put on the stream.\<close>

definition api_message :: "golib \<Rightarrow> time \<Rightarrow> api_world \<Rightarrow> nats_msg \<Rightarrow> bool" where
  "api_message L now a x \<longleftrightarrow>
     (\<exists>c i d. x = in_context c (ready_message L d) \<and> known a i d \<and> due_by d now)
   \<or> (\<exists>c is. x = in_context c (scheduled_message L is) \<and> distinct (map si_NotificationID is)
        \<and> (\<forall>it \<in> set is. \<exists>i d. known a i d \<and> si_NotificationID it = uuid_text L i
             \<and> r_DeliverAfter d = Some (si_ScheduledAt it)))
   \<or> nm_subject x = TopicNotificationScheduleCancelled"

definition due_known :: "golib \<Rightarrow> time \<Rightarrow> api_world \<Rightarrow> nats_msg \<Rightarrow> bool" where
  "due_known L now a x \<longleftrightarrow>
     (\<exists>i d. nm_data x = due_to_json \<lparr>de_NotificationID = uuid_text L i\<rparr> \<and> known a i d \<and> due_by d now)"

definition result_true :: "golib \<Rightarrow> api_world \<Rightarrow> proc_world \<Rightarrow> nats_msg \<Rightarrow> bool" where
  "result_true L a p x \<longleftrightarrow> (\<exists>e. nm_data x = result_to_json e \<and>
     (rs_Status e = StatusDelivered \<longrightarrow> (\<exists>i d. rs_NotificationID e = uuid_text L i \<and> known a i d
        \<and> accepted p (to_send d))))"

definition api_inv :: "golib \<Rightarrow> time \<Rightarrow> api_world \<Rightarrow> bool" where
  "api_inv L now a \<longleftrightarrow> api_keyed a \<and> (\<forall>i r. api_row a i = Some r \<longrightarrow> row_ok L r)
     \<and> (\<forall>x \<in> set (api_sent a). api_message L now a x)"

definition sched_inv :: "golib \<Rightarrow> time \<Rightarrow> api_world \<Rightarrow> sched_world \<Rightarrow> bool" where
  "sched_inv L now a d \<longleftrightarrow> sched_keyed d
     \<and> (\<forall>i t tr. sched_pending d i = Some (t, tr) \<longrightarrow> (\<exists>r. known a i r \<and> r_DeliverAfter r = Some t))
     \<and> (\<forall>x \<in> set (sched_stream d). due_known L now a x)"

definition proc_inv :: "golib \<Rightarrow> time \<Rightarrow> api_world \<Rightarrow> proc_world \<Rightarrow> bool" where
  "proc_inv L now a p \<longleftrightarrow> (\<forall>x \<in> set (stream_of p). result_true L a p x)
     \<and> (\<forall>q \<in> set (requests p). \<exists>i d. known a i d \<and> q = to_send d \<and> due_by d now)
     \<and> (\<forall>i r. api_row a i = Some r \<longrightarrow> r_Status r = StatusDelivered \<longrightarrow> accepted p (to_send r))
     \<and> tape_pos (pw_provider p) = length (requests p)"

text \<open>
  What is under way rests on: the row a call has read and the accepted send a result reports; the row
  behind a worker's message, its send if the provider has accepted it; the rows behind claimed rows.
\<close>

definition claimed_due :: "golib \<Rightarrow> time \<Rightarrow> api_world \<Rightarrow> sched \<Rightarrow> bool" where
  "claimed_due L now a n \<longleftrightarrow>
     (\<exists>k t tr d. n = sched_of L k (t, tr) \<and> known a k d \<and> r_DeliverAfter d = Some t \<and> t \<le> now)"

definition run_rests :: "golib \<Rightarrow> time \<Rightarrow> api_world \<Rightarrow> proc_world \<Rightarrow> phase \<Rightarrow> nrow \<Rightarrow> ready_event delivered \<Rightarrow> bool" where
  "run_rests L now a p ph d m \<longleftrightarrow>
     in_hand ph = Some m \<and> rm_Event m = ready_From L d \<and> (\<exists>i. known a i d) \<and> due_by d now
     \<and> (\<forall>t dr. ph = Sent m t dr \<longrightarrow> dr_Success dr \<longrightarrow> accepted p (to_send d))"

definition open_inv :: "golib \<Rightarrow> time \<Rightarrow> api_world \<Rightarrow> proc_world \<Rightarrow> under_way \<Rightarrow> bool" where
  "open_inv L now a p c \<longleftrightarrow>
     (case c of
        OpenCancel ctx i found \<Rightarrow> \<forall>r. found = Inr r \<longrightarrow> row_ok L r
      | OpenUpdate i st found \<Rightarrow> (\<forall>r. found = Inr r \<longrightarrow> row_ok L r)
          \<and> (st = StatusDelivered \<longrightarrow> (\<exists>d. known a i d \<and> accepted p (to_send d)))
      | OpenRun ph \<Rightarrow> \<exists>d m. run_rests L now a p ph d m
      | OpenDue ctx ns \<Rightarrow> \<forall>n \<in> set ns. claimed_due L now a n
      | OpenBack ns \<Rightarrow> \<forall>n \<in> set ns. claimed_due L now a n)"

definition sys_inv :: "deployment \<Rightarrow> system \<Rightarrow> bool" where
  "sys_inv P s \<longleftrightarrow> api_inv (dp_lib P) (sy_now s) (sy_api s)
     \<and> sched_inv (dp_lib P) (sy_now s) (sy_api s) (sy_sched s)
     \<and> proc_inv (dp_lib P) (sy_now s) (sy_api s) (sy_proc s)
     \<and> (\<forall>c. c \<in># sy_open s \<longrightarrow> open_inv (dp_lib P) (sy_now s) (sy_api s) (sy_proc s) c)"

end
