(* ===== verification/SystemApi.thy ===== *)
theory SystemApi
  imports System
begin

text \<open>
  The API's steps keep the system's invariant: what a service call stores and publishes, that every
  HTTP handler makes one service call at most and only with validated notifications, and what the
  two consumers of the API do.
\<close>

section \<open>Rows\<close>

definition new_row :: "golib \<Rightarrow> nrow \<Rightarrow> bool" where
  "new_row L r \<longleftrightarrow> (\<exists>q b i. request_ok L q \<and> same_but_times (row_of (request_notification L q) b i) r)"

lemma new_row_ok: "new_row L r \<Longrightarrow> row_ok L r \<and> r_Status r = StatusPending"
proof -
  assume "new_row L r"
  then obtain q b i where q: "request_ok L q" and r: "same_but_times (row_of (request_notification L q) b i) r"
    by (auto simp: new_row_def)
  from q show ?thesis
    unfolding row_ok_def same_but_timesD [OF r] request_ok_def
    by (cases "cr_MaxAttempts q")
       (auto simp: row_of_def request_notification_def GetMaxAttempts_def validTransitions_def)
qed

text \<open>A row of a later world: an old one with its status moved, or a new one.\<close>

definition row_origin :: "golib \<Rightarrow> status set \<Rightarrow> api_world \<Rightarrow> uuid \<Rightarrow> nrow \<Rightarrow> bool" where
  "row_origin L sts a i r' \<longleftrightarrow>
     (\<exists>r st. api_row a i = Some r \<and> (st = r_Status r \<or> may_become (r_Status r) st \<and> st \<in> sts)
        \<and> same_but_times (r\<lparr>r_Status := st\<rparr>) r')
     \<or> (api_row a i = None \<and> new_row L r')"

lemma row_originE:
  assumes "row_origin L sts a i r'"
  obtains (old) r st where "api_row a i = Some r" "st = r_Status r \<or> may_become (r_Status r) st \<and> st \<in> sts"
      "same_but_times (r\<lparr>r_Status := st\<rparr>) r'"
    | (fresh) "api_row a i = None" "new_row L r'"
  using assms [unfolded row_origin_def]
proof
  assume "\<exists>r st. api_row a i = Some r \<and> (st = r_Status r \<or> may_become (r_Status r) st \<and> st \<in> sts)
      \<and> same_but_times (r\<lparr>r_Status := st\<rparr>) r'"
  then obtain r st where "api_row a i = Some r" "st = r_Status r \<or> may_become (r_Status r) st \<and> st \<in> sts"
    "same_but_times (r\<lparr>r_Status := st\<rparr>) r'" by (elim exE conjE)
  then show thesis by (rule old)
next
  assume "api_row a i = None \<and> new_row L r'"
  then show thesis by (elim conjE) (rule fresh)
qed

lemma row_origin_same: "api_row a i = Some r \<Longrightarrow> row_origin L sts a i r"
  unfolding row_origin_def by (intro disjI1 exI [of _ r] exI [of _ "r_Status r"]) simp

text \<open>What a call of the service may do to the world.\<close>

definition call_effect :: "golib \<Rightarrow> status set \<Rightarrow> api_world \<Rightarrow> api_world \<Rightarrow> bool" where
  "call_effect L sts a a' \<longleftrightarrow> api_keyed a' \<and> grows a a'
     \<and> (\<forall>i r'. api_row a' i = Some r' \<longrightarrow> row_origin L sts a i r')
     \<and> (\<exists>new. api_sent a' = api_sent a @ new \<and> (\<forall>now. \<forall>x \<in> set new. api_message L now a' x)
          \<and> (\<forall>x \<in> set new. \<forall>i. announces L i x \<longrightarrow> api_row a i = None))"

lemma call_effect_same:
  "api_keyed a' \<Longrightarrow> api_row a' = api_row a \<Longrightarrow> api_sent a' = api_sent a \<Longrightarrow> call_effect L sts a a'"
  by (auto simp: call_effect_def grows_same intro: row_origin_same)

lemma call_effect_set:
  assumes "api_row a i = Some r" "may_become (r_Status r) st" "st \<in> sts"
    "same_but_times (r\<lparr>r_Status := st\<rparr>) r'" "api_row a' = (api_row a)(i \<mapsto> r')" "api_keyed a'"
    "api_sent a' = api_sent a @ new" "\<forall>x \<in> set new. nm_subject x = TopicNotificationScheduleCancelled"
  shows "call_effect L sts a a'"
  using assms same_but_times_fixed [OF assms(4)]
  by (auto simp: call_effect_def grows_def api_message_def row_origin_def announces_cancelled intro: row_origin_same)

lemma created_announces:
  "uuid_text_parses L \<Longrightarrow> announces L i (in_context c (created_message L r)) \<longleftrightarrow> i = r_ID r"
  by (cases "r_DeliverAfter r")
     (simp_all add: created_message_def announces_ready announces_scheduled scheduled_item_of_def text_inj)

lemma call_effect_new:
  assumes "api_row a i = None" "new_row L r" "r_ID r = i" "api_row a' = (api_row a)(i \<mapsto> r)" "api_keyed a'"
    "api_sent a' = api_sent a @ new" "\<forall>x \<in> set new. x = in_context c (created_message L r)"
    and L: "uuid_text_parses L"
  shows "call_effect L sts a a'"
proof -
  have k: "known a' i (fixed_part r)" using assms(4) by (simp add: known_def)
  have "api_message L now a' (in_context c (created_message L r))" for now
  proof (cases "r_DeliverAfter r")
    case None
    then have "due_by (fixed_part r) now" by (simp add: due_by_def)
    with k None show ?thesis
      unfolding api_message_def by (intro disjI1 exI [of _ c] exI [of _ i] exI [of _ "fixed_part r"])
        (simp add: created_message_def)
  next
    case (Some t)
    with k assms(3) show ?thesis
      unfolding api_message_def
      by (intro disjI2 disjI1 exI [of _ c] exI [of _ "[scheduled_item_of L r t]"])
         (auto simp: created_message_def scheduled_item_of_def intro!: exI [of _ i] exI [of _ "fixed_part r"])
  qed
  then have "\<forall>now. \<forall>x \<in> set new. api_message L now a' x" using assms(7) by auto
  moreover have "\<forall>x \<in> set new. \<forall>j. announces L j x \<longrightarrow> api_row a j = None"
    using assms(1,3,7) by (auto simp: created_announces [OF L])
  moreover have "grows a a'" using assms(1,4) by (auto simp: grows_def)
  moreover have "\<forall>j r'. api_row a' j = Some r' \<longrightarrow> row_origin L sts a j r'"
    using assms(1,2,4) by (auto simp: row_origin_def intro: row_origin_same)
  ultimately show ?thesis unfolding call_effect_def using assms(5,6) by blast
qed

section \<open>The calls\<close>

lemma create_effect:
  assumes L: "uuid_text_parses L" and k: "api_keyed a" and q: "request_ok L q" and n: "n = request_notification L q"
    and c: "svc_Create (api_deps L) ctx n a = (x, a')"
  shows "call_effect L sts a a'"
proof -
  have new: "new_row L r" if "same_but_times (row_of n None i) r" for r i
    using that q n by (auto simp: new_row_def)
  have ID: "r_ID r = i" if "same_but_times (row_of n None i) r" for r i
    using same_but_timesD(1) [OF that] by (simp add: row_of_def)
  from k c show ?thesis
  proof (cases rule: api.create_cases)
    case (not_stored e)
    then show ?thesis by (intro call_effect_same)
  next
    case (not_sent e r i)
    from not_sent(6) obtain m where "api_sent a' = api_sent a @ m"
      "\<forall>x \<in> set m. x = in_context ctx (created_message L r)" by auto
    with not_sent L show ?thesis by (intro call_effect_new [of a i L r]) (auto intro: new ID)
  next
    case (ok r i)
    with L show ?thesis by (intro call_effect_new [of a i L r a' "[in_context ctx (created_message L r)]" ctx]) (auto intro: new)
  qed
qed

lemma cancel_effect:
  assumes k: "api_keyed a" and c: "svc_Cancel (api_deps L) ctx i a = (x, a')"
  shows "call_effect L {StatusCancelled} a a'"
  using k c
proof (cases rule: api.cancel_cases)
  case (failed e)
  then show ?thesis by (intro call_effect_same)
next
  case (not_sent e r r')
  from not_sent(7) obtain m where "api_sent a' = api_sent a @ m"
    "\<forall>x \<in> set m. nm_subject x = TopicNotificationScheduleCancelled" by auto
  with not_sent show ?thesis by (intro call_effect_set) auto
next
  case (ok r r')
  then show ?thesis by (intro call_effect_set) auto
qed

lemma update_effect:
  assumes k: "api_keyed a" and c: "svc_UpdateStatus (api_deps L) i st a = (x, a')"
  shows "call_effect L {st} a a'
    \<and> (\<forall>j r'. j \<noteq> i \<longrightarrow> api_row a' j = Some r' \<longrightarrow> api_row a j = Some r')"
  using k c
proof (cases rule: api.update_cases)
  case (failed e)
  then show ?thesis by (simp add: call_effect_same)
next
  case (ok r r')
  then show ?thesis by (auto intro!: call_effect_set [of a i r st "{st}" r' a' "[]"])
qed

lemma read_effect:
  assumes "api_keyed a"
  shows "call_effect L sts a (snd (svc_GetByID (api_deps L) i a))"
    and "call_effect L sts a (snd (svc_List (api_deps L) f a))"
proof -
  obtain x a' where g: "repo_GetByID (svc_repo (api_deps L)) i a = (x, a')" by fastforce
  from api.get_frame [OF g] assms show "call_effect L sts a (snd (svc_GetByID (api_deps L) i a))"
    unfolding svc_GetByID_def g by (simp add: call_effect_same)
  show "call_effect L sts a (snd (svc_List (api_deps L) f a))"
    unfolding svc_List_def
    by (intro call_effect_same api.keyed_list api.list_stored api.list_sent assms)
qed

lemma known_of_entity:
  assumes "api_row a i = Some r" "same_but_times e r" "r_ID e = i"
  shows "known a i (fixed_part e)"
  using assms same_but_times_fixed [where r = e and st = "r_Status e" and r' = r] by (simp add: known_def)

lemma items_distinct:
  assumes "uuid_text_parses L" "distinct (map r_ID es)"
  shows "distinct (map si_NotificationID (scheduled_items L es))"
proof -
  have inj: "inj (uuid_text L)"
    using assms(1) by (intro inj_on_inverseI [where g = "\<lambda>t. the (uuid_parse L t)"]) (simp add: uuid_text_parses_def)
  have "map si_NotificationID (scheduled_items L es) = map (uuid_text L \<circ> r_ID) (filter (\<lambda>e. r_DeliverAfter e \<noteq> None) es)"
    unfolding scheduled_items_def by (induction es) (auto simp: scheduled_item_of_def)
  also have "\<dots> = map (uuid_text L) (map r_ID (filter (\<lambda>e. r_DeliverAfter e \<noteq> None) es))" by simp
  finally show ?thesis using assms(2) inj
    by (simp only: distinct_map_filter distinct_map [of "uuid_text L"] inj_on_subset [OF inj subset_UNIV] simp_thms)
qed

lemma batch_messages_ok:
  assumes L: "uuid_text_parses L" "distinct (map r_ID es)" and k: "\<And>e. e \<in> set es \<Longrightarrow> known a (r_ID e) (fixed_part e)" and m: "m \<in> set (batch_messages L es)"
  shows "api_message L now a (in_context c m)"
proof -
  from m consider (sched) "m = scheduled_message L (scheduled_items L es)"
    | (imm) e where "e \<in> set es" "r_DeliverAfter e = None" "m = ready_message L e"
    by (auto simp: batch_messages_def immediate_entities_def split: if_splits)
  then show ?thesis
  proof cases
    case sched
    have "\<exists>i d. known a i d \<and> si_NotificationID it = uuid_text L i \<and> r_DeliverAfter d = Some (si_ScheduledAt it)"
      if "it \<in> set (scheduled_items L es)" for it
    proof -
      from that obtain e t where e: "e \<in> set es" "r_DeliverAfter e = Some t" "it = scheduled_item_of L e t"
        by (auto simp: scheduled_items_def set_somes dest!: sym [of "Some it"])
      with k [OF e(1)] show ?thesis
        by (intro exI [of _ "r_ID e"] exI [of _ "fixed_part e"]) (simp add: scheduled_item_of_def)
    qed
    with sched items_distinct [OF L] show ?thesis unfolding api_message_def by blast
  next
    case (imm e)
    then have "due_by (fixed_part e) now" by (simp add: due_by_def)
    with k [OF imm(1)] imm(3) show ?thesis
      unfolding api_message_def
      by (intro disjI1 exI [of _ c] exI [of _ "r_ID e"] exI [of _ "fixed_part e"]) simp
  qed
qed

text \<open>The messages of a batch announce its rows.\<close>

lemma batch_announces:
  assumes "uuid_text_parses L" "m \<in> set (batch_messages L es)" "announces L i (in_context c m)"
  shows "i \<in> r_ID ` set es"
proof -
  have "i \<in> r_ID ` set es" if "it \<in> set (scheduled_items L es)" "uuid_text L i = si_NotificationID it" for it
    using that assms(1)
    by (auto simp: scheduled_items_def set_somes scheduled_item_of_def text_inj dest!: sym [of "Some it"])
  with assms show ?thesis
    by (auto simp: batch_messages_def immediate_entities_def announces_ready announces_scheduled split: if_splits)
qed

lemma accepted_rowsE:
  assumes "e \<in> set (accepted_rows b ns results)" "length results = length ns"
  obtains j u where "j < length ns" "br_ID (results ! j) = Some u" "e = row_of (ns ! j) (Some b) u"
  using assms by (auto simp: accepted_rows_def set_somes in_set_zip in_set_conv_nth dest!: sym [of "Some e"])

lemma batch_effect:
  assumes L: "uuid_text_parses L" and k: "api_keyed a" and n: "\<forall>n \<in> set ns. \<exists>q. request_ok L q \<and> n = request_notification L q"
    and c: "svc_CreateBatch (api_deps L) ctx ns a = ((b, results, err), a')"
  shows "call_effect L sts a a'"
proof -
  note spec = api.batch_spec [OF k c]
  have rep: "\<exists>r. api_row a' u = Some r \<and> same_but_times (row_of (ns ! j) (Some b) u) r"
    if "j < length ns" "br_ID (results ! j) = Some u" for j u
    using spec(2) that by (auto simp: item_reported_def split: option.splits)
  have same: "api_row a' i = Some r" if "api_row a i = Some r" for i r
    using spec(3) that by (metis option.distinct(1))
  have "grows a a'" using same by (auto simp: grows_def)
  moreover have "row_origin L sts a i r'" if r': "api_row a' i = Some r'" for i r'
  proof (cases "api_row a' i = api_row a i")
    case True
    with r' show ?thesis by (simp add: row_origin_same)
  next
    case False
    with spec(3) obtain res where res: "api_row a i = None" "res \<in> set results" "br_ID res = Some i" by blast
    then obtain j where j: "j < length ns" "br_ID (results ! j) = Some i"
      using spec(1) by (metis in_set_conv_nth)
    from rep [OF j] r' have "same_but_times (row_of (ns ! j) (Some b) i) r'" by simp
    moreover from n j(1) obtain q where "request_ok L q" "ns ! j = request_notification L q"
      using nth_mem by blast
    ultimately have "new_row L r'" by (auto simp: new_row_def)
    with res(1) show ?thesis by (simp add: row_origin_def)
  qed
  moreover have "known a' (r_ID e) (fixed_part e)" if e: "e \<in> set (accepted_rows b ns results)" for e
  proof -
    from e spec(1) obtain j u where j: "j < length ns" "br_ID (results ! j) = Some u"
      and eq: "e = row_of (ns ! j) (Some b) u" by (rule accepted_rowsE)
    have "r_ID e = u" by (simp add: eq row_of_def)
    moreover from rep [OF j] obtain r where "api_row a' u = Some r" "same_but_times e r" unfolding eq by blast
    ultimately show ?thesis by (intro known_of_entity [of a' _ r]) simp_all
  qed
  then have ok: "api_message L now a' (in_context ctx m)"
    if "m \<in> set (batch_messages L (accepted_rows b ns results))" for m now
    using that by (rule batch_messages_ok [OF L spec(6)])
  obtain pre where pre: "prefix pre (batch_messages L (accepted_rows b ns results))"
    "api_sent a' = api_sent a @ map (in_context ctx) pre"
    using spec(4) by (auto split: if_splits)
  have "\<forall>now. \<forall>x \<in> set (map (in_context ctx) pre). api_message L now a' x"
    using ok set_mono_prefix [OF pre(1)] by auto
  moreover have "api_row a i = None" if "x \<in> set (map (in_context ctx) pre)" "announces L i x" for x i
    using that spec(7) set_mono_prefix [OF pre(1)] batch_announces [OF L, where c = ctx] by fastforce
  ultimately show ?thesis unfolding call_effect_def using spec(5) pre(2) by blast
qed

section \<open>The handlers\<close>

text \<open>A handler makes one call of the service, or none.\<close>

lemma service_cases:
  assumes k: "api_keyed a" and e: "call_effect L {StatusCancelled} a a' \<or> a' = a"
  shows "call_effect L {StatusCancelled} a a'"
  using e call_effect_same [OF k] by blast

lemma create_handler:
  assumes L: "uuid_text_parses L" and k: "api_keyed a" and h: "createNotification L (api_service L) r w a = (p, a')"
  shows "call_effect L {StatusCancelled} a a'"
proof (rule service_cases [OF k])
  show "call_effect L {StatusCancelled} a a' \<or> a' = a"
  proof (cases "DecodeBody create_of_json r")
    case (Inr req)
    show ?thesis
    proof (cases "ToNotification L req")
      case (Inr n)
      obtain x a1 where s: "svc_Create (api_deps L) (hr_ctx r) n a = (x, a1)" by fastforce
      have "request_ok L req" "n = request_notification L req" using Inr by (simp_all add: ToNotification_Inr)
      from create_effect [OF L k this s] have "call_effect L {StatusCancelled} a a1" .
      moreover have "a' = a1" using h \<open>DecodeBody create_of_json r = Inr req\<close> Inr s
        by (auto simp: createNotification_def split: sum.splits)
      ultimately show ?thesis by simp
    qed (use h Inr in \<open>simp add: createNotification_def\<close>)
  qed (use h in \<open>simp add: createNotification_def\<close>)
qed

lemma get_handler:
  assumes k: "api_keyed a" and h: "getNotification L (api_service L) r w a = (p, a')"
  shows "call_effect L {StatusCancelled} a a'"
proof (rule service_cases [OF k])
  show "call_effect L {StatusCancelled} a a' \<or> a' = a"
  proof (cases "uuid_parse L (hr_param r ''id'')")
    case (Some i)
    have "a' = snd (svc_GetByID (api_deps L) i a)" using h Some
      by (auto simp: getNotification_def split: sum.splits prod.splits)
    with read_effect(1) [OF k] show ?thesis by simp
  qed (use h in \<open>simp add: getNotification_def\<close>)
qed

lemma cancel_handler:
  assumes k: "api_keyed a" and h: "cancelNotification L (api_service L) r w a = (p, a')"
  shows "call_effect L {StatusCancelled} a a'"
proof (rule service_cases [OF k])
  show "call_effect L {StatusCancelled} a a' \<or> a' = a"
  proof (cases "uuid_parse L (hr_param r ''id'')")
    case (Some i)
    obtain x a1 where c: "svc_Cancel (api_deps L) (hr_ctx r) i a = (x, a1)" by fastforce
    then have "a' = a1" using h Some by (auto simp: cancelNotification_def split: sum.splits)
    with cancel_effect [OF k c] show ?thesis by simp
  qed (use h in \<open>simp add: cancelNotification_def\<close>)
qed

lemma list_page_world: "list_page L (api_service L) f w a = (p, a') \<Longrightarrow> a' = snd (svc_List (api_deps L) f a)"
  by (auto simp: list_page_def split: sum.splits prod.splits option.splits)

lemma list_handler:
  assumes k: "api_keyed a" and h: "listNotifications L (api_service L) r w a = (p, a')"
  shows "call_effect L {StatusCancelled} a a'"
proof (rule service_cases [OF k])
  from h have "a' = a \<or> (\<exists>f. a' = snd (svc_List (api_deps L) f a))"
    by (auto simp: listNotifications_def Let_def dest!: list_page_world split: if_splits sum.splits)
  with read_effect(2) [OF k] show "call_effect L {StatusCancelled} a a' \<or> a' = a" by blast
qed

lemma batch_handler:
  assumes L: "uuid_text_parses L" and k: "api_keyed a" and h: "createBatch L (api_service L) r w a = (p, a')"
  shows "call_effect L {StatusCancelled} a a'"
proof (rule service_cases [OF k])
  show "call_effect L {StatusCancelled} a a' \<or> a' = a"
  proof (cases "DecodeBody batch_of_json r")
    case (Inr req)
    show ?thesis
    proof (cases "length (bq_Notifications req) > 1000")
      case False
      obtain valid rejected where c: "convert_items L 0 (bq_Notifications req) = (valid, rejected)" by fastforce
      obtain b results err a1 where
        s: "svc_CreateBatch (api_deps L) (hr_ctx r) (map snd valid) a = ((b, results, err), a1)"
        by (metis prod.collapse)
      have "a' = a1" using h Inr False c s
        by (auto simp: createBatch_def Let_def split: option.splits)
      moreover have "\<forall>n \<in> set (map snd valid). \<exists>q. request_ok L q \<and> n = request_notification L q"
        using convert_items_spec [OF c] by auto
      ultimately show ?thesis using batch_effect [OF L k _ s] by simp
    qed (use h Inr in \<open>simp add: createBatch_def\<close>)
  qed (use h in \<open>simp add: createBatch_def\<close>)
qed

lemma errHandler_world: "errHandler h r w a = (p, a') \<Longrightarrow> \<exists>q. h r w a = (q, a')"
  by (auto simp: errHandler_def split: prod.splits outcome.splits option.splits)

lemma http_effect:
  assumes L: "uuid_text_parses L" and k: "api_keyed a" and rt: "rt \<in> set (notification_routes L (api_service L) [])"
    and h: "rt_handler rt req w a = (p, a')"
  shows "call_effect L {StatusCancelled} a a'"
proof -
  from rt have "rt_handler rt \<in> {errHandler (createNotification L (api_service L)),
      errHandler (listNotifications L (api_service L)), errHandler (createBatch L (api_service L)),
      errHandler (getNotification L (api_service L)), errHandler (cancelNotification L (api_service L))}"
    by (auto simp: notification_routes_def router_Post_def router_Get_def register_def)
  with h show ?thesis
    by (auto dest!: errHandler_world intro: create_handler [OF L k] list_handler [OF k] batch_handler [OF L k]
        get_handler [OF k] cancel_handler [OF k])
qed

end
