(* ===== verification/SystemLaws.thy ===== *)
theory SystemLaws
  imports SystemApi
begin

text \<open>
  Every step of the system keeps its invariant: the API's steps by the effects of its calls, the
  scheduler's by what a tick may claim and publish, the processor's by the cases of a run.
\<close>

section \<open>Monotonicity\<close>

lemma api_message_later:
  assumes "api_message L now a x" "grows a a'" "now \<le> now'"
  shows "api_message L now' a' x"
  using assms(1) unfolding api_message_def
proof (elim disjE exE conjE)
  fix c i d
  assume "x = in_context c (ready_message L d)" "known a i d" "due_by d now"
  with assms(2,3) show "(\<exists>c i d. x = in_context c (ready_message L d) \<and> known a' i d \<and> due_by d now') \<or>
     (\<exists>c is. x = in_context c (scheduled_message L is) \<and> distinct (map si_NotificationID is) \<and>
        (\<forall>it\<in>set is. \<exists>i d. known a' i d \<and> si_NotificationID it = uuid_text L i \<and>
          r_DeliverAfter d = Some (si_ScheduledAt it))) \<or>
     nm_subject x = TopicNotificationScheduleCancelled"
    by (blast intro: known_grows due_by_later)
next
  fix c "is"
  assume "x = in_context c (scheduled_message L is)" "distinct (map si_NotificationID is)" "\<forall>it\<in>set is. \<exists>i d. known a i d \<and>
     si_NotificationID it = uuid_text L i \<and> r_DeliverAfter d = Some (si_ScheduledAt it)"
  with assms(2) show "(\<exists>c i d. x = in_context c (ready_message L d) \<and> known a' i d \<and> due_by d now') \<or>
     (\<exists>c is. x = in_context c (scheduled_message L is) \<and> distinct (map si_NotificationID is) \<and>
        (\<forall>it\<in>set is. \<exists>i d. known a' i d \<and> si_NotificationID it = uuid_text L i \<and>
          r_DeliverAfter d = Some (si_ScheduledAt it))) \<or>
     nm_subject x = TopicNotificationScheduleCancelled"
    by (blast intro: known_grows)
qed simp

lemma due_known_later: "due_known L now a x \<Longrightarrow> grows a a' \<Longrightarrow> now \<le> now' \<Longrightarrow> due_known L now' a' x"
  unfolding due_known_def by (blast intro: known_grows due_by_later)

lemma result_true_later:
  assumes "result_true L a p x" "grows a a'" "\<And>q. accepted p q \<Longrightarrow> accepted p' q"
  shows "result_true L a' p' x"
  using assms unfolding result_true_def by (blast intro: known_grows)

lemma claimed_due_later: "claimed_due L now a n \<Longrightarrow> grows a a' \<Longrightarrow> now \<le> now' \<Longrightarrow> claimed_due L now' a' n"
  unfolding claimed_due_def by (blast intro: known_grows order.trans)

lemma run_rests_later:
  assumes "run_rests L now a p ph d m" "grows a a'" "\<And>q. accepted p q \<Longrightarrow> accepted p' q" "now \<le> now'"
  shows "run_rests L now' a' p' ph d m"
  using assms unfolding run_rests_def by (blast intro: known_grows due_by_later)

lemma open_inv_later:
  assumes "open_inv L now a p c" "grows a a'" "\<And>q. accepted p q \<Longrightarrow> accepted p' q" "now \<le> now'"
  shows "open_inv L now' a' p' c"
proof (cases c)
  case (OpenUpdate i st found)
  with assms(1) have "st = StatusDelivered \<Longrightarrow> \<exists>d. known a i d \<and> accepted p (to_send d)" by (simp add: open_inv_def)
  then have "st = StatusDelivered \<Longrightarrow> \<exists>d. known a' i d \<and> accepted p' (to_send d)"
    using known_grows [OF assms(2)] assms(3) by blast
  with assms(1) OpenUpdate show ?thesis by (simp add: open_inv_def)
next
  case (OpenRun ph)
  with assms(1) obtain d m where "run_rests L now a p ph d m" by (auto simp: open_inv_def)
  from run_rests_later [OF this assms(2-4)] OpenRun show ?thesis by (auto simp: open_inv_def)
next
  case (OpenDue ctx ns)
  with assms(1) claimed_due_later [OF _ assms(2,4)] show ?thesis by (simp add: open_inv_def)
next
  case (OpenBack ns)
  with assms(1) claimed_due_later [OF _ assms(2,4)] show ?thesis by (simp add: open_inv_def)
qed (use assms(1) in \<open>simp add: open_inv_def\<close>)

lemma opens_later:
  assumes "sys_inv P s" "grows (sy_api s) a" "\<And>q. accepted (sy_proc s) q \<Longrightarrow> accepted p q" "sy_now s \<le> now"
  shows "\<forall>c. c \<in># sy_open s \<longrightarrow> open_inv (dp_lib P) now a p c"
proof (intro allI impI)
  fix c
  assume "c \<in># sy_open s"
  with assms(1) have "open_inv (dp_lib P) (sy_now s) (sy_api s) (sy_proc s) c" by (simp add: sys_inv_def)
  then show "open_inv (dp_lib P) now a p c" using assms(2-4) by (rule open_inv_later)
qed

lemma sched_inv_later: "sched_inv L now a d \<Longrightarrow> grows a a' \<Longrightarrow> now \<le> now' \<Longrightarrow> sched_inv L now' a' d"
  unfolding sched_inv_def by (blast intro: known_grows due_known_later)

lemma api_inv_time: "api_inv L now a \<Longrightarrow> now \<le> now' \<Longrightarrow> api_inv L now' a"
  unfolding api_inv_def by (blast intro: api_message_later grows_refl)

section \<open>Service calls\<close>

lemma status_of_table:
  "may_become st st' \<Longrightarrow> validTransitions st \<noteq> None \<Longrightarrow> validTransitions st' \<noteq> None"
  by (auto simp: may_become_def validTransitions_def split: if_splits)

lemma row_ok_moves:
  assumes "row_ok L r" "st = r_Status r \<or> may_become (r_Status r) st" "same_but_times (r\<lparr>r_Status := st\<rparr>) r'"
  shows "row_ok L r'"
  using assms(1,2) status_of_table [of "r_Status r" st]
  unfolding row_ok_def same_but_timesD [OF assms(3)] by auto

lemma api_inv_effect:
  assumes e: "call_effect L sts a a'" and i: "api_inv L now a"
  shows "api_inv L now a'"
proof -
  from e obtain new where new: "api_sent a' = api_sent a @ new" "\<forall>x \<in> set new. api_message L now a' x"
    and g: "grows a a'" unfolding call_effect_def by blast
  have "row_ok L r'" if "api_row a' i = Some r'" for i r'
  proof -
    from e that have "row_origin L sts a i r'" unfolding call_effect_def by blast
    then show ?thesis
    proof (cases rule: row_originE)
      case (old r st)
      with i show ?thesis unfolding api_inv_def by (blast intro: row_ok_moves)
    qed (simp add: new_row_ok)
  qed
  moreover have "\<forall>x \<in> set (api_sent a). api_message L now a' x"
    using i g unfolding api_inv_def by (blast intro: api_message_later)
  ultimately show ?thesis using e new unfolding api_inv_def call_effect_def by auto
qed

lemma proc_inv_effect:
  assumes e: "call_effect L sts a a'" and i: "proc_inv L now a p"
    and d: "\<And>j r'. StatusDelivered \<in> sts \<Longrightarrow> api_row a' j = Some r' \<Longrightarrow> r_Status r' = StatusDelivered \<Longrightarrow>
      api_row a j = Some r' \<or> accepted p (to_send r')"
  shows "proc_inv L now a' p"
proof -
  have g: "grows a a'" using e by (simp add: call_effect_def)
  have "accepted p (to_send r')" if r': "api_row a' j = Some r'" "r_Status r' = StatusDelivered" for j r'
  proof (cases "StatusDelivered \<in> sts")
    case True
    from d [OF this r'] r'(2) i show ?thesis unfolding proc_inv_def by blast
  next
    case False
    from e r'(1) have "row_origin L sts a j r'" unfolding call_effect_def by blast
    then show ?thesis
    proof (cases rule: row_originE)
      case (old r st)
      from same_but_timesD(7) [OF old(3)] r'(2) False old(2) have "r_Status r = StatusDelivered" by auto
      with i old(1) have "accepted p (to_send r)" unfolding proc_inv_def by blast
      with same_but_timesD [OF old(3)] show ?thesis by (simp add: to_send_def)
    next
      case fresh
      with new_row_ok r'(2) show ?thesis by fastforce
    qed
  qed
  with i g show ?thesis unfolding proc_inv_def by (blast intro: result_true_later known_grows)
qed

lemma sys_inv_call:
  assumes "sys_inv P s" "call_effect (dp_lib P) sts (sy_api s) a'"
    "\<And>j r'. StatusDelivered \<in> sts \<Longrightarrow> api_row a' j = Some r' \<Longrightarrow> r_Status r' = StatusDelivered \<Longrightarrow>
      api_row (sy_api s) j = Some r' \<or> accepted (sy_proc s) (to_send r')"
  shows "sys_inv P (s\<lparr>sy_api := a'\<rparr>)"
proof -
  have g: "grows (sy_api s) a'" using assms(2) by (simp add: call_effect_def)
  have "proc_inv (dp_lib P) (sy_now s) a' (sy_proc s)"
    using assms(1) by (intro proc_inv_effect [OF assms(2) _ assms(3)]) (simp_all add: sys_inv_def)
  with assms(1) api_inv_effect [OF assms(2)] show ?thesis
    using sched_inv_later [OF _ g order.refl] opens_later [OF assms(1) g _ order.refl]
    by (simp add: sys_inv_def)
qed

section \<open>Payloads\<close>

lemma ready_read: "ready_of_json (ready_to_json e) = Inr e' \<Longrightarrow> e' = e"
  by (cases "int64 (re_MaxAttempts e)")
     (auto simp: ready_of_json_def ready_to_json_def ready_fields_def zero_ready_def codec_simps)

lemma result_read: "result_of_json (result_to_json e) = Inr e' \<Longrightarrow> e' = e"
  by (cases "int64 (rs_AttemptNumber e)"; cases "int64 (rs_HTTPStatusCode e)"; cases "int64 (rs_LatencyMS e)")
     (auto simp: result_of_json_def result_to_json_def result_fields_def zero_result_def codec_simps)

lemma parse_text: "uuid_text_parses L \<Longrightarrow> uuid_parse L (uuid_text L i) = Some i"
  by (simp add: uuid_text_parses_def)

section \<open>The API's consumers\<close>

lemma result_means_accepted:
  assumes L: "uuid_text_parses (dp_lib P)" and inv: "sys_inv P s"
    and m: "on_stream (stream_of (sy_proc s)) {TopicStatus} result_of_json m"
    and i: "uuid_parse (dp_lib P) (rs_NotificationID (rm_Event m)) = Some i"
    and st: "rs_Status (rm_Event m) = StatusDelivered"
  shows "\<exists>d. known (sy_api s) i d \<and> accepted (sy_proc s) (to_send d)"
proof -
  let ?e = "rm_Event m"
  from m obtain y where y: "y \<in> set (stream_of (sy_proc s))" "result_of_json (nm_data y) = Inr ?e"
    by (auto simp: on_stream_def)
  with inv have "result_true (dp_lib P) (sy_api s) (sy_proc s) y" by (simp add: sys_inv_def proc_inv_def)
  then obtain e where e: "nm_data y = result_to_json e" "rs_Status e = StatusDelivered \<longrightarrow>
      (\<exists>i d. rs_NotificationID e = uuid_text (dp_lib P) i \<and> known (sy_api s) i d
         \<and> accepted (sy_proc s) (to_send d))"
    unfolding result_true_def by blast
  from result_read [of e ?e] y(2) e(1) have "e = ?e" by simp
  with e(2) st obtain k f where k: "rs_NotificationID ?e = uuid_text (dp_lib P) k" "known (sy_api s) k f"
    "accepted (sy_proc s) (to_send f)" by auto
  from parse_text [OF L, of k] k(1) i have "k = i" by simp
  with k show ?thesis by blast
qed

lemma result_step:
  assumes L: "uuid_text_parses (dp_lib P)" and inv: "sys_inv P s"
    and m: "on_stream (stream_of (sy_proc s)) {TopicStatus} result_of_json m"
    and p: "result_processOne (dp_lib P) (api_service (dp_lib P)) m (sy_api s) = (ack, a)"
  shows "sys_inv P (s\<lparr>sy_api := a\<rparr>)"
proof (cases "uuid_parse (dp_lib P) (rs_NotificationID (rm_Event m))")
  case None
  with p have "a = sy_api s" by (simp add: result_processOne_def)
  with inv show ?thesis by simp
next
  case (Some i)
  let ?e = "rm_Event m"
  obtain x where u: "svc_UpdateStatus (api_deps (dp_lib P)) i (rs_Status ?e) (sy_api s) = (x, a)"
    using p Some by (auto simp: result_processOne_def split: prod.splits sum.splits)
  have "api_keyed (sy_api s)" using inv by (simp add: sys_inv_def api_inv_def)
  note eff = update_effect [OF this u]
  show ?thesis
  proof (rule sys_inv_call [OF inv eff [THEN conjunct1]])
    fix j r'
    assume d: "StatusDelivered \<in> {rs_Status ?e}" and r': "api_row a j = Some r'" "r_Status r' = StatusDelivered"
    show "api_row (sy_api s) j = Some r' \<or> accepted (sy_proc s) (to_send r')"
    proof (cases "j = i")
      case True
      from result_means_accepted [OF L inv m Some] d obtain f where f: "known (sy_api s) i f"
        "accepted (sy_proc s) (to_send f)" by auto
      have "grows (sy_api s) a" using eff by (simp add: call_effect_def)
      with f(1) have "known a i f" by (auto intro: known_grows)
      with r' True have "f = fixed_part r'" by (simp add: known_def)
      with f(2) show ?thesis by simp
    qed (use eff r' in blast)
  qed
qed

section \<open>Calls under way\<close>

text \<open>A write that acts on an older read: it moves the status of the current row, or nothing.\<close>

definition write_effect :: "uuid \<Rightarrow> status \<Rightarrow> api_world \<Rightarrow> api_world \<Rightarrow> bool" where
  "write_effect i st a a' \<longleftrightarrow> api_keyed a'
     \<and> (api_row a' = api_row a
       \<or> (\<exists>r r'. api_row a i = Some r \<and> same_but_times (r\<lparr>r_Status := st\<rparr>) r' \<and> api_row a' = (api_row a)(i \<mapsto> r')))
     \<and> (\<exists>new. api_sent a' = api_sent a @ new \<and> (\<forall>x \<in> set new. nm_subject x = TopicNotificationScheduleCancelled))"

lemma write_grows: "write_effect i st a a' \<Longrightarrow> grows a a'"
  by (auto simp: write_effect_def grows_def dest!: same_but_times_fixed)

lemma cancel_rest_effect:
  assumes "api_keyed a" "cancel_rest (api_deps L) ctx i found a = (x, a')"
  shows "api_row a' = api_row a \<and> write_effect i StatusCancelled a a'
    \<or> (\<exists>r0. found = Inr r0 \<and> may_become (r_Status r0) StatusCancelled) \<and> write_effect i StatusCancelled a a'"
  using assms
proof (cases rule: api.cancel_rest_cases)
  case (failed e)
  then show ?thesis by (simp add: write_effect_def)
next
  case (not_sent e r0 r r')
  then show ?thesis by (auto simp: write_effect_def)
next
  case (ok r0 r r')
  then show ?thesis by (auto simp: write_effect_def)
qed

lemma update_rest_effect:
  assumes "api_keyed a" "update_rest (api_deps L) i st found a = (x, a')"
  shows "api_row a' = api_row a \<and> write_effect i st a a'
    \<or> (\<exists>r0. found = Inr r0 \<and> may_become (r_Status r0) st) \<and> write_effect i st a a'"
  using assms
proof (cases rule: api.update_rest_cases)
  case (failed e)
  then show ?thesis by (simp add: write_effect_def)
next
  case (ok r0 r r')
  then show ?thesis by (auto simp: write_effect_def)
qed

lemma sys_inv_open:
  assumes inv: "sys_inv P s" and g: "repo_GetByID (svc_repo (api_deps (dp_lib P))) i (sy_api s) = (found, a)"
    and c: "\<And>a. (\<forall>r. found = Inr r \<longrightarrow> row_ok (dp_lib P) r) \<Longrightarrow> grows (sy_api s) a \<Longrightarrow> open_inv (dp_lib P) (sy_now s) a (sy_proc s) c"
  shows "sys_inv P (s\<lparr>sy_api := a, sy_open := add_mset c (sy_open s)\<rparr>)"
proof -
  have k: "api_keyed (sy_api s)" using inv by (simp add: sys_inv_def api_inv_def)
  note f = api.get_frame [OF g]
  from f k have "call_effect (dp_lib P) {} (sy_api s) a" by (intro call_effect_same) simp_all
  then have "sys_inv P (s\<lparr>sy_api := a\<rparr>)" by (rule sys_inv_call [OF inv]) simp
  moreover have "row_ok (dp_lib P) r" if "found = Inr r" for r
    using api.get_by_id_ok [OF g [unfolded that]] inv unfolding sys_inv_def api_inv_def by blast
  then have "open_inv (dp_lib P) (sy_now s) a (sy_proc s) c" using f by (intro c) (simp_all add: grows_same)
  ultimately show ?thesis by (auto simp: sys_inv_def)
qed

lemma sys_inv_write:
  assumes inv: "sys_inv P s" and w: "write_effect i st (sy_api s) a"
    and moves: "api_row a \<noteq> api_row (sy_api s) \<Longrightarrow> validTransitions st \<noteq> None"
    and delivered: "st = StatusDelivered \<Longrightarrow> \<exists>d. known (sy_api s) i d \<and> accepted (sy_proc s) (to_send d)"
    and rest: "\<And>c. c \<in># rest \<Longrightarrow> c \<in># sy_open s"
  shows "sys_inv P (s\<lparr>sy_api := a, sy_open := rest\<rparr>)"
proof -
  let ?L = "dp_lib P" and ?a = "sy_api s" and ?p = "sy_proc s"
  have g: "grows ?a a" using w by (rule write_grows)
  have row: "row_ok ?L r \<and> (r_Status r = StatusDelivered \<longrightarrow> accepted ?p (to_send r))" if r: "api_row a j = Some r" for j r
  proof (cases "api_row ?a j = Some r")
    case True
    with inv show ?thesis by (simp add: sys_inv_def api_inv_def proc_inv_def)
  next
    case False
    with r have "api_row a \<noteq> api_row ?a" by metis
    with w obtain r1 r2 where r1: "api_row ?a i = Some r1" and r2: "same_but_times (r1\<lparr>r_Status := st\<rparr>) r2"
        "api_row a = (api_row ?a)(i \<mapsto> r2)"
      unfolding write_effect_def by blast
    with r False have j: "j = i" and t: "same_but_times (r1\<lparr>r_Status := st\<rparr>) r" by (auto split: if_splits)
    from False r have "validTransitions st \<noteq> None" by (intro moves) auto
    with inv r1 have "row_ok ?L r"
      unfolding sys_inv_def api_inv_def row_ok_def same_but_timesD [OF t] by auto
    moreover have "accepted ?p (to_send r)" if "r_Status r = StatusDelivered"
    proof -
      from that have "st = StatusDelivered" using same_but_timesD(7) [OF t] by simp
      from delivered [OF this] obtain d where d: "known ?a i d" "accepted ?p (to_send d)" by blast
      with r1 same_but_times_fixed [OF t] have "d = fixed_part r" by (simp add: known_def)
      with d(2) show ?thesis by simp
    qed
    ultimately show ?thesis by blast
  qed
  obtain new where new: "api_sent a = api_sent ?a @ new" "\<forall>x \<in> set new. nm_subject x = TopicNotificationScheduleCancelled"
    and k: "api_keyed a" using w unfolding write_effect_def by blast
  have "api_message ?L (sy_now s) a x" if "x \<in> set (api_sent a)" for x
  proof (cases "x \<in> set new")
    case False
    with that new(1) inv have "api_message ?L (sy_now s) ?a x" by (simp add: sys_inv_def api_inv_def)
    then show ?thesis using g order.refl by (rule api_message_later)
  qed (use new(2) in \<open>simp add: api_message_def\<close>)
  with row k have "api_inv ?L (sy_now s) a" unfolding api_inv_def by blast
  moreover have "proc_inv ?L (sy_now s) a ?p"
    using inv row result_true_later [OF _ g, of ?L ?p _ ?p] known_grows [OF g]
    unfolding sys_inv_def proc_inv_def by blast
  ultimately show ?thesis
    using inv rest sched_inv_later [OF _ g order.refl] opens_later [OF inv g _ order.refl] by (simp add: sys_inv_def)
qed

lemma cancel_reads_step:
  assumes "sys_inv P s" "repo_GetByID (svc_repo (api_deps (dp_lib P))) i (sy_api s) = (found, a)"
  shows "sys_inv P (s\<lparr>sy_api := a, sy_open := add_mset (OpenCancel ctx i found) (sy_open s)\<rparr>)"
  using assms by (rule sys_inv_open) (simp add: open_inv_def)

lemma table_closed: "row_ok L r \<Longrightarrow> may_become (r_Status r) st \<Longrightarrow> validTransitions st \<noteq> None"
  using status_of_table by (auto simp: row_ok_def)

lemma cancel_writes_step:
  assumes inv: "sys_inv P s" and c: "OpenCancel ctx i found \<in># sy_open s"
    and w: "cancel_rest (api_deps (dp_lib P)) ctx i found (sy_api s) = (row, a)"
  shows "sys_inv P (s\<lparr>sy_api := a, sy_open := sy_open s - {#OpenCancel ctx i found#}\<rparr>)"
proof -
  have k: "api_keyed (sy_api s)" using inv by (simp add: sys_inv_def api_inv_def)
  have "open_inv (dp_lib P) (sy_now s) (sy_api s) (sy_proc s) (OpenCancel ctx i found)" using inv c by (simp add: sys_inv_def)
  then have found: "row_ok (dp_lib P) r" if "found = Inr r" for r using that by (simp add: open_inv_def)
  note e = cancel_rest_effect [OF k w]
  show ?thesis
  proof (rule sys_inv_write [OF inv])
    show "write_effect i StatusCancelled (sy_api s) a" using e by blast
    show "validTransitions StatusCancelled \<noteq> None" by (simp add: validTransitions_def)
  qed (auto dest: in_diffD)
qed

lemma result_reads_step:
  assumes L: "uuid_text_parses (dp_lib P)" and inv: "sys_inv P s"
    and m: "on_stream (stream_of (sy_proc s)) {TopicStatus} result_of_json m"
    and i: "uuid_parse (dp_lib P) (rs_NotificationID (rm_Event m)) = Some i"
    and g: "repo_GetByID (svc_repo (api_deps (dp_lib P))) i (sy_api s) = (found, a)"
  shows "sys_inv P (s\<lparr>sy_api := a, sy_open := add_mset (OpenUpdate i (rs_Status (rm_Event m)) found) (sy_open s)\<rparr>)"
proof (rule sys_inv_open [OF inv g])
  fix a
  assume "\<forall>r. found = Inr r \<longrightarrow> row_ok (dp_lib P) r" and "grows (sy_api s) a"
  with result_means_accepted [OF L inv m i] known_grows
  show "open_inv (dp_lib P) (sy_now s) a (sy_proc s) (OpenUpdate i (rs_Status (rm_Event m)) found)"
    by (fastforce simp: open_inv_def)
qed

lemma result_writes_step:
  assumes inv: "sys_inv P s" and c: "OpenUpdate i st found \<in># sy_open s"
    and w: "update_rest (api_deps (dp_lib P)) i st found (sy_api s) = (answer, a)"
  shows "sys_inv P (s\<lparr>sy_api := a, sy_open := sy_open s - {#OpenUpdate i st found#}\<rparr>)"
proof -
  have k: "api_keyed (sy_api s)" using inv by (simp add: sys_inv_def api_inv_def)
  have ov: "open_inv (dp_lib P) (sy_now s) (sy_api s) (sy_proc s) (OpenUpdate i st found)" using inv c by (simp add: sys_inv_def)
  then have found: "row_ok (dp_lib P) r" if "found = Inr r" for r using that by (simp add: open_inv_def)
  note e = update_rest_effect [OF k w]
  show ?thesis
  proof (rule sys_inv_write [OF inv])
    show "write_effect i st (sy_api s) a" using e by blast
    show "validTransitions st \<noteq> None" if "api_row a \<noteq> api_row (sy_api s)"
      using e that found table_closed by blast
    show "\<exists>d. known (sy_api s) i d \<and> accepted (sy_proc s) (to_send d)" if "st = StatusDelivered"
      using ov that by (simp add: open_inv_def)
  qed (auto dest: in_diffD)
qed

lemma due_keyed:
  assumes "api_keyed a" "handleBatch (api_due L ord) batch a = (acks, a')"
  shows "api_keyed a'"
proof -
  have one: "api_keyed (snd (dispatch_one (api_due L ord) f p st))" if "api_keyed (snd st)" for f p st
    using that api.publish_keyed [of L]
    by (auto simp: dispatch_one_def api_due_def simp del: api_deps_sel split: prod.splits option.splits sum.splits)
       (metis snd_conv)+
  have all: "api_keyed (snd (fold (dispatch_one (api_due L ord) f) ps st))" if "api_keyed (snd st)" for f ps st
    using that by (induction ps arbitrary: st) (simp_all add: one)
  obtain b ids m where p: "parse_batch L batch = (b, ids, m)" by (metis prod_cases3)
  obtain x a1 where g: "repo_GetByIDs (svc_repo (api_deps L)) ids a = (x, a1)" by fastforce
  have k1: "api_keyed a1" using api.keyed_get_by_ids [OF assms(1), of L ids] unfolding g by simp
  show ?thesis
  proof (cases "ids = []")
    case True
    with assms p show ?thesis by (simp add: handleBatch_def api_due_def)
  next
    case False
    show ?thesis
    proof (cases x)
      case (Inl e)
      with assms(2) p g False k1 show ?thesis by (auto simp: handleBatch_def api_due_def)
    next
      case (Inr rs)
      with assms(2) p g False
      have "fold (dispatch_one (api_due L ord) (notifByID rs)) (ord m) (b, a1) = (acks, a')"
        by (simp add: handleBatch_def api_due_def)
      with all [of "(b, a1)" "notifByID rs" "ord m"] k1 show ?thesis by simp
    qed
  qed
qed

lemma due_step:
  assumes L: "uuid_text_parses (dp_lib P)" and ord: "\<And>ps. mset (dp_order P ps) = mset ps" and inv: "sys_inv P s"
    and m: "\<forall>m \<in> set batch. on_stream (sched_stream (sy_sched s)) {TopicScheduledNotificationDue} due_of_json m"
    and h: "handleBatch (api_due (dp_lib P) (dp_order P)) batch (sy_api s) = (acks, a)"
  shows "sys_inv P (s\<lparr>sy_api := a\<rparr>)"
proof -
  let ?L = "dp_lib P" and ?a = "sy_api s"
  have k: "api_keyed ?a" using inv by (simp add: sys_inv_def api_inv_def)
  have lib: "du_lib (api_due ?L (dp_order P)) = ?L" by (simp add: api_due_def)
  from due_env.handleBatch_spec [OF api_due_env [OF ord] k h] obtain ps as news where
    row: "api_row a = api_row ?a" and len: "length news = length ps"
    and ps: "\<forall>i m. (i, m) \<in> set ps \<longleftrightarrow> last_for ?L batch i = Some m"
    and sent: "api_sent a = api_sent ?a @ concat news"
    and turn: "\<forall>k < length ps. turn_ok ?L (api_row ?a) (ps ! k) (as ! k) (news ! k) \<or> as ! k = Nak \<and> news ! k = []"
    unfolding lib by blast
  have g: "grows ?a a" using row by (rule grows_same)
  have new: "api_message ?L (sy_now s) a x" if x: "x \<in> set (concat news)" for x
  proof -
    from x obtain xs where "xs \<in> set news" "x \<in> set xs" by auto
    then obtain n where "n < length ps" "x \<in> set (news ! n)"
      using len by (metis in_set_conv_nth)
    with turn have "turn_ok ?L (api_row ?a) (ps ! n) (as ! n) (news ! n)" by fastforce
    with \<open>x \<in> set (news ! n)\<close> obtain i r m where
      i: "ps ! n = (i, m)" "api_row ?a i = Some r" "x = due_ready ?L m r"
      by (cases "ps ! n") (auto simp: turn_ok_def split: option.split_asm)
    with ps \<open>n < length ps\<close> have "last_for ?L batch i = Some m" by (metis nth_mem)
    then have mi: "m \<in> set batch" "parsed ?L m = Some i" by (auto dest: last_for_SomeD)
    with m obtain y where y: "y \<in> set (sched_stream (sy_sched s))" "due_of_json (nm_data y) = Inr (rm_Event m)"
      by (auto simp: on_stream_def)
    with inv have "due_known ?L (sy_now s) ?a y" by (simp add: sys_inv_def sched_inv_def)
    then obtain k d where kd: "nm_data y = due_to_json \<lparr>de_NotificationID = uuid_text ?L k\<rparr>" "known ?a k d"
      "due_by d (sy_now s)" unfolding due_known_def by blast
    with y(2) have "rm_Event m = \<lparr>de_NotificationID = uuid_text ?L k\<rparr>" by simp
    with mi(2) parse_text [OF L, of k] have "k = i" by (simp add: parsed_def)
    with kd i(2) have "d = fixed_part r" "known a i (fixed_part r)" by (auto simp: known_def row)
    with kd(3) i(3) show ?thesis
      unfolding api_message_def
      by (intro disjI1 exI [of _ "rm_Ctx m"] exI [of _ i] exI [of _ "fixed_part r"]) (simp add: due_ready_def)
  qed
  have "api_inv ?L (sy_now s) a"
    using inv new due_keyed [OF k h] api_message_later [OF _ g order.refl, of ?L "sy_now s"]
    unfolding sys_inv_def api_inv_def by (auto simp: row sent)
  moreover have "proc_inv ?L (sy_now s) a (sy_proc s)"
    using inv result_true_later [OF _ g, of ?L "sy_proc s" _ "sy_proc s"]
    unfolding sys_inv_def proc_inv_def by (auto simp: row known_def)
  moreover have "sched_inv ?L (sy_now s) a (sy_sched s)"
    using inv sched_inv_later [OF _ g order.refl] by (simp add: sys_inv_def)
  moreover have "\<forall>c. c \<in># sy_open s \<longrightarrow> open_inv ?L (sy_now s) a (sy_proc s) c"
    using opens_later [OF inv g _ order.refl] by blast
  ultimately show ?thesis by (simp add: sys_inv_def)
qed

section \<open>The scheduler\<close>

lemma sched_stream_frame:
  assumes "sr_UpsertAll (sched_repo L) ns w = (r, w')"
  shows "sched_stream w' = sched_stream w"
  using ds.upsert_frame assms by simp

lemma handler_streams:
  "handleScheduledEvents (sched_repo L) m w = (ack, w') \<Longrightarrow> sched_stream w' = sched_stream w"
  "handleCancelEvent (sched_repo L) c w = (ack', w'') \<Longrightarrow> sched_stream w'' = sched_stream w"
  by (auto simp: handleScheduledEvents_def handleCancelEvent_def sched_stream_def on_part_eq Let_def
      split: prod.splits sum.splits)

text \<open>What the invariant says of a message of the API, by its subject.\<close>

lemma scheduled_origin:
  assumes "sys_inv P s" "x \<in> set (api_sent (sy_api s))" "nm_subject x = TopicNotificationScheduled"
  obtains c "is" where "x = in_context c (scheduled_message (dp_lib P) is)" "distinct (map si_NotificationID is)"
    "\<forall>it \<in> set is. \<exists>i d. known (sy_api s) i d \<and> si_NotificationID it = uuid_text (dp_lib P) i
        \<and> r_DeliverAfter d = Some (si_ScheduledAt it)"
proof -
  have "api_message (dp_lib P) (sy_now s) (sy_api s) x" using assms(1,2) by (simp add: sys_inv_def api_inv_def)
  with assms(3) that show thesis by (auto simp: api_message_def in_context_def ready_message_def)
qed

lemma ready_origin:
  assumes "sys_inv P s" "x \<in> set (api_sent (sy_api s))" "nm_subject x \<in> priority_topics"
  obtains c i d where "x = in_context c (ready_message (dp_lib P) d)" "known (sy_api s) i d" "due_by d (sy_now s)"
proof -
  have "api_message (dp_lib P) (sy_now s) (sy_api s) x" using assms(1,2) by (simp add: sys_inv_def api_inv_def)
  with assms(3) that show thesis
    by (auto simp: api_message_def in_context_def scheduled_message_def priority_topics_def)
qed

lemma schedule_step:
  assumes L: "uuid_text_parses (dp_lib P)" and T: "time_json_roundtrips (dp_lib P)" and inv: "sys_inv P s"
    and m: "on_stream (api_sent (sy_api s)) {TopicNotificationScheduled} (scheduled_of_json (dp_lib P)) m"
    and h: "handleScheduledEvents (sched_repo (dp_lib P)) m (sy_sched s) = (ack, d)"
  shows "sys_inv P (s\<lparr>sy_sched := d\<rparr>)"
proof -
  let ?L = "dp_lib P"
  have inv': "sched_inv ?L (sy_now s) (sy_api s) (sy_sched s)" using inv by (simp add: sys_inv_def)
  then have k: "sched_keyed (sy_sched s)" by (simp add: sched_inv_def)
  obtain x where x: "x \<in> set (api_sent (sy_api s))" "nm_subject x = TopicNotificationScheduled"
    "scheduled_of_json ?L (nm_data x) = Inr (rm_Event m)" using m by (auto simp: on_stream_def)
  obtain c "is" where i: "x = in_context c (scheduled_message ?L is)"
    "\<forall>it \<in> set is. \<exists>i d. known (sy_api s) i d \<and> si_NotificationID it = uuid_text ?L i
        \<and> r_DeliverAfter d = Some (si_ScheduledAt it)"
    using scheduled_origin [OF inv x(1,2)] by metis
  with x(3) T have "\<lparr>se_Notifications = is\<rparr> = rm_Event m" by (simp add: in_context_def scheduled_message_def)
  then have e: "se_Notifications (rm_Event m) = is" by (metis scheduled_event.select_convs(1))
  have "\<exists>r. known (sy_api s) j r \<and> r_DeliverAfter r = Some t"
    if "sched_pending d j = Some (t, tr)" for j t tr
    using k h
  proof (cases rule: scheduled_event_cases)
    case stored
    show ?thesis
    proof (cases "names_id ?L m j")
      case True
      then obtain it where it: "it \<in> set is" "uuid_parse ?L (si_NotificationID it) = Some j"
        by (auto simp: names_id_def e)
      with stored(3) [of it j] that e have "t = si_ScheduledAt it" by simp
      moreover from i(2) it(1) obtain i d where "known (sy_api s) i d" "si_NotificationID it = uuid_text ?L i"
        "r_DeliverAfter d = Some (si_ScheduledAt it)" by blast
      moreover from this it(2) parse_text [OF L, of i] have "i = j" by simp
      ultimately show ?thesis by blast
    qed (use stored(4) that inv' in \<open>auto simp: sched_inv_def\<close>)
  qed (use that inv' in \<open>auto simp: sched_inv_def\<close>)
  moreover have "sched_keyed d" using k h by (cases rule: scheduled_event_cases)
  ultimately show ?thesis
    using inv inv' handler_streams(1) [OF h] by (auto simp: sys_inv_def sched_inv_def)
qed

lemma cancel_step:
  assumes inv: "sys_inv P s" and h: "handleCancelEvent (sched_repo (dp_lib P)) m (sy_sched s) = (ack, d)"
  shows "sys_inv P (s\<lparr>sy_sched := d\<rparr>)"
proof -
  have inv': "sched_inv (dp_lib P) (sy_now s) (sy_api s) (sy_sched s)" using inv by (simp add: sys_inv_def)
  then have k: "sched_keyed (sy_sched s)" by (simp add: sched_inv_def)
  have "sched_keyed d \<and> (\<forall>j v. sched_pending d j = Some v \<longrightarrow> sched_pending (sy_sched s) j = Some v)"
    using k h by (cases rule: cancel_event_cases) (auto split: if_splits)
  with inv inv' handler_streams(2) [OF h] show ?thesis by (auto simp: sys_inv_def sched_inv_def)
qed

end
