(* ===== verification/SystemCalls.thy ===== *)
theory SystemCalls
  imports SystemLaws
begin

text \<open>
  The calls of a tick of the dispatcher and of a run of the pipeline, one by one and with any steps of
  the system in between, keep its invariant; so does every step. A whole \<open>Tick\<close> and a whole \<open>processOne\<close>
  are sequences of such calls.
\<close>

section \<open>The calls of a tick\<close>

lemma upserts_keep:
  assumes "uuid_text_parses L" "\<And>k t tr. m k = Some (t, tr) \<Longrightarrow> Q k t"
    and "\<And>n. n \<in> set ns \<Longrightarrow> \<exists>k t tr. n = sched_of L k (t, tr) \<and> Q k t"
    and "fold (upsert_one L) ns m k = Some (t, tr)"
  shows "Q k t"
  using assms(2-4)
proof (induction ns arbitrary: m)
  case (Cons n ns)
  from Cons.prems(2) [of n] obtain j u ur where n: "n = sched_of L j (u, ur)" "Q j u" by auto
  have up: "upsert_one L n m = m(j \<mapsto> (u, case m j of None \<Rightarrow> ur | Some (_, x) \<Rightarrow> x))"
    using assms(1) by (simp add: upsert_one_def n(1) sched_of_def uuid_text_parses_def split: option.split)
  show ?case
  proof (rule Cons.IH)
    show "Q i v" if "upsert_one L n m i = Some (v, vr)" for i v vr
      using that n(2) Cons.prems(1) by (cases "i = j") (simp_all add: up)
    show "\<exists>k t tr. n' = sched_of L k (t, tr) \<and> Q k t" if "n' \<in> set ns" for n'
      using Cons.prems(2) that by simp
    show "fold (upsert_one L) ns (upsert_one L n m) k = Some (t, tr)" using Cons.prems(3) by simp
  qed
qed simp

context scheduler_env
begin

lemma tick_claim_effect:
  assumes "wf w" "tick_claim D w = (ns, w')" "fst (di_now D w) \<le> T"
  shows "wf w' \<and> sent w' = sent w \<and> (\<forall>k v. pend w' k = Some v \<longrightarrow> pend w k = Some v)
    \<and> (\<forall>n \<in> set ns. \<exists>k t tr. n = sched_of L k (t, tr) \<and> pend w k = Some (t, tr) \<and> t \<le> T)"
proof -
  obtain now w0 where w0: "di_now D w = (now, w0)" by fastforce
  obtain cl w1 where w1: "sr_Claim (di_repo D) now (di_batch D) w0 = (cl, w1)" by fastforce
  note f = now_frame [OF w0]
  have k: "wf w0" using f assms(1) by simp
  have w': "w' = w1" using assms(2) w0 w1 by (auto simp: tick_claim_def split: sum.splits)
  have wf: "wf w1" "sent w1 = sent w" using wf_claim [OF k, of now "di_batch D"] claim_frame [OF w1] w1 f by simp_all
  show ?thesis
  proof (cases cl)
    case (Inl e)
    with assms(2) w0 w1 have "ns = []" by (simp add: tick_claim_def)
    with Inl claim_err w1 f wf show ?thesis unfolding w' by fastforce
  next
    case (Inr ns')
    with assms(2) w0 w1 have ns: "ns = ns'" by (simp add: tick_claim_def)
    from claim_ok [OF k w1 [unfolded Inr]] obtain ks where ks:
      "ns' = map (\<lambda>k. sched_of L k (the (pend w0 k))) ks" "\<forall>k \<in> set ks. \<exists>t tr. pend w0 k = Some (t, tr) \<and> t \<le> now"
      "pend w1 = (\<lambda>k. if k \<in> set ks then None else pend w0 k)" by blast
    have "\<exists>k t tr. n = sched_of L k (t, tr) \<and> pend w k = Some (t, tr) \<and> t \<le> T" if "n \<in> set ns" for n
    proof -
      from that ns ks(1) obtain k where k: "k \<in> set ks" "n = sched_of L k (the (pend w0 k))" by auto
      with ks(2) obtain t tr where "pend w0 k = Some (t, tr)" "t \<le> now" by blast
      with k(2) f assms(3) w0 show ?thesis by (intro exI [of _ k] exI [of _ t] exI [of _ tr]) simp
    qed
    with wf ks(3) f show ?thesis unfolding w' by (auto split: if_splits)
  qed
qed

lemma tick_publish_effect:
  assumes "tick_publish D ctx ns w = (ok, w')"
  shows "wf w' = wf w \<and> pend w' = pend w \<and> (\<exists>new. sent w' = sent w @ new \<and> (\<forall>x \<in> set new. \<exists>n \<in> set ns.
      nm_data x = due_to_json \<lparr>de_NotificationID = sn_NotificationID n\<rparr>))"
proof -
  let ?msgs = "map (due_message (di_extract D) ctx) ns"
  obtain pb where pb: "pub_PublishBatch (di_pub D) ctx TopicScheduledNotificationDue ?msgs w = (pb, w')"
    using assms by (auto simp: tick_publish_def split: prod.splits sum.splits)
  obtain ms where ms: "set ms \<subseteq> set ?msgs"
    "sent w' = sent w @ map (\<lambda>(c, j). nats_message TopicScheduledNotificationDue c j) ms"
  proof (cases pb)
    case (Inl e)
    from publish_batch_err [OF pb [unfolded Inl]] that show thesis
      by (metis notin_set_nthsI subsetI subseq_conv_nths)
  next
    case (Inr u)
    from publish_batch_ok [OF pb [unfolded Inr]] show thesis by (rule that [OF order.refl])
  qed
  then have "\<forall>x \<in> set (map (\<lambda>(c, j). nats_message TopicScheduledNotificationDue c j) ms). \<exists>n \<in> set ns.
      nm_data x = due_to_json \<lparr>de_NotificationID = sn_NotificationID n\<rparr>"
    by (fastforce simp: due_message_def)
  with ms(2) batch_frame [OF pb] show ?thesis by blast
qed

text \<open>Rows put back keep what is promised of the time of every pending identifier.\<close>

lemma tick_back_effect:
  assumes L: "uuid_text_parses L" and w: "wf w"
    and old: "\<And>k t tr. pend w k = Some (t, tr) \<Longrightarrow> Q k t"
    and ns: "\<And>n. n \<in> set ns \<Longrightarrow> \<exists>k t tr. n = sched_of L k (t, tr) \<and> Q k t"
  shows "wf (tick_back D ns w)" "sent (tick_back D ns w) = sent w"
    and "pend (tick_back D ns w) k = Some (t, tr) \<Longrightarrow> Q k t"
proof -
  obtain up w' where up: "sr_UpsertAll (di_repo D) ns w = (up, w')" by fastforce
  then have w': "tick_back D ns w = w'" by (simp add: tick_back_def)
  show "wf (tick_back D ns w)" using wf_upsert [OF w, of ns] up unfolding w' by simp
  show "sent (tick_back D ns w) = sent w" using upsert_frame [OF up] unfolding w' .
  have keep: "Q k t" if "fold (upsert_one L) ns (pend w) k = Some (t, tr)" for k t tr
    using L old ns that by (rule upserts_keep)
  assume p: "pend (tick_back D ns w) k = Some (t, tr)"
  show "Q k t"
  proof (cases up)
    case (Inl e)
    from upsert_err [OF up [unfolded Inl]] p old show ?thesis unfolding w' by simp
  next
    case (Inr u)
    from upsert_ok [OF w up [unfolded Inr]] p have "fold (upsert_one L) ns (pend w) k = Some (t, tr)"
      unfolding w' by simp
    then show ?thesis by (rule keep)
  qed
qed

end

lemma sys_inv_sched:
  assumes inv: "sys_inv P s" and d: "sched_inv (dp_lib P) (sy_now s) (sy_api s) d"
    and c: "\<And>c. c \<in># M \<Longrightarrow> c \<in># sy_open s \<or> open_inv (dp_lib P) (sy_now s) (sy_api s) (sy_proc s) c"
  shows "sys_inv P (s\<lparr>sy_sched := d, sy_open := M\<rparr>)"
  using assms by (fastforce simp: sys_inv_def)

definition clock_below :: "time \<Rightarrow> sched_world \<Rightarrow> bool" where
  "clock_below T w \<longleftrightarrow> (\<forall>k. tape_fun (sd_clock w) k \<le> T)"

lemma sched_now_below: "clock_below T w \<Longrightarrow> fst (sched_now w) \<le> T"
  by (simp add: sched_now_def clock_below_def tape_read_def)

lemma sched_clock [simp]:
  "sched_keyed (w\<lparr>sd_clock := c\<rparr>) = sched_keyed w" "sched_pending (w\<lparr>sd_clock := c\<rparr>) = sched_pending w"
  "sched_stream (w\<lparr>sd_clock := c\<rparr>) = sched_stream w"
  by (simp_all add: sched_keyed_def sched_pending_def sched_stream_def)

lemma tick_claims_step:
  assumes inv: "sys_inv P s" and c: "\<forall>k. tape_fun clock k \<le> sy_now s"
    and t: "tick_claim (the_dispatcher P) ((sy_sched s)\<lparr>sd_clock := clock\<rparr>) = (ns, d)"
  shows "sys_inv P (s\<lparr>sy_sched := d, sy_open := (if ns = [] then {#} else {#OpenDue ctx ns#}) + sy_open s\<rparr>)"
proof -
  let ?w = "(sy_sched s)\<lparr>sd_clock := clock\<rparr>"
  have inv': "sched_inv (dp_lib P) (sy_now s) (sy_api s) (sy_sched s)" using inv by (simp add: sys_inv_def)
  have "fst (sched_now ?w) \<le> sy_now s" using c by (intro sched_now_below) (simp add: clock_below_def)
  from ds.tick_claim_effect [OF _ t [unfolded the_dispatcher_def], of "sy_now s"] this inv'
  have e: "sched_keyed d" "sched_stream d = sched_stream (sy_sched s)"
    "\<forall>k v. sched_pending d k = Some v \<longrightarrow> sched_pending (sy_sched s) k = Some v"
    "\<forall>n \<in> set ns. \<exists>k t tr. n = sched_of (dp_lib P) k (t, tr) \<and> sched_pending (sy_sched s) k = Some (t, tr) \<and> t \<le> sy_now s"
    by (simp_all add: sched_inv_def)
  have "claimed_due (dp_lib P) (sy_now s) (sy_api s) n" if "n \<in> set ns" for n
    using e(4) that inv' unfolding claimed_due_def sched_inv_def by blast
  with e inv' show ?thesis
    by (intro sys_inv_sched [OF inv]) (auto simp: sched_inv_def open_inv_def split: if_splits)
qed

lemma tick_publishes_step:
  assumes inv: "sys_inv P s" and c: "OpenDue ctx ns \<in># sy_open s"
    and t: "tick_publish (the_dispatcher P) ctx ns (sy_sched s) = (ok, d)"
  shows "sys_inv P (s\<lparr>sy_sched := d,
    sy_open := (if ok then {#} else {#OpenBack ns#}) + (sy_open s - {#OpenDue ctx ns#})\<rparr>)"
proof -
  have inv': "sched_inv (dp_lib P) (sy_now s) (sy_api s) (sy_sched s)" using inv by (simp add: sys_inv_def)
  have "open_inv (dp_lib P) (sy_now s) (sy_api s) (sy_proc s) (OpenDue ctx ns)" using inv c by (simp add: sys_inv_def)
  then have ns: "claimed_due (dp_lib P) (sy_now s) (sy_api s) n" if "n \<in> set ns" for n
    using that by (simp add: open_inv_def)
  from ds.tick_publish_effect [OF t [unfolded the_dispatcher_def]] obtain new where
    e: "sched_keyed d = sched_keyed (sy_sched s)" "sched_pending d = sched_pending (sy_sched s)"
    "sched_stream d = sched_stream (sy_sched s) @ new"
    "\<forall>x \<in> set new. \<exists>n \<in> set ns. nm_data x = due_to_json \<lparr>de_NotificationID = sn_NotificationID n\<rparr>" by blast
  have "due_known (dp_lib P) (sy_now s) (sy_api s) x" if x: "x \<in> set new" for x
  proof -
    from e(4) x obtain n where n: "n \<in> set ns" "nm_data x = due_to_json \<lparr>de_NotificationID = sn_NotificationID n\<rparr>" by blast
    from ns [OF n(1)] obtain k t tr d where "n = sched_of (dp_lib P) k (t, tr)" "known (sy_api s) k d"
      "r_DeliverAfter d = Some t" "t \<le> sy_now s" unfolding claimed_due_def by blast
    with n(2) show ?thesis unfolding due_known_def
      by (intro exI [of _ k] exI [of _ d]) (simp add: sched_of_def due_by_def)
  qed
  with e inv' have "sched_inv (dp_lib P) (sy_now s) (sy_api s) d" by (auto simp: sched_inv_def)
  then show ?thesis
    by (rule sys_inv_sched [OF inv]) (use ns in \<open>auto simp: open_inv_def dest: in_diffD split: if_splits\<close>)
qed

lemma tick_puts_back_step:
  assumes L: "uuid_text_parses (dp_lib P)" and inv: "sys_inv P s" and c: "OpenBack ns \<in># sy_open s"
  shows "sys_inv P (s\<lparr>sy_sched := tick_back (the_dispatcher P) ns (sy_sched s), sy_open := sy_open s - {#OpenBack ns#}\<rparr>)"
proof -
  let ?Q = "\<lambda>k t. \<exists>r. known (sy_api s) k r \<and> r_DeliverAfter r = Some t"
  have inv': "sched_inv (dp_lib P) (sy_now s) (sy_api s) (sy_sched s)" using inv by (simp add: sys_inv_def)
  have "open_inv (dp_lib P) (sy_now s) (sy_api s) (sy_proc s) (OpenBack ns)" using inv c by (simp add: sys_inv_def)
  then have ns: "\<exists>k t tr. n = sched_of (dp_lib P) k (t, tr) \<and> ?Q k t" if "n \<in> set ns" for n
    using that unfolding open_inv_def claimed_due_def under_way.case by blast
  have k: "sched_keyed (sy_sched s)" and old: "?Q k t" if "sched_pending (sy_sched s) k = Some (t, tr)" for k t tr
    using inv' that by (auto simp: sched_inv_def)
  have k: "sched_keyed (sy_sched s)" using inv' by (simp add: sched_inv_def)
  note b = ds.tick_back_effect [OF L k, of ?Q, OF old ns, folded the_dispatcher_def]
  have "sched_inv (dp_lib P) (sy_now s) (sy_api s) (tick_back (the_dispatcher P) ns (sy_sched s))"
    using inv' b unfolding sched_inv_def by (auto simp: the_dispatcher_def)
  then show ?thesis by (rule sys_inv_sched [OF inv]) (auto dest: in_diffD)
qed

section \<open>The calls of a run\<close>

lemma accepted_later:
  assumes "accepted p q" "requests p' = requests p @ new" "tape_fun (pw_provider p') = tape_fun (pw_provider p)"
  shows "accepted p' q"
  using assms by (auto simp: accepted_def nth_append intro: exI [of _ k for k])

lemma send_provider:
  assumes "Send (proc_client cfg build) world_clock r c m w = (dr, w')"
  shows "requests w' = requests w \<and> pw_provider w' = pw_provider w \<and> \<not> dr_Success dr
    \<or> requests w' = requests w @ [(r, c, m)] \<and> pw_provider w' = tape_next (pw_provider w)
      \<and> (dr_Success dr \<longrightarrow> tape_read (pw_provider w) = Inr 202)"
  using assms
  by (auto simp: Send_def Request_def proc_client_def world_clock_def world_post_def requests_def Let_def
      classify_def split: option.splits sum.splits prod.splits if_splits)

lemma handle_provider:
  assumes "handleDeliveryResult (proc_pipeline cfg build conv) ctx evt dr n w = (x, w')"
  shows "pw_provider w' = pw_provider w"
  using assms
  by (auto simp: handleDeliveryResult_def publishStatus_def on_part_eq set_stream_def world_random_def Let_def
      split: if_splits prod.splits sum.splits)

lemma limit_provider:
  assumes "applyRateLimit (proc_pipeline cfg build conv) evt w = (x, w')"
  shows "pw_provider w' = pw_provider w \<and> requests w' = requests w \<and> stream_of w' = stream_of w"
  using assms
  by (auto simp: applyRateLimit_def IsAllowed_def proc_limiter_def world_allow_def requests_def stream_of_def Let_def
      split: prod.splits sum.splits if_splits)

lemma lock_provider:
  assumes "w' = set_redis rd w"
  shows "requests w' = requests w" "pw_provider w' = pw_provider w" "stream_of w' = stream_of w"
  using assms by (simp_all add: set_redis_def requests_def stream_of_def)

text \<open>What one call of a run does to the provider and to the stream.\<close>

lemma advance_provider:
  assumes adv: "advance (proc_pipeline cfg build conv) ph w = Some (ph', a, w')"
  obtains (quiet) m where "in_hand ph = Some m" "requests w' = requests w" "pw_provider w' = pw_provider w"
      "stream_of w' = stream_of w" "a = None \<longrightarrow> in_hand ph' = Some m \<and> (\<forall>t dr. ph' \<noteq> Sent m t dr)"
    | (posts) m t dr where "ph = Allowed m t" "ph' = Sent m t dr" "a = None" "stream_of w' = stream_of w"
      "requests w' = requests w \<and> pw_provider w' = pw_provider w \<and> \<not> dr_Success dr
       \<or> requests w' = requests w @ [(re_Recipient (rm_Event m), re_Channel (rm_Event m), re_Content (rm_Event m))]
         \<and> pw_provider w' = tape_next (pw_provider w) \<and> (dr_Success dr \<longrightarrow> tape_read (pw_provider w) = Inr 202)"
    | (tells) m t dr r where "ph = Sent m t dr" "ph' = Closing m t r" "a = None"
      "requests w' = requests w" "pw_provider w' = pw_provider w"
      "case status_event (rm_Event m) dr (rm_AttemptNumber m) of
         None \<Rightarrow> stream_of w' = stream_of w
       | Some ev \<Rightarrow> stream_of w' = stream_of w @ [status_message (rm_Ctx m) ev] \<or> stream_of w' = stream_of w"
proof (cases ph)
  case (Fetched m)
  with adv have "\<exists>rd. w' = set_redis rd w" and "a = None \<longrightarrow> in_hand ph' = Some m \<and> (\<forall>t dr. ph' \<noteq> Sent m t dr)"
    by (auto simp: on_part_eq split: sum.splits if_splits)
  with Fetched lock_provider show thesis by (intro quiet [of m]) auto
next
  case (Claimed m t)
  obtain x v where l: "applyRateLimit (proc_pipeline cfg build conv) (rm_Event m) w = (x, v)" by fastforce
  with adv Claimed have "w' = v" "in_hand ph' = Some m \<and> (\<forall>t dr. ph' \<noteq> Sent m t dr)"
    by (auto split: sum.splits)
  with limit_provider [OF l] Claimed show thesis by (intro quiet [of m]) auto
next
  case (Allowed m t)
  obtain dr v where d: "Send (proc_client cfg build) world_clock (re_Recipient (rm_Event m)) (re_Channel (rm_Event m))
      (re_Content (rm_Event m)) w = (dr, v)" by fastforce
  have "stream_of v = stream_of w" using proc.send_posts [of cfg build conv] d by simp
  with adv Allowed d send_provider [OF d] show thesis by (intro posts [of m t dr]) auto
next
  case (Sent m t dr)
  obtain r v where h: "handleDeliveryResult (proc_pipeline cfg build conv) (rm_Ctx m) (rm_Event m) dr (rm_AttemptNumber m) w = (r, v)"
    by fastforce
  with adv Sent have "w' = v" "ph' = Closing m t r" "a = None" by auto
  with proc.handle_cases [OF h] handle_provider [OF h] Sent show thesis
    by (intro tells [of m t dr r]) (auto simp: published_def split: option.split_asm option.split)
next
  case (Closing m t r)
  with adv have "\<exists>rd. w' = set_redis rd w" "a \<noteq> None" by auto
  with Closing lock_provider show thesis by (intro quiet [of m]) auto
qed (use adv in simp_all)

lemma sys_inv_proc:
  assumes inv: "sys_inv P s" and q: "proc_inv (dp_lib P) (sy_now s) (sy_api s) q"
    and acc: "\<And>t. accepted (sy_proc s) t \<Longrightarrow> accepted q t"
    and c: "\<And>c. c \<in># M \<Longrightarrow> c \<in># sy_open s \<or> open_inv (dp_lib P) (sy_now s) (sy_api s) q c"
  shows "sys_inv P (s\<lparr>sy_proc := q, sy_open := M\<rparr>)"
  using assms opens_later [OF inv grows_refl acc order.refl] by (fastforce simp: sys_inv_def)

lemma run_takes_step:
  assumes inv: "sys_inv P s" and m: "on_stream (api_sent (sy_api s)) priority_topics ready_of_json m"
  shows "sys_inv P (s\<lparr>sy_open := add_mset (OpenRun (Fetched m)) (sy_open s)\<rparr>)"
proof -
  let ?L = "dp_lib P" and ?a = "sy_api s"
  obtain x where x: "x \<in> set (api_sent ?a)" "nm_subject x \<in> priority_topics"
    "ready_of_json (nm_data x) = Inr (rm_Event m)" using m by (auto simp: on_stream_def)
  obtain c i d where d: "x = in_context c (ready_message ?L d)" "known ?a i d" "due_by d (sy_now s)"
    using ready_origin [OF inv x(1,2)] by metis
  from ready_read [of "ready_From ?L d" "rm_Event m"] x(3) d(1) have "rm_Event m = ready_From ?L d"
    by (simp add: in_context_def ready_message_def)
  with d have "run_rests ?L (sy_now s) ?a (sy_proc s) (Fetched m) d m" by (auto simp: run_rests_def)
  with inv show ?thesis by (auto simp: sys_inv_def open_inv_def)
qed

text \<open>What the invariant says of a run under way: the row it is about.\<close>

lemma run_row:
  assumes inv: "sys_inv P s" and ph: "OpenRun ph \<in># sy_open s" and m: "in_hand ph = Some m"
  obtains i d where "run_rests (dp_lib P) (sy_now s) (sy_api s) (sy_proc s) ph d m" "known (sy_api s) i d"
    "(re_Recipient (rm_Event m), re_Channel (rm_Event m), re_Content (rm_Event m)) = to_send d"
    "re_NotificationID (rm_Event m) = uuid_text (dp_lib P) i" "due_by d (sy_now s)"
proof -
  have "open_inv (dp_lib P) (sy_now s) (sy_api s) (sy_proc s) (OpenRun ph)" using inv ph by (simp add: sys_inv_def)
  then obtain d m' where d: "run_rests (dp_lib P) (sy_now s) (sy_api s) (sy_proc s) ph d m'"
    by (auto simp: open_inv_def)
  with m have m': "m' = m" "rm_Event m = ready_From (dp_lib P) d" "due_by d (sy_now s)"
    by (auto simp: run_rests_def)
  from d obtain i where i: "known (sy_api s) i d" by (auto simp: run_rests_def)
  then have "r_ID d = i" by (auto simp: known_def dest: api_row_id)
  with d i m' show thesis by (intro that [of d i]) (simp_all add: ready_From_def to_send_def)
qed

lemma run_calls_step:
  assumes inv: "sys_inv P s" and ph: "OpenRun ph \<in># sy_open s"
    and adv: "advance (the_pipeline P) ph (sy_proc s) = Some (ph', a, q)"
  shows "sys_inv P (s\<lparr>sy_proc := q,
    sy_open := (if a = None then {#OpenRun ph'#} else {#}) + (sy_open s - {#OpenRun ph#})\<rparr>)"
proof -
  let ?L = "dp_lib P" and ?now = "sy_now s" and ?a = "sy_api s" and ?p = "sy_proc s"
  have pinv: "proc_inv ?L ?now ?a ?p" using inv by (simp add: sys_inv_def)
  from adv [unfolded the_pipeline_def] show ?thesis
  proof (cases rule: advance_provider)
    case (quiet m)
    obtain i d where d: "run_rests ?L ?now ?a ?p ph d m" using run_row [OF inv ph quiet(1)] by blast
    have acc: "accepted q t = accepted ?p t" for t using quiet by (simp add: accepted_def)
    have "proc_inv ?L ?now ?a q" using pinv quiet by (simp add: proc_inv_def acc result_true_def)
    moreover have "run_rests ?L ?now ?a q ph' d m" if "a = None" using that d quiet by (simp add: run_rests_def)
    ultimately show ?thesis
      by (intro sys_inv_proc [OF inv]) (auto simp: acc open_inv_def dest: in_diffD split: if_splits)
  next
    case (posts m t dr)
    then have hand: "in_hand ph = Some m" by simp
    obtain i d where d: "run_rests ?L ?now ?a ?p ph d m" "known ?a i d" "due_by d ?now"
      and send: "(re_Recipient (rm_Event m), re_Channel (rm_Event m), re_Content (rm_Event m)) = to_send d"
      using run_row [OF inv ph hand] by metis
    note r = posts(5) [unfolded send]
    have acc: "accepted q t" if "accepted ?p t" for t
      using that r by (auto intro: accepted_later [of ?p t q "[]"] accepted_later [of ?p t q "[to_send d]"])
    have won: "accepted q (to_send d)" if "dr_Success dr"
      using r that pinv unfolding accepted_def proc_inv_def
      by (intro exI [of _ "length (requests ?p)"]) (auto simp: tape_read_def)
    have "result_true ?L ?a q x" if "x \<in> set (stream_of ?p)" for x
      using pinv that by (auto simp: proc_inv_def intro: result_true_later [OF _ grows_refl acc])
    moreover have "\<exists>i d. known ?a i d \<and> u = to_send d \<and> due_by d ?now" if "u \<in> set (requests q)" for u
    proof -
      from r that have "u = to_send d \<or> u \<in> set (requests ?p)" by auto
      then show ?thesis using pinv d unfolding proc_inv_def by blast
    qed
    moreover have "tape_pos (pw_provider q) = length (requests q)" using r pinv by (auto simp: proc_inv_def)
    ultimately have "proc_inv ?L ?now ?a q" using pinv acc posts(4) unfolding proc_inv_def by metis
    moreover have "run_rests ?L ?now ?a q ph' d m" using d hand posts won by (auto simp: run_rests_def)
    ultimately show ?thesis
      by (intro sys_inv_proc [OF inv]) (auto simp: acc open_inv_def dest: in_diffD split: if_splits)
  next
    case (tells m t dr r)
    then have hand: "in_hand ph = Some m" by simp
    obtain i d where d: "run_rests ?L ?now ?a ?p ph d m" "known ?a i d"
      and ID: "re_NotificationID (rm_Event m) = uuid_text ?L i"
      using run_row [OF inv ph hand] by metis
    have acc: "accepted q t = accepted ?p t" for t using tells by (simp add: accepted_def)
    have new: "result_true ?L ?a q (status_message (rm_Ctx m) ev)"
      if ev: "status_event (rm_Event m) dr (rm_AttemptNumber m) = Some ev" for ev
    proof -
      have "accepted q (to_send d)" if "rs_Status ev = StatusDelivered"
      proof -
        from that ev have "dr_Success dr"
          by (auto simp: status_event_def failed_event_def delivered_event_def split: if_splits)
        with d(1) tells(1) show ?thesis by (simp add: run_rests_def acc)
      qed
      moreover have "rs_NotificationID ev = uuid_text ?L i"
        using ev ID by (auto simp: status_event_def failed_event_def delivered_event_def split: if_splits)
      ultimately show ?thesis using d(2) unfolding result_true_def status_message_def by auto
    qed
    have old: "result_true ?L ?a q x = result_true ?L ?a ?p x" for x by (simp add: result_true_def acc)
    have "\<forall>x \<in> set (stream_of q). result_true ?L ?a q x"
      using tells(6) new pinv by (auto simp: proc_inv_def old split: option.splits)
    then have "proc_inv ?L ?now ?a q" using pinv tells by (simp add: proc_inv_def acc)
    moreover have "run_rests ?L ?now ?a q ph' d m" using d hand tells by (simp add: run_rests_def)
    ultimately show ?thesis
      by (intro sys_inv_proc [OF inv]) (auto simp: acc open_inv_def dest: in_diffD split: if_splits)
  qed
qed

section \<open>Every step\<close>

lemma empty_inv: "empty_system s \<Longrightarrow> sys_inv P s"
  by (simp add: empty_system_def sys_inv_def api_inv_def sched_inv_def proc_inv_def)

lemma redis_accepted [simp]:
  "accepted (set_redis k p) q = accepted p q" "requests (set_redis k p) = requests p"
  "stream_of (set_redis k p) = stream_of p" "pw_provider (set_redis k p) = pw_provider p"
  by (simp_all add: accepted_def requests_def stream_of_def set_redis_def)

lemma step_inv:
  assumes L: "uuid_text_parses (dp_lib P)" "time_json_roundtrips (dp_lib P)"
    and ord: "\<And>ps. mset (dp_order P ps) = mset ps" and inv: "sys_inv P s" and step: "sys_step P s s'"
  shows "sys_inv P s'"
  using step
proof cases
  case (http_request rt req out a)
  have "api_keyed (sy_api s)" using inv by (simp add: sys_inv_def api_inv_def)
  from http_effect [OF L(1) this http_request(2,3)] show ?thesis
    unfolding http_request(1) by (rule sys_inv_call [OF inv]) simp
next
  case (cancel_reads i found a ctx)
  then show ?thesis using cancel_reads_step [OF inv] by simp
next
  case (cancel_writes ctx i found row a)
  then show ?thesis using cancel_writes_step [OF inv] by simp
next
  case (result_reads m i found a)
  then show ?thesis using result_reads_step [OF L(1) inv] by simp
next
  case (result_writes i st found answer a)
  then show ?thesis using result_writes_step [OF inv] by simp
next
  case (time_passes t)
  with inv opens_later [OF inv grows_refl _ time_passes(2)] show ?thesis
    by (auto simp: sys_inv_def proc_inv_def intro: api_inv_time sched_inv_later due_by_later) (meson due_by_later)
next
  case (redis_changes keys)
  have "\<forall>c. c \<in># sy_open s \<longrightarrow> open_inv (dp_lib P) (sy_now s) (sy_api s) (set_redis keys (sy_proc s)) c"
    by (rule opens_later [OF inv grows_refl]) simp_all
  with redis_changes inv show ?thesis
    by (simp add: sys_inv_def proc_inv_def result_true_def)
qed (use result_step [OF L(1) inv] due_step [OF L(1) ord inv] schedule_step [OF L inv] cancel_step [OF inv]
      tick_claims_step [OF inv] tick_publishes_step [OF inv] tick_puts_back_step [OF L(1) inv]
      run_takes_step [OF inv] run_calls_step [OF inv] in simp_all)

lemma reachable_inv:
  assumes "uuid_text_parses (dp_lib P)" "time_json_roundtrips (dp_lib P)" "\<forall>ps. mset (dp_order P ps) = mset ps"
    and "sys_reachable P s"
  shows "sys_inv P s"
  using assms(4)
  by induction (use assms step_inv empty_inv in blast)+

section \<open>Whole functions are runs of calls\<close>

lemma reachable_steps: "(sys_step P)\<^sup>*\<^sup>* s s' \<Longrightarrow> sys_reachable P s \<Longrightarrow> sys_reachable P s'"
  by (induction rule: rtranclp_induct) (auto intro: sys_reachable.step)

lemma finish_steps:
  "finish n (the_pipeline P) ph (sy_proc s) = Some (a, p) \<Longrightarrow>
     (sys_step P)\<^sup>*\<^sup>* (s\<lparr>sy_open := add_mset (OpenRun ph) M\<rparr>) (s\<lparr>sy_proc := p, sy_open := M\<rparr>)"
proof (induction n arbitrary: s ph)
  case (Suc n)
  from Suc.prems obtain ph1 b w1 where adv: "advance (the_pipeline P) ph (sy_proc s) = Some (ph1, b, w1)"
    by (auto split: option.splits)
  let ?s = "s\<lparr>sy_open := add_mset (OpenRun ph) M\<rparr>"
  have "sys_step P ?s (?s\<lparr>sy_proc := w1, sy_open := (if b = None then {#OpenRun ph1#} else {#}) + (sy_open ?s - {#OpenRun ph#})\<rparr>)"
    by (rule sys_step.run_calls) (use adv in simp_all)
  then have step: "sys_step P ?s ((s\<lparr>sy_proc := w1\<rparr>)\<lparr>sy_open := (if b = None then {#OpenRun ph1#} else {#}) + M\<rparr>)"
    by simp
  show ?case
  proof (cases b)
    case None
    with Suc.prems adv have "finish n (the_pipeline P) ph1 (sy_proc (s\<lparr>sy_proc := w1\<rparr>)) = Some (a, p)" by simp
    from Suc.IH [OF this] step None show ?thesis by (simp add: converse_rtranclp_into_rtranclp)
  next
    case (Some x)
    with Suc.prems adv have "w1 = p" by simp
    with step Some show ?thesis by (simp add: r_into_rtranclp)
  qed
qed simp

lemma delivery_steps:
  assumes "on_stream (api_sent (sy_api s)) priority_topics ready_of_json m"
    and "processOne (the_pipeline P) m (sy_proc s) = (ack, p)"
  shows "(sys_step P)\<^sup>*\<^sup>* s (s\<lparr>sy_proc := p\<rparr>)"
proof -
  have "sys_step P s (s\<lparr>sy_open := add_mset (OpenRun (Fetched m)) (sy_open s)\<rparr>)"
    using assms(1) by (rule sys_step.run_takes)
  moreover have "(sys_step P)\<^sup>*\<^sup>* (s\<lparr>sy_open := add_mset (OpenRun (Fetched m)) (sy_open s)\<rparr>) (s\<lparr>sy_proc := p, sy_open := sy_open s\<rparr>)"
    using assms(2) finish_processOne [of "the_pipeline P" m "sy_proc s"] by (intro finish_steps [where n = 5 and a = ack]) simp
  ultimately show ?thesis by (simp add: converse_rtranclp_into_rtranclp)
qed

lemma tick_keeps_clock:
  "tick_claim (the_dispatcher P) w = (ns, w1) \<Longrightarrow> tape_fun (sd_clock w1) = tape_fun (sd_clock w)"
  "tick_publish (the_dispatcher P) ctx ns w = (ok, w1) \<Longrightarrow> tape_fun (sd_clock w1) = tape_fun (sd_clock w)"
  by (auto simp: tick_claim_def tick_publish_def the_dispatcher_def sched_now_def on_part_eq
      split: prod.splits sum.splits)

lemma tick_steps:
  assumes "Tick (the_dispatcher P) ctx fuel ((sy_sched s)\<lparr>sd_clock := clock\<rparr>) = Some d"
    and "\<forall>k. tape_fun clock k \<le> sy_now s"
  shows "(sys_step P)\<^sup>*\<^sup>* s (s\<lparr>sy_sched := d\<rparr>)"
  using assms
proof (induction fuel arbitrary: s clock)
  case (Suc fuel)
  let ?D = "the_dispatcher P" and ?w = "(sy_sched s)\<lparr>sd_clock := clock\<rparr>"
  obtain ns w1 where c: "tick_claim ?D ?w = (ns, w1)" by fastforce
  have claim: "sys_step P s (s\<lparr>sy_sched := w1, sy_open := (if ns = [] then {#} else {#OpenDue ctx ns#}) + sy_open s\<rparr>)"
    using Suc.prems(2) c by (rule sys_step.tick_claims)
  show ?case
  proof (cases "ns = []")
    case True
    with Suc.prems(1) c have "d = w1" by (simp add: Tick_calls del: Tick.simps)
    with claim True show ?thesis by (simp add: r_into_rtranclp)
  next
    case False
    let ?s1 = "s\<lparr>sy_sched := w1, sy_open := add_mset (OpenDue ctx ns) (sy_open s)\<rparr>"
    obtain ok w2 where p: "tick_publish ?D ctx ns w1 = (ok, w2)" by fastforce
    have "sys_step P ?s1 (?s1\<lparr>sy_sched := w2,
        sy_open := (if ok then {#} else {#OpenBack ns#}) + (sy_open ?s1 - {#OpenDue ctx ns#})\<rparr>)"
      by (rule sys_step.tick_publishes) (use p in simp_all)
    with claim False have published: "(sys_step P)\<^sup>*\<^sup>* s (s\<lparr>sy_sched := w2, sy_open := (if ok then {#} else {#OpenBack ns#}) + sy_open s\<rparr>)"
      by (simp add: converse_rtranclp_into_rtranclp r_into_rtranclp)
    show ?thesis
    proof (cases ok)
      case True
      have "Tick ?D ctx fuel ((sy_sched (s\<lparr>sy_sched := w2\<rparr>))\<lparr>sd_clock := sd_clock w2\<rparr>) = Some d"
        using Suc.prems(1) c False p True by (simp add: Tick_calls del: Tick.simps)
      moreover have "\<forall>k. tape_fun (sd_clock w2) k \<le> sy_now (s\<lparr>sy_sched := w2\<rparr>)"
        using Suc.prems(2) tick_keeps_clock(1) [OF c] tick_keeps_clock(2) [OF p] by simp
      ultimately have "(sys_step P)\<^sup>*\<^sup>* (s\<lparr>sy_sched := w2\<rparr>) (s\<lparr>sy_sched := w2, sy_sched := d\<rparr>)"
        by (rule Suc.IH)
      with published True show ?thesis by simp
    next
      case False
      let ?s2 = "s\<lparr>sy_sched := w2, sy_open := add_mset (OpenBack ns) (sy_open s)\<rparr>"
      have "sys_step P ?s2 (?s2\<lparr>sy_sched := tick_back ?D ns (sy_sched ?s2), sy_open := sy_open ?s2 - {#OpenBack ns#}\<rparr>)"
        by (rule sys_step.tick_puts_back) simp
      moreover have "d = tick_back ?D ns w2"
        using Suc.prems(1) c \<open>ns \<noteq> []\<close> p False by (simp add: Tick_calls del: Tick.simps)
      ultimately show ?thesis using published False by (simp add: rtranclp.rtrancl_into_rtrancl)
    qed
  qed
qed simp

end
