(* ===== verification/Causes.thy ===== *)
theory Causes
  imports SystemCalls
begin

text \<open>
  Everything the services do about a notification goes back to a message that announces it: what the
  scheduler keeps, its due events, the messages and runs of the processor, the results and the changes
  of its status other than a cancellation. A row that was stored before its announcement, and whose
  announcement was never published, is therefore never announced later either.
\<close>

section \<open>The invariant\<close>

definition open_caused :: "golib \<Rightarrow> api_world \<Rightarrow> under_way \<Rightarrow> bool" where
  "open_caused L a c \<longleftrightarrow>
     (case c of
        OpenCancel ctx i found \<Rightarrow> True
      | OpenUpdate i st found \<Rightarrow> announced L a i
      | OpenRun ph \<Rightarrow> \<forall>m i. in_hand ph = Some m \<longrightarrow> re_NotificationID (rm_Event m) = uuid_text L i \<longrightarrow> announced L a i
      | OpenDue ctx ns \<Rightarrow> \<forall>n \<in> set ns. \<forall>i. uuid_parse L (sn_NotificationID n) = Some i \<longrightarrow> announced L a i
      | OpenBack ns \<Rightarrow> \<forall>n \<in> set ns. \<forall>i. uuid_parse L (sn_NotificationID n) = Some i \<longrightarrow> announced L a i)"

definition sched_caused :: "golib \<Rightarrow> api_world \<Rightarrow> sched_world \<Rightarrow> bool" where
  "sched_caused L a d \<longleftrightarrow> (\<forall>i v. sched_pending d i = Some v \<longrightarrow> announced L a i)
     \<and> (\<forall>x \<in> set (sched_stream d). \<forall>e i. due_of_json (nm_data x) = Inr e \<longrightarrow>
          uuid_parse L (de_NotificationID e) = Some i \<longrightarrow> announced L a i)"

definition results_caused :: "golib \<Rightarrow> api_world \<Rightarrow> nats_msg list \<Rightarrow> bool" where
  "results_caused L a xs \<longleftrightarrow> (\<forall>x \<in> set xs. \<forall>e i. result_of_json (nm_data x) = Inr e \<longrightarrow>
     uuid_parse L (rs_NotificationID e) = Some i \<longrightarrow> announced L a i)"

definition rows_caused :: "golib \<Rightarrow> api_world \<Rightarrow> bool" where
  "rows_caused L a \<longleftrightarrow> (\<forall>i r. api_row a i = Some r \<longrightarrow> r_Status r \<notin> {StatusPending, StatusCancelled} \<longrightarrow> announced L a i)"

definition caused :: "golib \<Rightarrow> system \<Rightarrow> bool" where
  "caused L s \<longleftrightarrow> rows_caused L (sy_api s) \<and> sched_caused L (sy_api s) (sy_sched s)
     \<and> results_caused L (sy_api s) (stream_of (sy_proc s))
     \<and> (\<forall>c. c \<in># sy_open s \<longrightarrow> open_caused L (sy_api s) c)"

lemma announced_later: "announced L a i \<Longrightarrow> set (api_sent a) \<subseteq> set (api_sent a') \<Longrightarrow> announced L a' i"
  by (auto simp: announced_def)

lemma open_caused_later: "open_caused L a c \<Longrightarrow> set (api_sent a) \<subseteq> set (api_sent a') \<Longrightarrow> open_caused L a' c"
  by (fastforce simp: open_caused_def intro: announced_later split: under_way.splits)

lemma sched_caused_later: "sched_caused L a d \<Longrightarrow> set (api_sent a) \<subseteq> set (api_sent a') \<Longrightarrow> sched_caused L a' d"
  unfolding sched_caused_def by (blast intro: announced_later)

lemma results_caused_later: "results_caused L a xs \<Longrightarrow> set (api_sent a) \<subseteq> set (api_sent a') \<Longrightarrow> results_caused L a' xs"
  unfolding results_caused_def by (blast intro: announced_later)

lemma causedD:
  assumes "caused L s"
  shows "rows_caused L (sy_api s)" "sched_caused L (sy_api s) (sy_sched s)"
    "results_caused L (sy_api s) (stream_of (sy_proc s))" "c \<in># sy_open s \<Longrightarrow> open_caused L (sy_api s) c"
  using assms by (auto simp: caused_def)

section \<open>The API's steps\<close>

lemma caused_api:
  assumes c: "caused L s" and sent: "set (api_sent (sy_api s)) \<subseteq> set (api_sent a)"
    and rows: "\<And>i r. api_row a i = Some r \<Longrightarrow> r_Status r \<notin> {StatusPending, StatusCancelled} \<Longrightarrow>
        api_row (sy_api s) i \<noteq> Some r \<Longrightarrow> announced L (sy_api s) i"
    and opens: "\<And>c. c \<in># M \<Longrightarrow> c \<in># sy_open s \<or> open_caused L (sy_api s) c"
  shows "caused L (s\<lparr>sy_api := a, sy_open := M\<rparr>)"
proof -
  have "rows_caused L a"
    unfolding rows_caused_def
  proof (intro allI impI)
    fix i r
    assume r: "api_row a i = Some r" "r_Status r \<notin> {StatusPending, StatusCancelled}"
    have "announced L (sy_api s) i"
      using rows [OF r] causedD(1) [OF c] r(2) unfolding rows_caused_def by blast
    then show "announced L a i" using sent by (rule announced_later)
  qed
  moreover have "open_caused L a c" if "c \<in># M" for c
    using opens [OF that] causedD(4) [OF assms(1)] sent by (blast intro: open_caused_later)
  ultimately show ?thesis
    using causedD(2,3) [OF c] sent by (simp add: caused_def sched_caused_later results_caused_later)
qed

text \<open>A call of the service changes the status of a row to one of \<open>sts\<close>, or adds a pending row.\<close>

lemma caused_call:
  assumes c: "caused L s" and e: "call_effect L sts (sy_api s) a"
    and d: "\<And>i r st. api_row a i = Some r \<Longrightarrow> api_row (sy_api s) i \<noteq> Some r \<Longrightarrow> r_Status r \<in> sts \<Longrightarrow>
        r_Status r \<notin> {StatusPending, StatusCancelled} \<Longrightarrow> announced L (sy_api s) i"
  shows "caused L (s\<lparr>sy_api := a\<rparr>)"
proof -
  have "caused L (s\<lparr>sy_api := a, sy_open := sy_open s\<rparr>)"
  proof (rule caused_api [OF c])
    show "set (api_sent (sy_api s)) \<subseteq> set (api_sent a)" using e by (auto simp: call_effect_def)
    fix i r
    assume r: "api_row a i = Some r" "r_Status r \<notin> {StatusPending, StatusCancelled}" "api_row (sy_api s) i \<noteq> Some r"
    have "row_origin L sts (sy_api s) i r" using e r(1) by (simp add: call_effect_def)
    then show "announced L (sy_api s) i"
    proof (cases rule: row_originE)
      case (old q st)
      from same_but_timesD(7) [OF old(3)] have st: "r_Status r = st" by simp
      with old(2) d [OF r(1,3)] r(2) old(1) causedD(1) [OF c] show ?thesis
        unfolding rows_caused_def by metis
    next
      case fresh
      with new_row_ok r(2) show ?thesis by auto
    qed
  qed simp
  then show ?thesis by simp
qed

lemma caused_write:
  assumes c: "caused L s" and w: "write_effect i st (sy_api s) a"
    and d: "st \<notin> {StatusPending, StatusCancelled} \<Longrightarrow> announced L (sy_api s) i"
    and opens: "\<And>c. c \<in># M \<Longrightarrow> c \<in># sy_open s"
  shows "caused L (s\<lparr>sy_api := a, sy_open := M\<rparr>)"
proof (rule caused_api [OF c])
  show "set (api_sent (sy_api s)) \<subseteq> set (api_sent a)" using w by (auto simp: write_effect_def)
  fix j r
  assume "api_row a j = Some r" "r_Status r \<notin> {StatusPending, StatusCancelled}" "api_row (sy_api s) j \<noteq> Some r"
  with w d show "announced L (sy_api s) j"
    by (auto simp: write_effect_def split: if_splits dest: same_but_timesD(7))
qed (use opens in blast)

lemma caused_result:
  assumes c: "caused L s" and k: "api_keyed (sy_api s)"
    and m: "on_stream (stream_of (sy_proc s)) {TopicStatus} result_of_json m"
    and p: "result_processOne L (api_service L) m (sy_api s) = (ack, a)"
  shows "caused L (s\<lparr>sy_api := a\<rparr>)"
proof (cases "uuid_parse L (rs_NotificationID (rm_Event m))")
  case None
  with p c show ?thesis by (auto simp: result_processOne_def)
next
  case (Some i)
  have ann: "announced L (sy_api s) i"
    using m Some causedD(3) [OF c] by (auto simp: on_stream_def results_caused_def)
  obtain x where "svc_UpdateStatus (api_deps L) i (rs_Status (rm_Event m)) (sy_api s) = (x, a)"
    using p Some by (auto simp: result_processOne_def split: prod.splits sum.splits)
  note eff = update_effect [OF k this]
  show ?thesis
    by (rule caused_call [OF c eff [THEN conjunct1]]) (use eff ann in metis)
qed

section \<open>The scheduler's steps\<close>

lemma caused_sched:
  assumes c: "caused L s" and d: "sched_caused L (sy_api s) d"
    and opens: "\<And>c. c \<in># M \<Longrightarrow> c \<in># sy_open s \<or> open_caused L (sy_api s) c"
  shows "caused L (s\<lparr>sy_sched := d, sy_open := M\<rparr>)"
  using assms causedD [OF c] unfolding caused_def by auto

lemma caused_schedule:
  assumes L: "uuid_text_parses (dp_lib P)" and T: "time_json_roundtrips (dp_lib P)" and inv: "sys_inv P s" and c: "caused (dp_lib P) s"
    and m: "on_stream (api_sent (sy_api s)) {TopicNotificationScheduled} (scheduled_of_json (dp_lib P)) m"
    and h: "handleScheduledEvents (sched_repo (dp_lib P)) m (sy_sched s) = (ack, d)"
  shows "caused (dp_lib P) (s\<lparr>sy_sched := d\<rparr>)"
proof -
  let ?L = "dp_lib P"
  have k: "sched_keyed (sy_sched s)" using inv by (simp add: sys_inv_def sched_inv_def)
  obtain x where x: "x \<in> set (api_sent (sy_api s))" "nm_subject x = TopicNotificationScheduled"
    "scheduled_of_json ?L (nm_data x) = Inr (rm_Event m)" using m by (auto simp: on_stream_def)
  obtain c' "is" where i: "x = in_context c' (scheduled_message ?L is)"
    "\<forall>it \<in> set is. \<exists>i d. known (sy_api s) i d \<and> si_NotificationID it = uuid_text ?L i
        \<and> r_DeliverAfter d = Some (si_ScheduledAt it)"
    using scheduled_origin [OF inv x(1,2)] by metis
  with x(3) T have "\<lparr>se_Notifications = is\<rparr> = rm_Event m" by (simp add: in_context_def scheduled_message_def)
  then have e: "se_Notifications (rm_Event m) = is" by (metis scheduled_event.select_convs(1))
  have named: "announced ?L (sy_api s) j" if "names_id ?L m j" for j
  proof -
    from that e obtain it where it: "it \<in> set is" "uuid_parse ?L (si_NotificationID it) = Some j"
      by (auto simp: names_id_def)
    with i(2) L have "uuid_text ?L j = si_NotificationID it" by (metis option.inject uuid_text_parses_def)
    with it(1) have "announces ?L j x" by (auto simp: i(1) announces_scheduled)
    with x(1) show ?thesis by (auto simp: announced_def)
  qed
  have "sched_caused ?L (sy_api s) d"
    using k h
  proof (cases rule: scheduled_event_cases)
    case stored
    have "announced ?L (sy_api s) j" if "sched_pending d j = Some v" for j v
      using that stored(4) [of j] named [of j] causedD(2) [OF c] unfolding sched_caused_def by metis
    with handler_streams(1) [OF h] causedD(2) [OF c] show ?thesis by (simp add: sched_caused_def)
  next
    case refused
    with handler_streams(1) [OF h] causedD(2) [OF c] show ?thesis by (simp add: sched_caused_def)
  qed
  then have "caused ?L (s\<lparr>sy_sched := d, sy_open := sy_open s\<rparr>)" by (rule caused_sched [OF c]) simp
  then show ?thesis by simp
qed

lemma caused_cancel:
  assumes inv: "sys_inv P s" and c: "caused (dp_lib P) s"
    and h: "handleCancelEvent (sched_repo (dp_lib P)) m (sy_sched s) = (ack, d)"
  shows "caused (dp_lib P) (s\<lparr>sy_sched := d\<rparr>)"
proof -
  have k: "sched_keyed (sy_sched s)" using inv by (simp add: sys_inv_def sched_inv_def)
  have "sched_caused (dp_lib P) (sy_api s) d"
    using k h
  proof (cases rule: cancel_event_cases)
    case (removed j)
    with handler_streams(2) [OF h] causedD(2) [OF c] show ?thesis by (auto simp: sched_caused_def split: if_splits)
  next
    case kept
    with handler_streams(2) [OF h] causedD(2) [OF c] show ?thesis by (simp add: sched_caused_def)
  qed
  then have "caused (dp_lib P) (s\<lparr>sy_sched := d, sy_open := sy_open s\<rparr>)" by (rule caused_sched [OF c]) simp
  then show ?thesis by simp
qed

lemma caused_claims:
  assumes L: "uuid_text_parses (dp_lib P)" and inv: "sys_inv P s" and c: "caused (dp_lib P) s"
    and t: "tick_claim (the_dispatcher P) ((sy_sched s)\<lparr>sd_clock := clock\<rparr>) = (ns, d)"
  shows "caused (dp_lib P) (s\<lparr>sy_sched := d, sy_open := (if ns = [] then {#} else {#OpenDue ctx ns#}) + sy_open s\<rparr>)"
proof -
  let ?w = "(sy_sched s)\<lparr>sd_clock := clock\<rparr>"
  have k: "sched_keyed ?w" using inv by (simp add: sys_inv_def sched_inv_def)
  note e = ds.tick_claim_effect [OF k t [unfolded the_dispatcher_def] order.refl]
  have "announced (dp_lib P) (sy_api s) i" if "n \<in> set ns" "uuid_parse (dp_lib P) (sn_NotificationID n) = Some i" for n i
  proof -
    from e that(1) obtain j t tr where "n = sched_of (dp_lib P) j (t, tr)" "sched_pending ?w j = Some (t, tr)" by blast
    with that(2) L causedD(2) [OF c] show ?thesis by (auto simp: sched_of_def uuid_text_parses_def sched_caused_def)
  qed
  moreover have "sched_caused (dp_lib P) (sy_api s) d"
    using e causedD(2) [OF c] by (auto simp: sched_caused_def)
  ultimately show ?thesis by (intro caused_sched [OF c]) (auto simp: open_caused_def split: if_splits)
qed

lemma caused_publishes:
  assumes c: "caused (dp_lib P) s" and o: "OpenDue ctx ns \<in># sy_open s"
    and t: "tick_publish (the_dispatcher P) ctx ns (sy_sched s) = (ok, d)"
  shows "caused (dp_lib P) (s\<lparr>sy_sched := d,
    sy_open := (if ok then {#} else {#OpenBack ns#}) + (sy_open s - {#OpenDue ctx ns#})\<rparr>)"
proof -
  have ns: "announced (dp_lib P) (sy_api s) i" if "n \<in> set ns" "uuid_parse (dp_lib P) (sn_NotificationID n) = Some i" for n i
    using causedD(4) [OF c o] that by (auto simp: open_caused_def)
  from ds.tick_publish_effect [OF t [unfolded the_dispatcher_def]] obtain new where
    e: "sched_pending d = sched_pending (sy_sched s)" "sched_stream d = sched_stream (sy_sched s) @ new"
    "\<forall>x \<in> set new. \<exists>n \<in> set ns. nm_data x = due_to_json \<lparr>de_NotificationID = sn_NotificationID n\<rparr>" by blast
  have "announced (dp_lib P) (sy_api s) i"
    if x: "x \<in> set new" "due_of_json (nm_data x) = Inr ev" "uuid_parse (dp_lib P) (de_NotificationID ev) = Some i" for x ev i
  proof -
    from e(3) x(1) obtain n where n: "n \<in> set ns" "nm_data x = due_to_json \<lparr>de_NotificationID = sn_NotificationID n\<rparr>" by blast
    with x(2) have "ev = \<lparr>de_NotificationID = sn_NotificationID n\<rparr>" by simp
    with n(1) x(3) ns show ?thesis by simp
  qed
  with e causedD(2) [OF c] have "sched_caused (dp_lib P) (sy_api s) d" by (auto simp: sched_caused_def)
  then show ?thesis
    by (rule caused_sched [OF c]) (use ns in \<open>auto simp: open_caused_def dest: in_diffD split: if_splits\<close>)
qed

lemma caused_puts_back:
  assumes L: "uuid_text_parses (dp_lib P)" and inv: "sys_inv P s" and c: "caused (dp_lib P) s" and o: "OpenBack ns \<in># sy_open s"
  shows "caused (dp_lib P) (s\<lparr>sy_sched := tick_back (the_dispatcher P) ns (sy_sched s), sy_open := sy_open s - {#OpenBack ns#}\<rparr>)"
proof -
  let ?Q = "\<lambda>k t. announced (dp_lib P) (sy_api s) k"
  have k: "sched_keyed (sy_sched s)" using inv by (simp add: sys_inv_def sched_inv_def)
  have "open_inv (dp_lib P) (sy_now s) (sy_api s) (sy_proc s) (OpenBack ns)" using inv o by (simp add: sys_inv_def)
  then have ns: "\<exists>k t tr. n = sched_of (dp_lib P) k (t, tr) \<and> ?Q k t" if "n \<in> set ns" for n
  proof -
    obtain j t tr where n: "n = sched_of (dp_lib P) j (t, tr)"
      using \<open>open_inv _ _ _ _ (OpenBack ns)\<close> \<open>n \<in> set ns\<close> by (auto simp: open_inv_def claimed_due_def)
    have "uuid_parse (dp_lib P) (sn_NotificationID n) = Some j" using L by (simp add: n sched_of_def uuid_text_parses_def)
    with causedD(4) [OF c o] \<open>n \<in> set ns\<close> n show ?thesis by (auto simp: open_caused_def)
  qed
  have old: "?Q k t" if "sched_pending (sy_sched s) k = Some (t, tr)" for k t tr
    using causedD(2) [OF c] that by (auto simp: sched_caused_def)
  note b = ds.tick_back_effect [OF L k, of ?Q, OF old ns, folded the_dispatcher_def]
  have "sched_caused (dp_lib P) (sy_api s) (tick_back (the_dispatcher P) ns (sy_sched s))"
    using causedD(2) [OF c] b unfolding sched_caused_def by (auto simp: the_dispatcher_def)
  then show ?thesis by (rule caused_sched [OF c]) (auto dest: in_diffD)
qed

section \<open>The processor's steps\<close>

lemma caused_proc:
  assumes c: "caused L s" and d: "results_caused L (sy_api s) (stream_of p)"
    and opens: "\<And>c. c \<in># M \<Longrightarrow> c \<in># sy_open s \<or> open_caused L (sy_api s) c"
  shows "caused L (s\<lparr>sy_proc := p, sy_open := M\<rparr>)"
  using assms causedD [OF c] unfolding caused_def by auto

lemma caused_takes:
  assumes L: "uuid_text_parses (dp_lib P)" and inv: "sys_inv P s" and c: "caused (dp_lib P) s"
    and m: "on_stream (api_sent (sy_api s)) priority_topics ready_of_json m"
  shows "caused (dp_lib P) (s\<lparr>sy_open := add_mset (OpenRun (Fetched m)) (sy_open s)\<rparr>)"
proof -
  obtain x where x: "x \<in> set (api_sent (sy_api s))" "nm_subject x \<in> priority_topics"
    "ready_of_json (nm_data x) = Inr (rm_Event m)" using m by (auto simp: on_stream_def)
  obtain c' d where d: "x = in_context c' (ready_message (dp_lib P) d)"
    using ready_origin [OF inv x(1,2)] by metis
  from ready_read [of "ready_From (dp_lib P) d" "rm_Event m"] x(3) d have "rm_Event m = ready_From (dp_lib P) d"
    by (simp add: in_context_def ready_message_def)
  then have "announced (dp_lib P) (sy_api s) i" if "re_NotificationID (rm_Event m) = uuid_text (dp_lib P) i" for i
    using that x(1) L by (auto simp: announced_def d announces_ready ready_From_def text_inj intro!: bexI [of _ x])
  then have "open_caused (dp_lib P) (sy_api s) (OpenRun (Fetched m))" by (simp add: open_caused_def)
  with causedD [OF c] show ?thesis by (auto simp: caused_def)
qed

lemma caused_calls:
  assumes L: "uuid_text_parses (dp_lib P)" and inv: "sys_inv P s" and c: "caused (dp_lib P) s" and ph: "OpenRun ph \<in># sy_open s"
    and adv: "advance (the_pipeline P) ph (sy_proc s) = Some (ph', a, q)"
  shows "caused (dp_lib P) (s\<lparr>sy_proc := q,
    sy_open := (if a = None then {#OpenRun ph'#} else {#}) + (sy_open s - {#OpenRun ph#})\<rparr>)"
proof -
  let ?L = "dp_lib P" and ?a = "sy_api s"
  note oc = causedD(4) [OF c ph]
  have hand: "results_caused ?L ?a (stream_of q) \<and> (a = None \<longrightarrow> in_hand ph' = in_hand ph)"
    using adv [unfolded the_pipeline_def]
  proof (cases rule: advance_provider)
    case (quiet m)
    with causedD(3) [OF c] show ?thesis by simp
  next
    case (posts m t dr)
    with causedD(3) [OF c] show ?thesis by simp
  next
    case (tells m t dr r)
    obtain i where i: "re_NotificationID (rm_Event m) = uuid_text ?L i"
      using run_row [OF inv ph] tells(1) by (metis in_hand.simps(4))
    with oc tells(1) have ann: "announced ?L ?a i" by (simp add: open_caused_def)
    have "announced ?L ?a j" if "status_event (rm_Event m) dr (rm_AttemptNumber m) = Some ev"
      "result_of_json (result_to_json ev) = Inr e" "uuid_parse ?L (rs_NotificationID e) = Some j" for ev e j
    proof -
      have "rs_NotificationID e = uuid_text ?L i"
        using that(1) result_read [OF that(2)] i
        by (auto simp: status_event_def failed_event_def delivered_event_def split: if_splits)
      with that(3) L ann show ?thesis by (simp add: uuid_text_parses_def)
    qed
    with tells(6) causedD(3) [OF c] have "results_caused ?L ?a (stream_of q)"
      by (auto simp: results_caused_def status_message_def split: option.splits)
    with tells show ?thesis by simp
  qed
  have "open_caused ?L ?a (OpenRun ph')" if "a = None" using that hand oc by (simp add: open_caused_def)
  with hand show ?thesis
    by (intro caused_proc [OF c]) (auto dest: in_diffD split: if_splits)
qed

section \<open>Every step\<close>

lemma due_batch_news:
  assumes L: "uuid_text_parses (dp_lib P)" and ord: "\<And>ps. mset (dp_order P ps) = mset ps" and inv: "sys_inv P s" and c: "caused (dp_lib P) s"
    and m: "\<forall>m \<in> set batch. on_stream (sched_stream (sy_sched s)) {TopicScheduledNotificationDue} due_of_json m"
    and h: "handleBatch (api_due (dp_lib P) (dp_order P)) batch (sy_api s) = (acks, a)"
  obtains new where "api_row a = api_row (sy_api s)" "api_sent a = api_sent (sy_api s) @ new"
    "\<And>x i. x \<in> set new \<Longrightarrow> announces (dp_lib P) i x \<Longrightarrow> announced (dp_lib P) (sy_api s) i"
proof -
  let ?L = "dp_lib P" and ?a = "sy_api s"
  have k: "api_keyed ?a" using inv by (simp add: sys_inv_def api_inv_def)
  have lib: "du_lib (api_due ?L (dp_order P)) = ?L" by (simp add: api_due_def)
  from due_env.handleBatch_spec [OF api_due_env [OF ord] k h] obtain ps as news where
    row: "api_row a = api_row ?a" and len: "length news = length ps"
    and ps: "\<forall>i m. (i, m) \<in> set ps \<longleftrightarrow> last_for ?L batch i = Some m"
    and sent: "api_sent a = api_sent ?a @ concat news"
    and turn: "\<forall>k < length ps. turn_ok ?L (api_row ?a) (ps ! k) (as ! k) (news ! k) \<or> as ! k = Nak \<and> news ! k = []"
    unfolding lib by blast
  have "announced ?L ?a i" if x: "x \<in> set (concat news)" "announces ?L i x" for x i
  proof -
    from x(1) obtain xs where "xs \<in> set news" "x \<in> set xs" by auto
    then obtain n where n: "n < length ps" "x \<in> set (news ! n)" using len by (metis in_set_conv_nth)
    with turn have "turn_ok ?L (api_row ?a) (ps ! n) (as ! n) (news ! n)" by fastforce
    with n(2) obtain j r m' where j: "ps ! n = (j, m')" "api_row ?a j = Some r" "x = due_ready ?L m' r"
      by (cases "ps ! n") (auto simp: turn_ok_def split: option.split_asm)
    have "i = j" using x(2) api_row_id [OF j(2)] by (simp add: j(3) due_ready_def announces_ready [OF L])
    moreover have "last_for ?L batch j = Some m'" using ps n(1) j(1) by (metis nth_mem)
    then have "m' \<in> set batch" "parsed ?L m' = Some j" by (auto dest: last_for_SomeD)
    ultimately show ?thesis
      using m causedD(2) [OF c] by (fastforce simp: on_stream_def sched_caused_def parsed_def)
  qed
  with row sent show thesis by (rule that)
qed

lemma step_caused:
  assumes L: "uuid_text_parses (dp_lib P)" "time_json_roundtrips (dp_lib P)"
    and ord: "\<And>ps. mset (dp_order P ps) = mset ps" and inv: "sys_inv P s" and c: "caused (dp_lib P) s" and step: "sys_step P s s'"
  shows "caused (dp_lib P) s'"
proof -
  have k: "api_keyed (sy_api s)" using inv by (simp add: sys_inv_def api_inv_def)
  from step show ?thesis
  proof cases
    case (http_request rt req out a)
    from http_effect [OF L(1) k http_request(2,3)] show ?thesis
      unfolding http_request(1) by (rule caused_call [OF c]) auto
  next
    case (delivery_result m ack a)
    then show ?thesis using caused_result [OF c k] by simp
  next
    case (cancel_reads i found a ctx)
    from api.get_frame [OF cancel_reads(2)] show ?thesis
      unfolding cancel_reads(1) by (intro caused_api [OF c]) (auto simp: open_caused_def)
  next
    case (cancel_writes ctx i found row a)
    from cancel_rest_effect [OF k cancel_writes(3)] have "write_effect i StatusCancelled (sy_api s) a" by blast
    then show ?thesis unfolding cancel_writes(1) by (rule caused_write [OF c]) (auto dest: in_diffD)
  next
    case (result_reads m i found a)
    have "announced (dp_lib P) (sy_api s) i"
      using result_reads(2,3) causedD(3) [OF c] by (auto simp: on_stream_def results_caused_def)
    with api.get_frame [OF result_reads(4)] show ?thesis
      unfolding result_reads(1) by (intro caused_api [OF c]) (auto simp: open_caused_def)
  next
    case (result_writes i st found answer a)
    have "announced (dp_lib P) (sy_api s) i" using causedD(4) [OF c result_writes(2)] by (simp add: open_caused_def)
    moreover from update_rest_effect [OF k result_writes(3)] have "write_effect i st (sy_api s) a" by blast
    ultimately show ?thesis unfolding result_writes(1) by (intro caused_write [OF c]) (auto dest: in_diffD)
  next
    case (due_batch batch acks a)
    obtain new where "api_row a = api_row (sy_api s)" "api_sent a = api_sent (sy_api s) @ new"
      using due_batch_news [OF L(1) ord inv c due_batch(2,3)] by metis
    then have "caused (dp_lib P) (s\<lparr>sy_api := a, sy_open := sy_open s\<rparr>)" by (intro caused_api [OF c]) auto
    with due_batch(1) show ?thesis by simp
  next
    case (time_passes t)
    with c show ?thesis by (simp add: caused_def)
  next
    case (redis_changes keys)
    with c show ?thesis by (simp add: caused_def)
  qed (use caused_schedule [OF L inv c] caused_cancel [OF inv c] caused_claims [OF L(1) inv c] caused_publishes [OF c]
      caused_puts_back [OF L(1) inv c] caused_takes [OF L(1) inv c] caused_calls [OF L(1) inv c] in simp_all)
qed

lemma reachable_caused:
  assumes "uuid_text_parses (dp_lib P)" "time_json_roundtrips (dp_lib P)" "\<forall>ps. mset (dp_order P ps) = mset ps"
    and "sys_reachable P s"
  shows "caused (dp_lib P) s"
  using assms(4)
proof induction
  case (start s)
  then show ?case
    by (simp add: empty_system_def caused_def rows_caused_def sched_caused_def results_caused_def)
next
  case (step s s')
  with step_caused [OF assms(1,2) _ reachable_inv [OF assms(1-3)]] assms(3) show ?case by blast
qed

text \<open>What a step does to the API's table and stream.\<close>

lemma step_api:
  assumes L: "uuid_text_parses (dp_lib P)" and ord: "\<And>ps. mset (dp_order P ps) = mset ps"
    and inv: "sys_inv P s" and c: "caused (dp_lib P) s" and step: "sys_step P s s'"
  obtains (call) sts where "call_effect (dp_lib P) sts (sy_api s) (sy_api s')"
    | (written) j st where "write_effect j st (sy_api s) (sy_api s')"
    | (kept) "api_row (sy_api s') = api_row (sy_api s)" "api_sent (sy_api s') = api_sent (sy_api s)"
    | (told) new where "api_row (sy_api s') = api_row (sy_api s)" "api_sent (sy_api s') = api_sent (sy_api s) @ new"
        "\<And>x i. x \<in> set new \<Longrightarrow> announces (dp_lib P) i x \<Longrightarrow> announced (dp_lib P) (sy_api s) i"
proof -
  let ?L = "dp_lib P"
  have k: "api_keyed (sy_api s)" using inv by (simp add: sys_inv_def api_inv_def)
  from step show thesis
  proof cases
    case (http_request rt req out b)
    then show thesis using call http_effect [OF L k http_request(2,3)] by simp
  next
    case (delivery_result m ack b)
    show thesis
    proof (cases "uuid_parse ?L (rs_NotificationID (rm_Event m))")
      case None
      with delivery_result(1,3) kept show thesis by (auto simp: result_processOne_def)
    next
      case (Some j)
      obtain x where "svc_UpdateStatus (api_deps ?L) j (rs_Status (rm_Event m)) (sy_api s) = (x, b)"
        using delivery_result(3) Some by (auto simp: result_processOne_def split: prod.splits sum.splits)
      from update_effect [OF k this] delivery_result(1) call show thesis by auto
    qed
  next
    case (cancel_reads j found b ctx)
    then show thesis using kept api.get_frame [OF cancel_reads(2)] by simp
  next
    case (cancel_writes ctx j found row b)
    then show thesis using written cancel_rest_effect [OF k cancel_writes(3)] by auto
  next
    case (result_reads m j found b)
    then show thesis using kept api.get_frame [OF result_reads(4)] by simp
  next
    case (result_writes j st found answer b)
    then show thesis using written update_rest_effect [OF k result_writes(3)] by auto
  next
    case (due_batch batch acks b)
    show thesis
      by (rule due_batch_news [OF L ord inv c due_batch(2,3)], rule told) (simp_all add: due_batch(1))
  qed (use kept in simp_all)
qed

text \<open>
  A row is kept, and only a row that is stored in the same step is announced for the first time; so
  what is stored and not announced is never announced.
\<close>

lemma unannounced_step:
  assumes L: "uuid_text_parses (dp_lib P)" and ord: "\<And>ps. mset (dp_order P ps) = mset ps"
    and inv: "sys_inv P s" and c: "caused (dp_lib P) s" and step: "sys_step P s s'"
    and a: "known (sy_api s) i d" "\<not> announced (dp_lib P) (sy_api s) i"
  shows "known (sy_api s') i d \<and> \<not> announced (dp_lib P) (sy_api s') i"
  using L ord inv c step
proof (cases rule: step_api)
  case (call sts)
  have "api_row (sy_api s) i \<noteq> None" using a(1) by (auto simp: known_def)
  with call a show ?thesis by (auto simp: call_effect_def announced_def intro: known_grows)
next
  case (written j st)
  then have "known (sy_api s') i d" using a(1) by (auto intro: known_grows write_grows)
  with written a(2) announces_cancelled show ?thesis by (auto simp: write_effect_def announced_def)
next
  case kept
  with a show ?thesis by (simp add: known_def announced_def)
next
  case (told new)
  with a show ?thesis by (auto simp: known_def announced_def)
qed

lemma unannounced_steps:
  assumes L: "uuid_text_parses (dp_lib P)" "time_json_roundtrips (dp_lib P)" and ord: "\<forall>ps. mset (dp_order P ps) = mset ps"
    and s: "sys_reachable P s" "known (sy_api s) i d" "\<not> announced (dp_lib P) (sy_api s) i" and steps: "(sys_step P)\<^sup>*\<^sup>* s s'"
  shows "known (sy_api s') i d \<and> \<not> announced (dp_lib P) (sy_api s') i"
  using steps
proof (induction rule: rtranclp_induct)
  case (step u v)
  have u: "sys_reachable P u" using step(1) s(1) by (rule reachable_steps)
  from unannounced_step [OF L(1) _ reachable_inv [OF L ord u] reachable_caused [OF L ord u] step(2)] ord step.IH
  show ?case by blast
qed (use s in simp)

end
