(* ===== verification/Book.thy ===== *)
theory Book
  imports SystemCalls
begin

text \<open>
  What the whole system promises, without its services, topics and redeliveries: a book of accepted
  notifications with their statuses and the list of what was sent to the provider. Every step of the
  system is a sequence of steps of the book, most often none.
\<close>

section \<open>The book\<close>

record book =
  bk_now :: time
  bk_entry :: "uuid \<Rightarrow> (nrow \<times> status) option"
  bk_sends :: "((string \<times> string \<times> string) \<times> bool) list"
  bk_decided :: "(uuid \<times> status) multiset"

text \<open>
  An entry is opened as pending, and its data never changes. A change of its status is first
  decided, along the table from the status it has, to delivered only after the provider has
  accepted a send of its data; a decision is carried out later, once, or dropped. A send is of an
  entry whose time has come.
\<close>

inductive book_step :: "golib \<Rightarrow> book \<Rightarrow> book \<Rightarrow> bool" for L :: golib where
  enter: "bk_entry b i = None \<Longrightarrow> row_ok L (d\<lparr>r_Status := StatusPending\<rparr>) \<Longrightarrow>
    book_step L b (b\<lparr>bk_entry := (bk_entry b)(i \<mapsto> (d, StatusPending))\<rparr>)"
| decide: "bk_entry b i = Some (d, st) \<Longrightarrow> may_become st to \<Longrightarrow>
    (to = StatusDelivered \<longrightarrow> (to_send d, True) \<in> set (bk_sends b)) \<Longrightarrow>
    book_step L b (b\<lparr>bk_decided := add_mset (i, to) (bk_decided b)\<rparr>)"
| settle: "bk_entry b i = Some (d, st) \<Longrightarrow> (i, to) \<in># bk_decided b \<Longrightarrow>
    book_step L b (b\<lparr>bk_entry := (bk_entry b)(i \<mapsto> (d, to)), bk_decided := bk_decided b - {#(i, to)#}\<rparr>)"
| drop: "book_step L b (b\<lparr>bk_decided := bk_decided b - {#x#}\<rparr>)"
| send: "bk_entry b i = Some (d, st) \<Longrightarrow> due_by d (bk_now b) \<Longrightarrow>
    book_step L b (b\<lparr>bk_sends := bk_sends b @ [(to_send d, ok)]\<rparr>)"
| wait: "bk_now b \<le> t \<Longrightarrow> book_step L b (b\<lparr>bk_now := t\<rparr>)"

definition empty_book :: "time \<Rightarrow> book" where
  "empty_book now = \<lparr>bk_now = now, bk_entry = Map.empty, bk_sends = [], bk_decided = {#}\<rparr>"

text \<open>What one or two steps can do to an entry.\<close>

definition entry_moves :: "golib \<Rightarrow> ((string \<times> string \<times> string) \<times> bool) list \<Rightarrow>
    (nrow \<times> status) option \<Rightarrow> nrow \<times> status \<Rightarrow> bool" where
  "entry_moves L sends old new \<longleftrightarrow>
     (case old of
        None \<Rightarrow> snd new = StatusPending \<and> row_ok L ((fst new)\<lparr>r_Status := StatusPending\<rparr>)
      | Some (d, st) \<Rightarrow> fst new = d \<and> may_become st (snd new)
          \<and> (snd new = StatusDelivered \<longrightarrow> (to_send d, True) \<in> set sends))"

lemma entry_steps:
  assumes m: "entry_moves L (bk_sends b) (bk_entry b i) e"
  shows "(book_step L)\<^sup>*\<^sup>* b (b\<lparr>bk_entry := (bk_entry b)(i \<mapsto> e)\<rparr>)"
proof (cases "bk_entry b i")
  case None
  obtain d st where e: "e = (d, st)" by (cases e)
  with m None have "book_step L b (b\<lparr>bk_entry := (bk_entry b)(i \<mapsto> (d, StatusPending))\<rparr>)" "st = StatusPending"
    by (auto simp: entry_moves_def intro!: book_step.enter)
  with e show ?thesis by (simp add: r_into_rtranclp)
next
  case (Some old)
  obtain d st where old: "old = (d, st)" by (cases old)
  obtain to where e: "e = (d, to)" using m Some old by (cases e) (simp add: entry_moves_def)
  let ?b = "b\<lparr>bk_decided := add_mset (i, to) (bk_decided b)\<rparr>"
  have "book_step L b ?b" using m Some old e by (intro book_step.decide [of b i d st]) (auto simp: entry_moves_def)
  moreover have "book_step L ?b (?b\<lparr>bk_entry := (bk_entry ?b)(i \<mapsto> (d, to)),
      bk_decided := bk_decided ?b - {#(i, to)#}\<rparr>)"
    using Some old by (intro book_step.settle [of ?b i d st]) simp_all
  ultimately show ?thesis using e by (simp add: converse_rtranclp_into_rtranclp r_into_rtranclp)
qed

section \<open>The book of a system\<close>

definition sends_of :: "proc_world \<Rightarrow> ((string \<times> string \<times> string) \<times> bool) list" where
  "sends_of p = map (\<lambda>k. (requests p ! k, tape_fun (pw_provider p) k = Inr 202)) [0..<length (requests p)]"

definition entries_of :: "api_world \<Rightarrow> uuid \<Rightarrow> (nrow \<times> status) option" where
  "entries_of a i = map_option (\<lambda>r. (fixed_part r, r_Status r)) (api_row a i)"

text \<open>The decision of a call under way: what it writes, if the table allowed it when it read.\<close>

definition read_allows :: "nrow result \<Rightarrow> status \<Rightarrow> bool" where
  "read_allows found st \<longleftrightarrow> (case found of Inl e \<Rightarrow> False | Inr r \<Rightarrow> may_become (r_Status r) st)"

definition decision :: "under_way \<Rightarrow> (uuid \<times> status) option" where
  "decision c = (case c of
       OpenCancel ctx i found \<Rightarrow> if read_allows found StatusCancelled then Some (i, StatusCancelled) else None
     | OpenUpdate i st found \<Rightarrow> if read_allows found st then Some (i, st) else None
     | _ \<Rightarrow> None)"

definition decided_of :: "under_way multiset \<Rightarrow> (uuid \<times> status) multiset" where
  "decided_of M = {# the (decision c). c \<in># filter_mset (\<lambda>c. decision c \<noteq> None) M #}"

lemma decided_add [simp]:
  "decided_of (add_mset c M) = (case decision c of None \<Rightarrow> decided_of M | Some x \<Rightarrow> add_mset x (decided_of M))"
  by (simp add: decided_of_def split: option.split)

lemma decided_empty [simp]: "decided_of {#} = {#}"
  by (simp add: decided_of_def)

lemma decided_remove:
  assumes "c \<in># M"
  shows "decided_of M = (case decision c of None \<Rightarrow> decided_of (M - {#c#}) | Some x \<Rightarrow> add_mset x (decided_of (M - {#c#})))"
  using decided_add [of c "M - {#c#}"] insert_DiffM [OF assms] by simp

lemma decided_plus [simp]: "decided_of (A + B) = decided_of A + decided_of B"
  by (simp add: decided_of_def)

lemma decided_none: "c \<in># M \<Longrightarrow> decision c = None \<Longrightarrow> decided_of (M - {#c#}) = decided_of M"
  using decided_remove [of c M] by simp

lemma decision_none [simp]:
  "decision (OpenRun ph) = None" "decision (OpenDue ctx ns) = None" "decision (OpenBack ns) = None"
  by (simp_all add: decision_def)

definition book_of :: "system \<Rightarrow> book" where
  "book_of s = \<lparr>bk_now = sy_now s, bk_entry = entries_of (sy_api s), bk_sends = sends_of (sy_proc s),
     bk_decided = decided_of (sy_open s)\<rparr>"

lemma book_of_update [simp]:
  "book_of (s\<lparr>sy_api := a\<rparr>) = (book_of s)\<lparr>bk_entry := entries_of a\<rparr>"
  "book_of (s\<lparr>sy_sched := d\<rparr>) = book_of s"
  "book_of (s\<lparr>sy_proc := p\<rparr>) = (book_of s)\<lparr>bk_sends := sends_of p\<rparr>"
  "book_of (s\<lparr>sy_now := t\<rparr>) = (book_of s)\<lparr>bk_now := t\<rparr>"
  "book_of (s\<lparr>sy_open := M\<rparr>) = (book_of s)\<lparr>bk_decided := decided_of M\<rparr>"
  by (simp_all add: book_of_def)

lemma book_of_sel [simp]:
  "bk_now (book_of s) = sy_now s" "bk_entry (book_of s) = entries_of (sy_api s)"
  "bk_sends (book_of s) = sends_of (sy_proc s)" "bk_decided (book_of s) = decided_of (sy_open s)"
  by (simp_all add: book_of_def)

lemma sends_accepted: "(q, True) \<in> set (sends_of p) \<longleftrightarrow> accepted p q"
  by (auto simp: sends_of_def accepted_def)

lemma sends_append:
  assumes "requests q = requests p @ [x]" "tape_fun (pw_provider q) = tape_fun (pw_provider p)"
  shows "\<exists>ok. sends_of q = sends_of p @ [(x, ok)]"
  using assms by (auto simp: sends_of_def nth_append)

section \<open>Many entries at once\<close>

lemma entries_move:
  assumes "finite D" "\<And>i. i \<in> D \<Longrightarrow> \<exists>e. new i = Some e \<and> entry_moves L (bk_sends b) (bk_entry b i) e"
    and "\<And>i. i \<notin> D \<Longrightarrow> new i = bk_entry b i"
  shows "(book_step L)\<^sup>*\<^sup>* b (b\<lparr>bk_entry := new\<rparr>)"
  using assms
proof (induction D arbitrary: b rule: finite_induct)
  case empty
  then have "new = bk_entry b" by auto
  then show ?case by simp
next
  case (insert i D)
  from insert.prems(1) [of i] obtain e where e: "new i = Some e" "entry_moves L (bk_sends b) (bk_entry b i) e"
    by blast
  let ?b = "b\<lparr>bk_entry := (bk_entry b)(i \<mapsto> e)\<rparr>"
  have "(book_step L)\<^sup>*\<^sup>* ?b (?b\<lparr>bk_entry := new\<rparr>)"
    using insert.prems insert.hyps(2) e(1) by (intro insert.IH) auto
  moreover have "(book_step L)\<^sup>*\<^sup>* b ?b" using e(2) by (rule entry_steps)
  ultimately show ?case by simp
qed

lemma api_rows_finite: "finite (dom (api_row a))"
  unfolding api_row_def pg_stored_def rows_map_def by (rule finite_dom_map_of)

lemma new_row_entry: "new_row L r \<Longrightarrow> row_ok L ((fixed_part r)\<lparr>r_Status := StatusPending\<rparr>)"
  by (frule new_row_ok) (simp add: row_ok_def validTransitions_def)

text \<open>A call of the API, seen in the book.\<close>

lemma call_in_book:
  assumes e: "call_effect L sts (sy_api s) a"
    and d: "\<And>i r. api_row a i = Some r \<Longrightarrow> r_Status r = StatusDelivered \<Longrightarrow> accepted (sy_proc s) (to_send r)"
  shows "(book_step L)\<^sup>*\<^sup>* (book_of s) (book_of (s\<lparr>sy_api := a\<rparr>))"
  unfolding book_of_update
proof (rule entries_move [OF api_rows_finite [of a]])
  fix i
  assume "i \<in> dom (api_row a)"
  then obtain r' where r': "api_row a i = Some r'" by blast
  with e have "row_origin L sts (sy_api s) i r'" unfolding call_effect_def by blast
  then have "entry_moves L (sends_of (sy_proc s)) (entries_of (sy_api s) i) (fixed_part r', r_Status r')"
  proof (cases rule: row_originE)
    case (old r st)
    from same_but_timesD(7) [OF old(3)] same_but_times_fixed [where r = r and st = st and r' = r'] old(3)
    have s: "r_Status r' = st" "fixed_part r' = fixed_part r" by simp_all
    have "accepted (sy_proc s) (to_send r)" if "st = StatusDelivered"
      using d [OF r'] that s by (metis to_send_fixed)
    with old(1,2) s show ?thesis
      by (auto simp: entry_moves_def entries_of_def sends_accepted)
  next
    case fresh
    with new_row_ok [OF fresh(2)] show ?thesis
      by (simp add: entry_moves_def entries_of_def new_row_entry)
  qed
  with r' show "\<exists>e. entries_of a i = Some e
      \<and> entry_moves L (bk_sends (book_of s)) (bk_entry (book_of s) i) e"
    by (simp add: entries_of_def)
next
  fix i
  assume "i \<notin> dom (api_row a)"
  then have n: "api_row a i = None" by blast
  have "api_row (sy_api s) i = None"
  proof (cases "api_row (sy_api s) i")
    case (Some r)
    with e n show ?thesis unfolding call_effect_def grows_def by fastforce
  qed
  with n show "entries_of a i = bk_entry (book_of s) i" by (simp add: entries_of_def)
qed

section \<open>Every step\<close>

lemma due_rows:
  assumes "\<And>ps. mset (ord ps) = mset ps" "api_keyed a" "handleBatch (api_due L ord) batch a = (acks, a')"
  shows "api_row a' = api_row a"
  using due_env.handleBatch_spec [OF api_due_env [OF assms(1)] assms(2,3)] by blast

lemma result_effect:
  assumes "api_keyed a" "result_processOne L (api_service L) m a = (ack, a')"
  shows "\<exists>sts. call_effect L sts a a'"
proof (cases "uuid_parse L (rs_NotificationID (rm_Event m))")
  case None
  with assms have "call_effect L {} a a'" by (simp add: result_processOne_def call_effect_same)
  then show ?thesis ..
next
  case (Some i)
  obtain x where "svc_UpdateStatus (api_deps L) i (rs_Status (rm_Event m)) a = (x, a')"
    using assms(2) Some by (auto simp: result_processOne_def split: prod.splits sum.splits)
  from update_effect [OF assms(1) this] show ?thesis by blast
qed

lemma advance_sends:
  assumes "advance (proc_pipeline cfg build conv) ph p = Some (ph', a, q)"
  shows "sends_of q = sends_of p \<or> (\<exists>x ok. sends_of q = sends_of p @ [(x, ok)])"
proof -
  have same: "sends_of q = sends_of p" if "requests q = requests p" "pw_provider q = pw_provider p"
    using that by (simp add: sends_of_def)
  from assms show ?thesis
  proof (cases rule: advance_provider)
    case (posts m t dr)
    have "\<exists>ok. sends_of q = sends_of p @ [(x, ok)]"
      if "requests q = requests p @ [x]" "pw_provider q = tape_next (pw_provider p)" for x
      using that by (intro sends_append) simp_all
    with posts(5) same show ?thesis by blast
  qed (use same in blast)+
qed

lemma sends_requests: "set (requests p) = fst ` set (sends_of p)"
proof -
  have "map fst (sends_of p) = requests p" by (simp add: sends_of_def comp_def map_nth)
  then show ?thesis by (metis set_map)
qed

lemma send_in_book:
  assumes inv: "proc_inv L (sy_now s) (sy_api s) q"
    and q: "sends_of q = sends_of (sy_proc s) \<or> (\<exists>x ok. sends_of q = sends_of (sy_proc s) @ [(x, ok)])"
  shows "(book_step L)\<^sup>*\<^sup>* (book_of s) (book_of (s\<lparr>sy_proc := q\<rparr>))"
  using q
proof (elim disjE exE)
  fix x ok
  assume n: "sends_of q = sends_of (sy_proc s) @ [(x, ok)]"
  then have "x \<in> set (requests q)" by (simp add: sends_requests)
  with inv obtain i d where d: "known (sy_api s) i d" "x = to_send d" "due_by d (sy_now s)"
    unfolding proc_inv_def by blast
  then obtain st where "bk_entry (book_of s) i = Some (d, st)"
    by (auto simp: entries_of_def elim: knownE)
  from book_step.send [OF this, where ok = ok] d(2,3) n show ?thesis by (simp add: r_into_rtranclp)
qed (simp add: book_of_def)

text \<open>Calls under way: a read decides, a write settles or drops the decision.\<close>

lemma entries_same: "api_row a' = api_row a \<Longrightarrow> entries_of a' = entries_of a"
  by (simp add: entries_of_def [abs_def])

lemma read_in_book:
  assumes g: "repo_GetByID (svc_repo (api_deps L)) i (sy_api s) = (found, a)"
    and c: "decision c = (if read_allows found to then Some (i, to) else None)"
    and d: "to = StatusDelivered \<Longrightarrow> \<exists>d. known (sy_api s) i d \<and> accepted (sy_proc s) (to_send d)"
  shows "(book_step L)\<^sup>*\<^sup>* (book_of s) (book_of (s\<lparr>sy_api := a, sy_open := add_mset c (sy_open s)\<rparr>))"
proof -
  have rows: "entries_of a = entries_of (sy_api s)" using api.get_frame(1) [OF g] by (rule entries_same)
  show ?thesis
  proof (cases "read_allows found to")
    case True
    then obtain r where r: "found = Inr r" "may_become (r_Status r) to"
      by (auto simp: read_allows_def split: sum.splits)
    have row: "api_row (sy_api s) i = Some r" using api.get_by_id_ok [OF g [unfolded r(1)]] by simp
    have "(to_send (fixed_part r), True) \<in> set (sends_of (sy_proc s))" if "to = StatusDelivered"
      using d [OF that] row by (auto simp: sends_accepted known_def)
    then have "book_step L (book_of s) ((book_of s)\<lparr>bk_decided := add_mset (i, to) (bk_decided (book_of s))\<rparr>)"
      using row r(2) by (intro book_step.decide [of _ _ "fixed_part r" "r_Status r"]) (simp_all add: entries_of_def)
    with True c rows show ?thesis by (simp add: book_of_def r_into_rtranclp)
  qed (use c rows in \<open>simp add: book_of_def\<close>)
qed

lemma write_in_book:
  assumes c: "c \<in># sy_open s" and w: "write_effect i to (sy_api s) a"
    and d: "api_row a = api_row (sy_api s) \<or> decision c = Some (i, to)"
  shows "(book_step L)\<^sup>*\<^sup>* (book_of s) (book_of (s\<lparr>sy_api := a, sy_open := sy_open s - {#c#}\<rparr>))"
proof (cases "api_row a = api_row (sy_api s)")
  case True
  note rows = entries_same [OF True] and rem = decided_remove [OF c]
  show ?thesis
  proof (cases "decision c")
    case None
    with rows rem show ?thesis by (simp add: book_of_def)
  next
    case (Some x)
    have "book_step L (book_of s) ((book_of s)\<lparr>bk_decided := bk_decided (book_of s) - {#x#}\<rparr>)" by (rule book_step.drop)
    with Some rows rem show ?thesis by (simp add: book_of_def r_into_rtranclp)
  qed
next
  case False
  with d have x: "decision c = Some (i, to)" by blast
  from False w obtain r r' where r: "api_row (sy_api s) i = Some r" "same_but_times (r\<lparr>r_Status := to\<rparr>) r'"
    "api_row a = (api_row (sy_api s))(i \<mapsto> r')" unfolding write_effect_def by blast
  have "entries_of a = (entries_of (sy_api s))(i \<mapsto> (fixed_part r, to))"
    using same_but_times_fixed [OF r(2)] same_but_timesD(7) [OF r(2)]
    by (simp add: entries_of_def fun_eq_iff r(3))
  moreover have "book_step L (book_of s) ((book_of s)\<lparr>bk_entry := (bk_entry (book_of s))(i \<mapsto> (fixed_part r, to)),
      bk_decided := bk_decided (book_of s) - {#(i, to)#}\<rparr>)"
    using r(1) x decided_remove [OF c] by (intro book_step.settle [of _ _ _ "r_Status r"]) (simp_all add: entries_of_def)
  ultimately show ?thesis using x decided_remove [OF c] by (simp add: book_of_def r_into_rtranclp)
qed

lemma step_in_book:
  assumes L: "uuid_text_parses (dp_lib P)" "time_json_roundtrips (dp_lib P)"
    and ord: "\<And>ps. mset (dp_order P ps) = mset ps" and inv: "sys_inv P s" and step: "sys_step P s s'"
  shows "(book_step (dp_lib P))\<^sup>*\<^sup>* (book_of s) (book_of s')"
proof -
  have inv': "sys_inv P s'" using step_inv [OF L ord inv step] .
  have k: "api_keyed (sy_api s)" using inv by (simp add: sys_inv_def api_inv_def)
  have d: "accepted (sy_proc s') (to_send r)"
    if "api_row (sy_api s') i = Some r" "r_Status r = StatusDelivered" for i r
    using inv' that by (simp add: sys_inv_def proc_inv_def)
  from step show ?thesis
  proof cases
    case (http_request rt req out a)
    from http_effect [OF L(1) k http_request(2,3)] d show ?thesis
      unfolding http_request(1) by (intro call_in_book) (simp_all add: http_request(1))
  next
    case (delivery_result m ack a)
    from result_effect [OF k delivery_result(3)] obtain sts where "call_effect (dp_lib P) sts (sy_api s) a" ..
    with d show ?thesis
      unfolding delivery_result(1) by (intro call_in_book) (simp_all add: delivery_result(1))
  next
    case (due_batch batch acks a)
    from due_rows [OF ord k due_batch(3)] have "entries_of a = entries_of (sy_api s)"
      by (simp add: entries_of_def [abs_def])
    then show ?thesis by (simp add: due_batch(1) book_of_def)
  next
    case (cancel_reads i found a ctx)
    show ?thesis unfolding cancel_reads(1)
      by (rule read_in_book [OF cancel_reads(2), where to = StatusCancelled]) (simp_all add: decision_def enum_defs)
  next
    case (cancel_writes ctx i found row a)
    from cancel_rest_effect [OF k cancel_writes(3)] show ?thesis unfolding cancel_writes(1)
      by (intro write_in_book [OF cancel_writes(2), of i StatusCancelled]) (auto simp: decision_def read_allows_def)
  next
    case (result_reads m i found a)
    show ?thesis unfolding result_reads(1)
    proof (rule read_in_book [OF result_reads(4)])
      show "rs_Status (rm_Event m) = StatusDelivered \<Longrightarrow>
          \<exists>d. known (sy_api s) i d \<and> accepted (sy_proc s) (to_send d)"
        using result_means_accepted [OF L(1) inv result_reads(2,3)] .
    qed (simp add: decision_def)
  next
    case (result_writes i st found answer a)
    from update_rest_effect [OF k result_writes(3)] show ?thesis unfolding result_writes(1)
      by (intro write_in_book [OF result_writes(2), of i st]) (auto simp: decision_def read_allows_def)
  next
    case (run_calls ph ph' answer q)
    have "proc_inv (dp_lib P) (sy_now s) (sy_api s) q" using inv' by (simp add: run_calls(1) sys_inv_def)
    from send_in_book [OF this advance_sends [OF run_calls(3) [unfolded the_pipeline_def]]]
    have "(book_step (dp_lib P))\<^sup>*\<^sup>* (book_of s) (book_of (s\<lparr>sy_proc := q\<rparr>))" .
    moreover have "book_of s' = book_of (s\<lparr>sy_proc := q\<rparr>)"
      by (simp add: run_calls(1) book_of_def decided_none [OF run_calls(2)])
    ultimately show ?thesis by (simp only:)
  next
    case (tick_publishes ctx ns ok d)
    then show ?thesis by (simp add: book_of_def decided_none)
  next
    case (tick_puts_back ns)
    then show ?thesis by (simp add: book_of_def decided_none)
  next
    case (time_passes t)
    then show ?thesis using book_step.wait [of "book_of s" t] by (simp add: r_into_rtranclp)
  next
    case (redis_changes keys)
    then show ?thesis by (simp add: sends_of_def book_of_def)
  qed (simp_all add: book_of_def)
qed

lemma reachable_in_book:
  assumes L: "uuid_text_parses (dp_lib P)" "time_json_roundtrips (dp_lib P)" "\<forall>ps. mset (dp_order P ps) = mset ps"
    and r: "sys_reachable P s"
  shows "\<exists>now. (book_step (dp_lib P))\<^sup>*\<^sup>* (empty_book now) (book_of s)"
  using r
proof induction
  case (start s)
  then have "book_of s = empty_book (sy_now s)"
    by (auto simp: book_of_def empty_book_def empty_system_def entries_of_def sends_of_def)
  then show ?case by (metis rtranclp.rtrancl_refl)
next
  case (step s s')
  from step_in_book [OF L(1,2) _ reachable_inv [OF L step.hyps(1)] step.hyps(2)] L(3) step.IH
  show ?case by (meson rtranclp_trans)
qed

end
