(* ===== verification/SystemRun.thy ===== *)
theory SystemRun
  imports Book
begin

text \<open>
  One run of the three services, evaluated: a request is accepted and a cancellation reads its row;
  its message is delivered to a worker, the provider accepts the notification, the result reaches
  the API, and at last the cancellation writes.
\<close>

definition sample_deployment :: deployment where
  "sample_deployment = \<lparr>dp_lib = sample_lib, dp_cfg = sample_cfg, dp_build = (\<lambda>_ _. None), dp_conv = (\<lambda>_. 0),
     dp_order = id, dp_extract = (\<lambda>_ x. x), dp_batch = 100\<rparr>"

definition sample_start :: system where
  "sample_start = \<lparr>sy_now = 100, sy_api = set_db ((aw_db sample_world)\<lparr>pg_rows := []\<rparr>) sample_world,
     sy_sched = set_sched ((sd_db sample_sched)\<lparr>ps_rows := []\<rparr>) sample_sched,
     sy_proc = sample_proc\<lparr>pw_provider := Tape (\<lambda>_. Inr 202) 0\<rparr>, sy_open = {#}\<rparr>"

lemma sample_start_empty: "empty_system sample_start"
  by (simp add: empty_system_def sample_start_def sample_world_def sample_sched_def sample_proc_def api_keyed_def
      pg_keys_def api_row_def pg_stored_def api_sent_def sched_keyed_def ps_keyed_def sched_pending_def
      ps_pending_def srows_map_def sched_stream_def stream_of_def requests_def fun_eq_iff)

lemma sample_deployment_sel [simp]:
  "dp_lib sample_deployment = sample_lib" "dp_order sample_deployment = id" "dp_cfg sample_deployment = sample_cfg"
  "dp_build sample_deployment = (\<lambda>_ _. None)" "dp_conv sample_deployment = (\<lambda>_. 0)"
  by (simp_all add: sample_deployment_def)

lemma sample_deployment_ok:
  "uuid_text_parses (dp_lib sample_deployment)" "time_json_roundtrips (dp_lib sample_deployment)"
  "\<forall>ps. mset (dp_order sample_deployment ps) = mset ps"
  by (simp_all add: sample_uuid_text_parses sample_time_json)

section \<open>The request\<close>

definition post_route :: "api_world route" where
  "post_route = \<lparr>rt_method = ''POST'', rt_pattern = ''/'',
     rt_handler = errHandler (createNotification sample_lib (api_service sample_lib))\<rparr>"

definition sample_post :: http_req where
  "sample_post = sample_request (JObj [(''recipient'', JStr ''+905551234567''), (''channel'', JStr ''sms''),
     (''content'', JStr ''hi''), (''priority'', JStr ''high'')])"

definition created_api :: api_world where
  "created_api = snd (rt_handler post_route sample_post fresh_writer (sy_api sample_start))"

lemma post_routed: "post_route \<in> set (notification_routes sample_lib (api_service sample_lib) [])"
  by (simp add: post_route_def notification_routes_def router_Post_def router_Get_def register_def)

definition sent_event :: ready_event where
  "sent_event = sample_event\<lparr>re_NotificationID := ''100'', re_MaxAttempts := 1\<rparr>"

lemma created_message:
  "map (\<lambda>x. (nm_subject x, ready_of_json (nm_data x))) (api_sent created_api) = [(TopicHigh, Inr sent_event)]"
  by code_simp

section \<open>The read of a cancellation\<close>

definition read_result :: "nrow result" where
  "read_result = fst (repo_GetByID (svc_repo (api_deps sample_lib)) (UUID 100) created_api)"

definition read_api :: api_world where
  "read_api = snd (repo_GetByID (svc_repo (api_deps sample_lib)) (UUID 100) created_api)"

lemma read_sent: "api_sent read_api = api_sent created_api"
  using api.get_frame(2) [of sample_lib "UUID 100" created_api] unfolding read_api_def by (metis prod.collapse)

definition overlapping :: under_way where
  "overlapping = OpenCancel [] (UUID 100) read_result"

section \<open>The delivery\<close>

definition sent_ready :: "ready_event delivered" where
  "sent_ready = \<lparr>rm_Ctx = [], rm_Event = sent_event, rm_Msg = 0, rm_AttemptNumber = 1\<rparr>"

definition sent_proc :: proc_world where
  "sent_proc = snd (processOne (proc_pipeline sample_cfg (\<lambda>_ _. None) (\<lambda>_. 0)) sent_ready (sy_proc sample_start))"

definition sent_result :: result_event where
  "sent_result = \<lparr>rs_NotificationID = ''100'', rs_Status = StatusDelivered, rs_AttemptNumber = 1,
     rs_HTTPStatusCode = 202, rs_ErrorMessage = '''', rs_ProviderMessageID = '''', rs_LatencyMS = 0\<rparr>"

lemma sent_world:
  "(map (\<lambda>x. (nm_subject x, result_of_json (nm_data x))) (stream_of sent_proc), requests sent_proc)
     = ([(TopicStatus, Inr sent_result)], [(''+905551234567'', ''sms'', ''hi'')])"
  by code_simp

lemmas sent_message = sent_world [unfolded prod.inject, THEN conjunct1]
lemmas sent_requests = sent_world [unfolded prod.inject, THEN conjunct2]

section \<open>The result\<close>

definition result_ready :: "result_event delivered" where
  "result_ready = \<lparr>rm_Ctx = [], rm_Event = sent_result, rm_Msg = 0, rm_AttemptNumber = 1\<rparr>"

definition delivered_api :: api_world where
  "delivered_api = snd (result_processOne sample_lib (api_service sample_lib) result_ready read_api)"

section \<open>The write of the cancellation\<close>

definition raced_api :: api_world where
  "raced_api = snd (cancel_rest (api_deps sample_lib) [] (UUID 100) read_result delivered_api)"

lemma final_rows:
  "(map_option (\<lambda>r. (r_Status r, to_send r)) (api_row delivered_api (UUID 100)),
    map_option r_Status (api_row raced_api (UUID 100)))
   = (Some (StatusDelivered, ''+905551234567'', ''sms'', ''hi''), Some StatusCancelled)"
  by code_simp

section \<open>The states of the run\<close>

definition sample_created :: system where
  "sample_created = sample_start\<lparr>sy_api := created_api\<rparr>"

definition sample_read :: system where
  "sample_read = sample_created\<lparr>sy_api := read_api, sy_open := add_mset overlapping (sy_open sample_created)\<rparr>"

definition sample_sent :: system where
  "sample_sent = sample_read\<lparr>sy_proc := sent_proc\<rparr>"

definition sample_end :: system where
  "sample_end = sample_sent\<lparr>sy_api := delivered_api\<rparr>"

definition sample_raced :: system where
  "sample_raced = sample_end\<lparr>sy_api := raced_api, sy_open := sy_open sample_end - {#overlapping#}\<rparr>"

lemma sample_parts [simp]:
  "sy_api sample_created = created_api" "sy_proc sample_created = sy_proc sample_start"
  "sy_api sample_read = read_api" "sy_proc sample_read = sy_proc sample_start"
  "sy_api sample_sent = read_api" "sy_proc sample_sent = sent_proc"
  "sy_api sample_end = delivered_api" "sy_proc sample_end = sent_proc" "sy_open sample_end = {#overlapping#}"
  "sy_api sample_raced = raced_api"
  by (simp_all add: sample_created_def sample_read_def sample_sent_def sample_end_def sample_raced_def sample_start_def)

lemma on_streamI:
  assumes "map (\<lambda>x. (nm_subject x, un (nm_data x))) xs = [(t, Inr e)]" "t \<in> ts" "rm_Event m = e"
  shows "on_stream xs ts un m"
  using assms by (cases xs) (auto simp: on_stream_def)

lemma created_reached: "sys_reachable sample_deployment sample_created"
proof (rule sys_reachable.step [OF sys_reachable.start [OF sample_start_empty]])
  show "sys_step sample_deployment sample_start sample_created"
    unfolding sample_created_def
    by (rule sys_step.http_request [where rt = post_route and req = sample_post
          and out = "fst (rt_handler post_route sample_post fresh_writer (sy_api sample_start))"])
       (simp_all add: post_routed created_api_def)
qed

lemma read_reached: "sys_reachable sample_deployment sample_read"
proof (rule sys_reachable.step [OF created_reached])
  show "sys_step sample_deployment sample_created sample_read"
    unfolding sample_read_def overlapping_def
    by (rule sys_step.cancel_reads) (simp only: sample_parts sample_deployment_sel read_result_def read_api_def prod.collapse)
qed

lemma sent_reached: "sys_reachable sample_deployment sample_sent"
proof (rule reachable_steps [OF _ read_reached])
  have "on_stream (api_sent read_api) priority_topics ready_of_json sent_ready"
    unfolding read_sent
    using created_message by (rule on_streamI) (simp_all add: priority_topics_def sent_ready_def)
  then show "(sys_step sample_deployment)\<^sup>*\<^sup>* sample_read sample_sent"
    unfolding sample_sent_def
    by (intro delivery_steps [where m = sent_ready and
          ack = "fst (processOne (proc_pipeline sample_cfg (\<lambda>_ _. None) (\<lambda>_. 0)) sent_ready (sy_proc sample_start))"])
       (simp_all add: sent_proc_def the_pipeline_def)
qed

lemma end_reached: "sys_reachable sample_deployment sample_end"
proof (rule sys_reachable.step [OF sent_reached])
  have "on_stream (stream_of sent_proc) {TopicStatus} result_of_json result_ready"
    using sent_message by (rule on_streamI) (simp_all add: result_ready_def)
  then show "sys_step sample_deployment sample_sent sample_end"
    unfolding sample_end_def
    by (intro sys_step.delivery_result [where m = result_ready and
          ack = "fst (result_processOne sample_lib (api_service sample_lib) result_ready read_api)"])
       (simp_all add: delivered_api_def)
qed

lemma raced_step: "sys_step sample_deployment sample_end sample_raced"
  unfolding sample_raced_def overlapping_def
  by (rule sys_step.cancel_writes [where
        row = "fst (cancel_rest (api_deps sample_lib) [] (UUID 100) read_result delivered_api)"])
     (simp_all add: overlapping_def raced_api_def)

lemma sample_end_row: obtains r where "api_row (sy_api sample_end) (UUID 100) = Some r"
    "r_Status r = StatusDelivered" "to_send r = (''+905551234567'', ''sms'', ''hi'')"
  using final_rows by auto

lemma sample_raced_row: obtains r where "api_row (sy_api sample_raced) (UUID 100) = Some r"
    "r_Status r = StatusCancelled"
  using final_rows by auto

end
