(* ===== verification/Progress.thy ===== *)
theory Progress
  imports Causes SystemRun
begin

text \<open>
  What can still happen: from every reachable state, whatever faults, crashes of leases, delays and
  overlapping calls led there, a notification that was announced can be brought to the provider and
  its row to delivered, once the database, the broker, Redis, the limiter and the provider answer
  again. The path is built from the calls of the services: the schedule event, the tick, the due
  batch, the run of the pipeline, the result.
\<close>

section \<open>Surroundings that answer from now on\<close>

definition api_fine :: "api_world \<Rightarrow> bool" where
  "api_fine a \<longleftrightarrow> constantly None (pg_faults (aw_db a)) \<and> constantly PubAck (na_replies (aw_nats a))"

definition sched_fine :: "sched_world \<Rightarrow> bool" where
  "sched_fine d \<longleftrightarrow> constantly None (ps_faults (sd_db d)) \<and> constantly (\<lambda>_. False) (ps_locked (sd_db d))
     \<and> constantly PubAck (na_replies (sd_nats d)) \<and> steady (\<lambda>ok. ok) (na_waits (sd_nats d))"

definition proc_fine :: "proc_world \<Rightarrow> bool" where
  "proc_fine p \<longleftrightarrow> constantly None (rd_faults (pw_redis p)) \<and> constantly PubAck (na_replies (pw_nats p))
     \<and> steady lets_pass (pw_allow p) \<and> constantly (Inr 202) (pw_provider p)"

definition all_fine :: "system \<Rightarrow> bool" where
  "all_fine s \<longleftrightarrow> api_fine (sy_api s) \<and> sched_fine (sy_sched s) \<and> proc_fine (sy_proc s)"

section \<open>A store that answers\<close>

lemma filter_of_rows_map: "rows_map rows i = Some r \<Longrightarrow> \<exists>rs. filter (\<lambda>r. r_ID r = i) rows = r # rs"
  by (induction rows) (auto split: if_splits)

lemma pg_exec_fine:
  "constantly None (pg_faults d) \<Longrightarrow> stmt (pg_now d) (pg_rows d) = Inr (x, rows) \<Longrightarrow>
     pg_exec stmt d = (Inr x, d\<lparr>pg_faults := tape_next (pg_faults d), pg_rows := rows\<rparr>)"
  by (simp add: pg_exec_def constantly_read)

lemma get_fine:
  assumes "api_fine a" "api_row a i = Some r"
  obtains a' where "repo_GetByID (svc_repo (api_deps L)) i a = (Inr r, a')"
    "api_fine a'" "api_row a' = api_row a" "api_keyed a' = api_keyed a" "api_sent a' = api_sent a"
proof -
  obtain rs where "filter (\<lambda>r. r_ID r = i) (pg_rows (aw_db a)) = r # rs"
    using assms(2) filter_of_rows_map unfolding api_row_def pg_stored_def by blast
  then have "pg_GetByID i (aw_db a) = (Inr r, aw_db a\<lparr>pg_faults := tape_next (pg_faults (aw_db a)),
      pg_rows := pg_rows (aw_db a)\<rparr>)"
    using assms(1) unfolding api_fine_def
    by (simp add: pg_GetByID_def pg_exec_fine [where x = r and rows = "pg_rows (aw_db a)"] sql_select_id_def)
  with assms(1) show thesis
    by (intro that [of "set_db (aw_db a\<lparr>pg_faults := tape_next (pg_faults (aw_db a)), pg_rows := pg_rows (aw_db a)\<rparr>) a"])
       (simp_all add: on_part_eq api_fine_def api_row_def pg_stored_def api_keyed_def pg_keys_def api_sent_def)
qed

lemma update_fine:
  assumes "api_fine a" "api_row a i = Some r" "st \<noteq> ''''" "text_fits 20 st"
  obtains r' a' where "repo_UpdateStatus (svc_repo (api_deps L)) i st a = (Inr r', a')" "api_fine a'"
proof -
  obtain rs where "filter (\<lambda>r. r_ID r = i) (pg_rows (aw_db a)) = r # rs"
    using assms(2) filter_of_rows_map unfolding api_row_def pg_stored_def by blast
  then obtain x rows where "sql_update_status i st (pg_now (aw_db a)) (pg_rows (aw_db a)) = Inr (x, rows)"
    using assms(3,4) by (simp add: sql_update_status_def)
  with assms(1) have "pg_UpdateStatus i st (aw_db a)
      = (Inr x, aw_db a\<lparr>pg_faults := tape_next (pg_faults (aw_db a)), pg_rows := rows\<rparr>)"
    unfolding api_fine_def pg_UpdateStatus_def by (simp add: pg_exec_fine)
  with assms(1) show thesis
    by (intro that [of x "set_db (aw_db a\<lparr>pg_faults := tape_next (pg_faults (aw_db a)), pg_rows := rows\<rparr>) a"])
       (simp_all add: on_part_eq api_fine_def)
qed

text \<open>A result that the table allows is stored.\<close>

lemma delivered_fits: "text_fits 20 StatusDelivered" "StatusDelivered \<noteq> ''''"
  by code_simp+

lemma result_settles:
  assumes k: "api_keyed a" and f: "api_fine a" and r: "api_row a i = Some r"
    and may: "may_become (r_Status r) StatusDelivered"
    and m: "uuid_parse L (rs_NotificationID (rm_Event m)) = Some i" "rs_Status (rm_Event m) = StatusDelivered"
  obtains a' r' where "result_processOne L (api_service L) m a = (Ack, a')" "api_fine a'"
    "api_row a' i = Some r'" "r_Status r' = StatusDelivered"
proof -
  obtain a1 where a1: "repo_GetByID (svc_repo (api_deps L)) i a = (Inr r, a1)" "api_fine a1"
    "api_row a1 = api_row a" "api_keyed a1 = api_keyed a" using get_fine [OF f r] by metis
  have "api_row a1 i = Some r" using a1(3) r by simp
  from update_fine [OF a1(2) this delivered_fits(2,1)] obtain r' a2 where
    a2: "repo_UpdateStatus (svc_repo (api_deps L)) i StatusDelivered a1 = (Inr r', a2)" "api_fine a2" by metis
  have u: "svc_UpdateStatus (api_deps L) i StatusDelivered a = (Inr (), a2)"
  proof -
    obtain dn where "Transition StatusDelivered (ToDomain r) = Inr dn"
      using may by (simp add: Transition_Inr_iff)
    with a1(1) a2(1) show ?thesis by (simp add: svc_UpdateStatus_def update_rest_def del: api_deps_sel)
  qed
  from api.update_status_ok [OF _ a2(1)] k a1(4) obtain q where
    "api_row a2 = (api_row a1)(i \<mapsto> r')" "same_but_times (q\<lparr>r_Status := StatusDelivered\<rparr>) r'" by blast
  with u a2(2) m show thesis
    by (intro that [of a2 r']) (auto simp: result_processOne_def dest: same_but_timesD(7) simp del: api_deps_sel)
qed

section \<open>A run of the pipeline that reaches the provider\<close>

text \<open>Whoever holds the lock, its lease ends.\<close>

lemma lease_ends:
  obtains t where "rd_now (pw_redis p) \<le> t" "\<not> locked (set_redis (pw_redis p\<lparr>rd_now := t\<rparr>) p) i"
proof (cases "rd_keys (pw_redis p) (lock_key i)")
  case None
  then show thesis
    by (intro that [OF order.refl]) (simp add: locked_def lock_held_def live_def)
next
  case (Some u)
  then show thesis
    by (intro that [of "max (rd_now (pw_redis p)) u"]) (simp_all add: locked_def lock_held_def live_def)
qed

lemma run_delivers:
  assumes f: "proc_fine p" "\<not> locked p (re_NotificationID (rm_Event m))" and b: "build ''POST'' (pc_ClientURL cfg) = None"
    and n: "int64 (rm_AttemptNumber m)"
  obtains p' e where "processOne (proc_pipeline cfg build conv) m p = (Ack, p')" "proc_fine p'"
    "requests p' = requests p @ [(re_Recipient (rm_Event m), re_Channel (rm_Event m), re_Content (rm_Event m))]"
    "stream_of p' = stream_of p @ [status_message (rm_Ctx m) e]" "result_of_json (result_to_json e) = Inr e"
    "rs_NotificationID e = re_NotificationID (rm_Event m)" "rs_Status e = StatusDelivered"
proof -
  let ?evt = "rm_Event m"
  obtain a p' where p: "processOne (proc_pipeline cfg build conv) m p = (a, p')" by fastforce
  have c: "calm (re_NotificationID ?evt) p" using f by (simp add: calm_def proc_fine_def)
  have "provider_says p 0 = Inr 202"
    using f(1) steady_read [of "\<lambda>a. a = Inr 202" "pw_provider p"] by (simp add: proc_fine_def provider_says_def tape_read_def)
  with calm_process [OF c b p] obtain dr where dr: "calm (re_NotificationID ?evt) p'"
    "pw_provider p' = tape_next (pw_provider p)"
    "requests p' = requests p @ [(re_Recipient ?evt, re_Channel ?evt, re_Content ?evt)]"
    "dr_Success dr" "int64 (dr_LatencyMS dr)" "dr_StatusCode dr = 202"
    "case status_event ?evt dr (rm_AttemptNumber m) of
         None \<Rightarrow> (\<exists>d. a = NakWithDelay d) \<and> stream_of p' = stream_of p
       | Some e \<Rightarrow> a = Ack \<and> stream_of p' = stream_of p @ [status_message (rm_Ctx m) e]" by auto
  let ?e = "delivered_event ?evt dr (rm_AttemptNumber m)"
  have "status_event ?evt dr (rm_AttemptNumber m) = Some ?e" using dr(4) by (simp add: status_event_def)
  with dr(7) have "a = Ack" "stream_of p' = stream_of p @ [status_message (rm_Ctx m) ?e]" by simp_all
  moreover have "proc_fine p'" using dr(1,2) f(1) by (simp add: calm_def proc_fine_def)
  moreover have "result_of_json (result_to_json ?e) = Inr ?e"
    using dr(5,6) n by (intro result_roundtrip) (simp_all add: delivered_event_def zero_result_def int64_def)
  ultimately show thesis using p dr(3)
    by (intro that [of p' ?e]) (simp_all add: delivered_event_def zero_result_def)
qed

section \<open>From the ready message to the delivered row\<close>

text \<open>The ready message of a stored row can be read by the processor.\<close>

lemma ready_on_stream:
  assumes inv: "sys_inv P s" and r: "api_row (sy_api s) i = Some r"
    and x: "in_context c (ready_message (dp_lib P) r) \<in> set (api_sent (sy_api s))"
    and m: "rm_Event m = ready_From (dp_lib P) r"
  shows "on_stream (api_sent (sy_api s)) priority_topics ready_of_json m"
proof -
  have "row_ok (dp_lib P) r" and k: "api_keyed (sy_api s)"
    using inv r by (auto simp: sys_inv_def api_inv_def)
  then have "TopicByPriority (r_Priority r) \<in> priority_topics"
    by (auto simp: row_ok_def TopicByPriority_def priority_topics_def)
  moreover have "row_fits r"
    using k r rows_map_id [of "pg_rows (aw_db (sy_api s))" i r]
    by (simp add: api_keyed_def pg_keys_def api_row_def pg_stored_def list.pred_set)
  then have "ready_of_json (ready_to_json (ready_From (dp_lib P) r)) = Inr (ready_From (dp_lib P) r)"
    by (intro ready_roundtrip) (simp add: ready_From_def row_fits_int64)
  ultimately show ?thesis
    unfolding on_stream_def using x m by (intro bexI [OF _ x]) (simp add: in_context_def ready_message_def)
qed

lemma ready_is_sent:
  assumes inv: "sys_inv P s" and f: "all_fine s" and L: "uuid_text_parses (dp_lib P)"
    and b: "dp_build P ''POST'' (pc_ClientURL (dp_cfg P)) = None"
    and r: "api_row (sy_api s) i = Some r"
    and x: "in_context c (ready_message (dp_lib P) r) \<in> set (api_sent (sy_api s))"
  obtains s' r' where "(sys_step P)\<^sup>*\<^sup>* s s'" "all_fine s'"
    "requests (sy_proc s') = requests (sy_proc s) @ [to_send r]" "api_row (sy_api s') i = Some r'"
    "r_Status r' = (if may_become (r_Status r) StatusDelivered then StatusDelivered else r_Status r)"
proof -
  let ?L = "dp_lib P"
  define m where "m = \<lparr>rm_Ctx = [], rm_Event = ready_From ?L r, rm_Msg = 0, rm_AttemptNumber = 1\<rparr>"
  have m: "rm_Event m = ready_From ?L r" "rm_Ctx m = []" "int64 (rm_AttemptNumber m)" by (simp_all add: m_def int64_def)
  have ri: "r_ID r = i" using r by (rule api_row_id)
  obtain t where t: "\<not> locked (set_redis (pw_redis (sy_proc s)\<lparr>rd_now := t\<rparr>) (sy_proc s)) (re_NotificationID (rm_Event m))"
    using lease_ends by metis
  define p where "p = set_redis (pw_redis (sy_proc s)\<lparr>rd_now := t\<rparr>) (sy_proc s)"
  have fp: "proc_fine p" using f by (simp add: all_fine_def proc_fine_def p_def set_redis_def)
  from run_delivers [OF fp t [folded p_def], where cfg = "dp_cfg P" and build = "dp_build P" and conv = "dp_conv P"] b m(3)
  obtain p' e where run: "processOne (the_pipeline P) m p = (Ack, p')" "proc_fine p'"
    "requests p' = requests p @ [to_send r]" "stream_of p' = stream_of p @ [status_message [] e]"
    "result_of_json (result_to_json e) = Inr e" "rs_NotificationID e = uuid_text ?L i" "rs_Status e = StatusDelivered"
    by (auto simp: the_pipeline_def m ready_From_def to_send_def ri)
  have on: "on_stream (api_sent (sy_api (s\<lparr>sy_proc := p\<rparr>))) priority_topics ready_of_json m"
    using ready_on_stream [OF inv r x m(1)] by simp
  have "sys_step P s (s\<lparr>sy_proc := p\<rparr>)" unfolding p_def by (rule sys_step.redis_changes)
  moreover have "(sys_step P)\<^sup>*\<^sup>* (s\<lparr>sy_proc := p\<rparr>) ((s\<lparr>sy_proc := p\<rparr>)\<lparr>sy_proc := p'\<rparr>)"
    using on by (rule delivery_steps) (simp add: run(1))
  ultimately have sent: "(sys_step P)\<^sup>*\<^sup>* s (s\<lparr>sy_proc := p'\<rparr>)" by (simp add: converse_rtranclp_into_rtranclp)
  have rq: "requests p' = requests (sy_proc s) @ [to_send r]" using run(3) by (simp add: p_def)
  show thesis
  proof (cases "may_become (r_Status r) StatusDelivered")
    case False
    with sent rq r f run(2) show ?thesis by (intro that [of "s\<lparr>sy_proc := p'\<rparr>" r]) (simp_all add: all_fine_def)
  next
    case True
    define q where "q = \<lparr>rm_Ctx = [], rm_Event = e, rm_Msg = 0, rm_AttemptNumber = 1\<rparr>"
    have q: "uuid_parse ?L (rs_NotificationID (rm_Event q)) = Some i" "rs_Status (rm_Event q) = StatusDelivered"
      using run(6,7) L by (simp_all add: q_def uuid_text_parses_def)
    have "api_keyed (sy_api s)" "api_fine (sy_api s)" using inv f by (simp_all add: sys_inv_def api_inv_def all_fine_def)
    from result_settles [OF this r True q] obtain a' r' where a: "result_processOne ?L (api_service ?L) q (sy_api s) = (Ack, a')"
      "api_fine a'" "api_row a' i = Some r'" "r_Status r' = StatusDelivered" by metis
    have "on_stream (stream_of p') {TopicStatus} result_of_json q"
      using run(4,5) by (auto simp: on_stream_def status_message_def q_def)
    then have "sys_step P (s\<lparr>sy_proc := p'\<rparr>) ((s\<lparr>sy_proc := p'\<rparr>)\<lparr>sy_api := a'\<rparr>)"
      using a(1) by (intro sys_step.delivery_result) simp_all
    with sent have "(sys_step P)\<^sup>*\<^sup>* s (s\<lparr>sy_proc := p', sy_api := a'\<rparr>)" by (simp add: rtranclp.rtrancl_into_rtrancl)
    with rq a f run(2) True show ?thesis
      by (intro that [of "s\<lparr>sy_proc := p', sy_api := a'\<rparr>" r']) (simp_all add: all_fine_def)
  qed
qed

section \<open>From the due message to the ready message\<close>

lemma ids_fine:
  assumes "api_fine a" "api_keyed a" "api_row a i = Some r"
  obtains a' where "repo_GetByIDs (svc_repo (api_deps L)) [i] a = (Inr [r], a')" "api_fine a'"
    "api_row a' = api_row a" "api_keyed a'" "api_sent a' = api_sent a"
proof -
  let ?rows = "pg_rows (aw_db a)"
  obtain rs where rs: "filter (\<lambda>r. r_ID r = i) ?rows = r # rs"
    using assms(3) filter_of_rows_map unfolding api_row_def pg_stored_def by blast
  have "distinct (map r_ID (filter (\<lambda>r. r_ID r = i) ?rows))"
    using assms(2) by (simp add: api_keyed_def pg_keys_def distinct_map_filter)
  moreover have "\<forall>q \<in> set rs. r_ID q = i" "r_ID r = i"
    using arg_cong [OF rs, of set] by (auto simp: set_eq_iff)
  ultimately have "rs = []" unfolding rs by (cases rs) auto
  with rs have "filter (\<lambda>r. r_ID r \<in> set [i]) ?rows = [r]" by simp
  then have "pg_GetByIDs [i] (aw_db a)
      = (Inr [r], aw_db a\<lparr>pg_faults := tape_next (pg_faults (aw_db a)), pg_rows := ?rows\<rparr>)"
    using assms(1) unfolding api_fine_def pg_GetByIDs_def
    by (simp add: pg_exec_fine [where x = "[r]" and rows = ?rows] sql_select_ids_def)
  with assms(1,2) show thesis
    by (intro that [of "set_db (aw_db a\<lparr>pg_faults := tape_next (pg_faults (aw_db a)), pg_rows := ?rows\<rparr>) a"])
       (simp_all add: on_part_eq api_fine_def api_row_def pg_stored_def api_keyed_def pg_keys_def api_sent_def)
qed

lemma publish_fine:
  assumes "api_fine a"
  obtains a' where "pub_Publish (svc_pub (api_deps L)) c t j a = (Inr (), a')" "api_fine a'"
    "api_row a' = api_row a" "api_sent a' = api_sent a @ [nats_message t c j]"
proof -
  obtain s where s: "Publish c t j (aw_nats a) = (Inr (), s)" "na_log s = na_log (aw_nats a) @ [nats_message t c j]"
    "constantly PubAck (na_replies s)" using calm_publish [of "aw_nats a" c t j] assms by (auto simp: api_fine_def)
  with assms show thesis
    by (intro that [of "set_nats s a"]) (simp_all add: on_part_eq api_fine_def api_row_def api_sent_def)
qed

lemma due_makes_ready:
  assumes f: "api_fine a" "api_keyed a" and r: "api_row a i = Some r"
    and m: "uuid_parse L (de_NotificationID (rm_Event m)) = Some i" and ord: "\<And>ps. mset (ord ps) = mset ps"
  obtains a' where "handleBatch (api_due L ord) [m] a = ([(rm_Msg m, Ack)], a')" "api_fine a'"
    "api_row a' = api_row a" "in_context (rm_Ctx m) (ready_message L r) \<in> set (api_sent a')"
proof -
  have o: "ord [(i, m)] = [(i, m)]" using ord [of "[(i, m)]"] by simp
  have ri: "r_ID r = i" using r by (rule api_row_id)
  obtain a1 where a1: "repo_GetByIDs (svc_repo (api_deps L)) [i] a = (Inr [r], a1)" "api_fine a1"
    "api_row a1 = api_row a" "api_sent a1 = api_sent a" using ids_fine [OF f r] by metis
  obtain a2 where a2: "pub_Publish (svc_pub (api_deps L)) (rm_Ctx m) (TopicByPriority (r_Priority r))
      (ready_to_json (ready_From L r)) a1 = (Inr (), a2)" "api_fine a2" "api_row a2 = api_row a1"
    "api_sent a2 = api_sent a1 @ [nats_message (TopicByPriority (r_Priority r)) (rm_Ctx m) (ready_to_json (ready_From L r))]"
    using publish_fine [OF a1(2)] by metis
  have "handleBatch (api_due L ord) [m] a = ([(rm_Msg m, Ack)], a2)"
    using m a1(1) a2(1) o ri
    by (simp add: handleBatch_def api_due_def parse_batch_def parse_one_def notifByID_def dispatch_one_def
        ready_From_def del: api_deps_sel)
  with a1 a2 show thesis
    by (intro that [of a2]) (simp_all add: in_context_def ready_message_def)
qed

section \<open>From the scheduled message to the due message\<close>

lemma row_of_item:
  assumes "uuid_text_parses L"
  shows "row_of_sched L \<lparr>sn_NotificationID = uuid_text L j, sn_ScheduledAt = Some t, sn_TraceMetadata = tr\<rparr>
    = Some \<lparr>sw_ID = j, sw_At = t, sw_Trace = tr\<rparr>"
  using assms by (simp add: row_of_sched_def uuid_text_parses_def)

lemma wanted_rows:
  assumes L: "uuid_text_parses L" and dis: "distinct (map si_NotificationID (se_Notifications (rm_Event m)))"
    and ids: "\<forall>it \<in> set (se_Notifications (rm_Event m)). \<exists>i. si_NotificationID it = uuid_text L i"
  shows "None \<notin> set (map (row_of_sched L) (wanted m))"
    "distinct (map sw_ID (somes (map (row_of_sched L) (wanted m))))"
proof -
  let ?row = "\<lambda>it. \<lparr>sw_ID = the (uuid_parse L (si_NotificationID it)), sw_At = si_ScheduledAt it,
      sw_Trace = ExtractTraceMetadata (rm_Ctx m)\<rparr>"
  have parse: "uuid_parse L (uuid_text L j) = Some j" for j using L by (simp add: uuid_text_parses_def)
  have rows: "map (row_of_sched L) (wanted m) = map Some (map ?row (se_Notifications (rm_Event m)))"
    using ids parse by (auto simp: wanted_def row_of_item [OF L])
  have "inj_on (\<lambda>it. the (uuid_parse L (si_NotificationID it))) (set (se_Notifications (rm_Event m)))"
  proof (rule inj_onI)
    fix x y
    assume xy: "x \<in> set (se_Notifications (rm_Event m))" "y \<in> set (se_Notifications (rm_Event m))"
      "the (uuid_parse L (si_NotificationID x)) = the (uuid_parse L (si_NotificationID y))"
    from ids xy(1,2) obtain j k where "si_NotificationID x = uuid_text L j" "si_NotificationID y = uuid_text L k" by blast
    with xy(3) parse have "si_NotificationID x = si_NotificationID y" by simp
    with dis xy(1,2) show "x = y" by (auto simp: distinct_map dest: inj_onD)
  qed
  then show "distinct (map sw_ID (somes (map (row_of_sched L) (wanted m))))"
    using dis unfolding rows somes_map_Some by (simp add: distinct_map comp_def)
  show "None \<notin> set (map (row_of_sched L) (wanted m))" unfolding rows by auto
qed

lemma schedule_stores:
  assumes d: "sched_fine d" "sched_keyed d" and L: "uuid_text_parses L"
    and dis: "distinct (map si_NotificationID (se_Notifications (rm_Event m)))"
    and ids: "\<forall>it \<in> set (se_Notifications (rm_Event m)). \<exists>i. si_NotificationID it = uuid_text L i"
    and it: "it \<in> set (se_Notifications (rm_Event m))" "si_NotificationID it = uuid_text L i"
  obtains d' tr where "handleScheduledEvents (sched_repo L) m d = (Ack, d')" "sched_fine d'" "sched_keyed d'"
    "sched_pending d' i = Some (si_ScheduledAt it, tr)"
proof -
  from upsert_answers [of "sd_db d" L "wanted m"] wanted_rows [OF L dis ids] d(1)
  obtain d1 where u: "UpsertAll L (wanted m) (sd_db d) = (Inr (), d1)" by (auto simp: sched_fine_def)
  then have a: "handleScheduledEvents (sched_repo L) m d = (Ack, set_sched d1 d)"
    by (simp add: handleScheduledEvents_def wanted_def on_part_eq)
  have "d1 = snd (UpsertAll L (wanted m) (sd_db d))" using u by simp
  then have "ps_faults d1 = tape_next (ps_faults (sd_db d)) \<or> ps_faults d1 = ps_faults (sd_db d)"
    "ps_locked d1 = ps_locked (sd_db d)"
    using ps_exec_tapes [of "sql_upsert L (wanted m)" "sd_db d"]
    by (auto simp: UpsertAll_def split: prod.splits sum.splits)
  then have f: "sched_fine (set_sched d1 d)" using d(1) by (auto simp: sched_fine_def set_sched_def)
  show thesis
    using d(2) a
  proof (cases rule: scheduled_event_cases)
    case stored
    have "uuid_parse L (si_NotificationID it) = Some i" using L it(2) by (simp add: uuid_text_parses_def)
    from stored(3) [OF it(1) this] a f stored(2) show ?thesis by (intro that)
  qed simp
qed

text \<open>A scheduled message on the stream names its notifications once each.\<close>

lemma scheduled_items_known:
  assumes inv: "sys_inv P s" and T: "time_json_roundtrips (dp_lib P)"
    and x: "in_context c (scheduled_message (dp_lib P) is) \<in> set (api_sent (sy_api s))"
  shows "distinct (map si_NotificationID is)" "\<forall>it \<in> set is. \<exists>i. si_NotificationID it = uuid_text (dp_lib P) i"
proof -
  let ?x = "in_context c (scheduled_message (dp_lib P) is)"
  have "api_message (dp_lib P) (sy_now s) (sy_api s) ?x" using inv x by (simp add: sys_inv_def api_inv_def)
  moreover have "TopicByPriority p \<noteq> TopicNotificationScheduled" for p by (simp add: TopicByPriority_def topic_defs)
  ultimately obtain c' js where js: "?x = in_context c' (scheduled_message (dp_lib P) js)"
    "distinct (map si_NotificationID js)" "\<forall>it \<in> set js. \<exists>i. si_NotificationID it = uuid_text (dp_lib P) i"
    by (fastforce simp: api_message_def in_context_def ready_message_def scheduled_message_def topic_defs)
  then have "scheduled_of_json (dp_lib P) (nm_data ?x) = scheduled_of_json (dp_lib P) (nm_data (in_context c' (scheduled_message (dp_lib P) js)))"
    by simp
  with T have "is = js" by (simp add: in_context_def scheduled_message_def)
  with js(2,3) show "distinct (map si_NotificationID is)" "\<forall>it \<in> set is. \<exists>i. si_NotificationID it = uuid_text (dp_lib P) i"
    by simp_all
qed

lemma scheduled_becomes_ready:
  assumes L: "uuid_text_parses (dp_lib P)" "time_json_roundtrips (dp_lib P)" and ord: "\<And>ps. mset (dp_order P ps) = mset ps"
    and inv: "sys_inv P s" and f: "all_fine s" and r: "api_row (sy_api s) i = Some r"
    and x: "in_context c (scheduled_message (dp_lib P) is) \<in> set (api_sent (sy_api s))"
    and it: "it \<in> set is" "si_NotificationID it = uuid_text (dp_lib P) i"
  obtains s' where "(sys_step P)\<^sup>*\<^sup>* s s'" "all_fine s'" "sy_proc s' = sy_proc s" "api_row (sy_api s') i = Some r"
    "in_context [] (ready_message (dp_lib P) r) \<in> set (api_sent (sy_api s'))"
proof -
  let ?L = "dp_lib P" and ?D = "the_dispatcher P"
  define m where "m = \<lparr>rm_Ctx = [], rm_Event = \<lparr>se_Notifications = is\<rparr>, rm_Msg = 0, rm_AttemptNumber = 1\<rparr>"
  have k: "sched_keyed (sy_sched s)" "sched_fine (sy_sched s)" "api_keyed (sy_api s)" "api_fine (sy_api s)"
    using inv f by (simp_all add: sys_inv_def sched_inv_def api_inv_def all_fine_def)
  have items: "distinct (map si_NotificationID (se_Notifications (rm_Event m)))"
    "\<forall>it \<in> set (se_Notifications (rm_Event m)). \<exists>i. si_NotificationID it = uuid_text ?L i"
    using scheduled_items_known [OF inv L(2) x] by (simp_all add: m_def)
  from schedule_stores [OF k(2,1) L(1) items, of it i] it obtain d tr where
    d: "handleScheduledEvents (sched_repo ?L) m (sy_sched s) = (Ack, d)" "sched_fine d" "sched_keyed d"
    "sched_pending d i = Some (si_ScheduledAt it, tr)" by (auto simp: m_def)
  have "on_stream (api_sent (sy_api s)) {TopicNotificationScheduled} (scheduled_of_json ?L) m"
    unfolding on_stream_def using L(2) by (intro bexI [OF _ x]) (simp add: in_context_def scheduled_message_def m_def)
  then have s1: "sys_step P s (s\<lparr>sy_sched := d\<rparr>)" using d(1) by (rule sys_step.schedule_event)
  define now where "now = max (sy_now s) (si_ScheduledAt it)"
  have s2: "sys_step P (s\<lparr>sy_sched := d\<rparr>) ((s\<lparr>sy_sched := d\<rparr>)\<lparr>sy_now := now\<rparr>)"
    by (rule sys_step.time_passes) (simp add: now_def)
  let ?clock = "Tape (\<lambda>_::nat. now) 0"
  let ?w = "d\<lparr>sd_clock := ?clock\<rparr>"
  have q: "quiet now ?w" using d(2,3) by (simp add: quiet_def sched_fine_def sched_keyed_def)
  obtain fuel w where w: "Tick ?D [] fuel ?w = Some w"
    unfolding the_dispatcher_def using tick_ends [OF lessI] by blast
  from quiet_tick [OF q w [unfolded the_dispatcher_def]] obtain ks where
    ks: "set ks = {k. \<exists>t u. sched_pending ?w k = Some (t, u) \<and> t \<le> now}" "quiet now w"
    "sched_stream w = sched_stream ?w @ map (due_nats ?L (dp_extract P) []) (map (\<lambda>k. (k, snd (the (sched_pending ?w k)))) ks)"
    by blast
  have "i \<in> set ks" using d(4) unfolding ks(1) by (simp add: sched_pending_def now_def)
  then have due: "due_nats ?L (dp_extract P) [] (i, snd (the (sched_pending ?w i))) \<in> set (sched_stream w)"
    unfolding ks(3) by auto
  let ?s2 = "s\<lparr>sy_sched := d, sy_now := now\<rparr>"
  let ?s3 = "?s2\<lparr>sy_sched := w\<rparr>"
  have s3: "(sys_step P)\<^sup>*\<^sup>* ?s2 ?s3"
    using w by (intro tick_steps [where clock = ?clock and ctx = "[]"]) simp_all
  define e where "e = \<lparr>rm_Ctx = [], rm_Event = \<lparr>de_NotificationID = uuid_text ?L i\<rparr>, rm_Msg = 0, rm_AttemptNumber = 1\<rparr>"
  have "uuid_parse ?L (de_NotificationID (rm_Event e)) = Some i" using L(1) by (simp add: e_def uuid_text_parses_def)
  from due_makes_ready [OF k(4,3) r this ord] obtain a where
    a: "handleBatch (api_due ?L (dp_order P)) [e] (sy_api s) = ([(rm_Msg e, Ack)], a)" "api_fine a"
    "api_row a = api_row (sy_api s)" "in_context [] (ready_message ?L r) \<in> set (api_sent a)"
    by (auto simp: e_def)
  have "on_stream (sched_stream w) {TopicScheduledNotificationDue} due_of_json e"
    unfolding on_stream_def by (intro bexI [OF _ due]) (simp add: due_nats_def e_def)
  then have "sys_step P ?s3 (?s3\<lparr>sy_api := a\<rparr>)" using a(1) by (intro sys_step.due_batch) simp_all
  with s1 s2 s3 have "(sys_step P)\<^sup>*\<^sup>* s (?s3\<lparr>sy_api := a\<rparr>)"
    by (simp add: rtranclp.rtrancl_into_rtrancl converse_rtranclp_into_rtranclp)
  moreover have "sched_fine w" using ks(2) by (simp add: quiet_def sched_fine_def)
  ultimately show thesis using a f r by (intro that [of "?s3\<lparr>sy_api := a\<rparr>"]) (simp_all add: all_fine_def)
qed

section \<open>A world for an example\<close>

text \<open>\<open>Create\<close> reads its tapes and nothing else of them.\<close>

lemma exec_stays_fine: "constantly None (pg_faults d) \<Longrightarrow> constantly None (pg_faults (snd (pg_exec stmt d)))"
  by (auto simp: pg_exec_def Let_def split: option.splits sum.splits)

lemma create_stays_fine:
  assumes "api_fine a" "svc_Create (api_deps L) ctx n a = (x, a')"
  shows "api_fine a'"
proof -
  have db: "api_fine v'" if "repo_Create (svc_repo (api_deps L)) r v = (y, v')" "api_fine v" for r v y v'
    using that exec_stays_fine [of "aw_db v" "sql_insert [r]"]
    by (auto simp: api_fine_def on_part_eq pg_Create_def split: prod.splits sum.splits)
  have pub: "api_fine v'" if "pub_Publish (svc_pub (api_deps L)) c t j v = (y, v')" "api_fine v" for c t j v y v'
    using publish_fine [OF that(2), of L c t j] that(1) by (metis snd_conv)
  have ids: "api_fine v'" if "NewIDModel (svc_ids (api_deps L)) v = (y, v')" "api_fine v" for v y v'
    using that by (auto simp: api_fine_def api_ids_def NewIDModel_def split: sum.splits)
  show ?thesis
    using assms
    by (auto simp: svc_Create_def svc_persist_def From_notification_def svc_publish_def Let_def
        simp del: api_deps_sel dest: db pub ids split: prod.splits sum.splits option.splits)
qed

lemma sample_created_fine: "all_fine sample_created"
proof -
  have start: "all_fine sample_start"
    by (simp add: all_fine_def api_fine_def sched_fine_def proc_fine_def sample_start_def sample_world_def sample_sched_def
        sample_proc_def sample_redis_def lets_pass_def set_db_def set_sched_def)
  have "api_fine created_api"
  proof -
    obtain q where "createNotification sample_lib (api_service sample_lib) sample_post fresh_writer (sy_api sample_start) = (q, created_api)"
      using errHandler_world [of "createNotification sample_lib (api_service sample_lib)" sample_post fresh_writer "sy_api sample_start"]
      by (metis created_api_def post_route_def prod.collapse route.select_convs(3))
    with start create_stays_fine [of "sy_api sample_start" sample_lib] show ?thesis
      by (auto simp: createNotification_def all_fine_def split: sum.splits prod.splits)
  qed
  with start show ?thesis by (simp add: all_fine_def sample_created_def)
qed

lemma sample_created_row:
  obtains r where "api_row created_api (UUID 100) = Some r" "r_Status r = StatusPending"
    "api_sent created_api = [in_context [] (ready_message sample_lib r)]"
proof -
  have "map_option (\<lambda>r. (r_Status r = StatusPending, api_sent created_api = [in_context [] (ready_message sample_lib r)]))
      (api_row created_api (UUID 100)) = Some (True, True)" by code_simp
  then show thesis by (auto intro: that)
qed

text \<open>Another start: the broker is down, so a request is stored and not announced.\<close>

definition down_start :: system where
  "down_start = sample_start\<lparr>sy_api := set_nats ((aw_nats (sy_api sample_start))
     \<lparr>na_replies := Tape (\<lambda>_. PubError ''nats: timeout'' False) 0\<rparr>) (sy_api sample_start)\<rparr>"

definition down_created :: system where
  "down_created = down_start\<lparr>sy_api := snd (rt_handler post_route sample_post fresh_writer (sy_api down_start))\<rparr>"

lemma down_reached: "sys_reachable sample_deployment down_created"
proof (rule sys_reachable.step)
  show "sys_reachable sample_deployment down_start"
    using sample_start_empty by (intro sys_reachable.start)
      (simp add: empty_system_def down_start_def api_keyed_def api_row_def api_sent_def sample_start_def sample_world_def)
  show "sys_step sample_deployment down_start down_created"
    unfolding down_created_def
    by (rule sys_step.http_request [where rt = post_route and req = sample_post
          and out = "fst (rt_handler post_route sample_post fresh_writer (sy_api down_start))"])
       (simp_all add: post_routed)
qed

lemma down_row:
  obtains r where "api_row (sy_api down_created) (UUID 100) = Some r" "r_Status r = StatusPending"
    "api_sent (sy_api down_created) = []"
proof -
  have "(map_option r_Status (api_row (sy_api down_created) (UUID 100)), api_sent (sy_api down_created))
      = (Some StatusPending, [])" by code_simp
  then show thesis by (auto intro: that)
qed

section \<open>The properties\<close>

text \<open>Of an announced notification there is its ready message, or a schedule event that names it.\<close>

lemma announcedE:
  assumes L: "uuid_text_parses (dp_lib P)" and inv: "sys_inv P s" and r: "api_row (sy_api s) i = Some r"
    and a: "announced (dp_lib P) (sy_api s) i"
  obtains (ready) c where "in_context c (ready_message (dp_lib P) r) \<in> set (api_sent (sy_api s))"
    | (scheduled) c "is" it where "in_context c (scheduled_message (dp_lib P) is) \<in> set (api_sent (sy_api s))"
        "it \<in> set is" "si_NotificationID it = uuid_text (dp_lib P) i"
proof -
  from a obtain x where x: "x \<in> set (api_sent (sy_api s))" "announces (dp_lib P) i x" by (auto simp: announced_def)
  with inv have "api_message (dp_lib P) (sy_now s) (sy_api s) x" by (simp add: sys_inv_def api_inv_def)
  then consider (ready) c j d where "x = in_context c (ready_message (dp_lib P) d)" "known (sy_api s) j d"
    | (scheduled) c "is" where "x = in_context c (scheduled_message (dp_lib P) is)"
    | (cancelled) "nm_subject x = TopicNotificationScheduleCancelled" unfolding api_message_def by blast
  then show thesis
  proof cases
    case (ready c j d)
    from ready(2) obtain q where q: "api_row (sy_api s) j = Some q" "d = fixed_part q" by (rule knownE)
    have "i = j" using x(2) api_row_id [OF q(1)] by (simp add: ready(1) announces_ready [OF L] q(2))
    with q r x(1) ready(1) show thesis by (intro that(1) [of c]) simp
  next
    case (scheduled c "is")
    with x that(2) show thesis by (auto simp: announces_scheduled)
  next
    case cancelled
    with x(2) announces_cancelled show thesis by blast
  qed
qed



text \<open>
  C5: what was stored but not announced is lost: \<open>Create\<close> and \<open>CreateBatch\<close> store first and publish then,
  and when publishing fails nothing publishes later. From such a state no sequence of steps, however
  long and however well everything answers, announces the notification, takes up a run of the
  pipeline for it, keeps it in the scheduler, or gives it another status than pending or cancelled.
\<close>

theorem unannounced_is_never_sent:
  assumes "uuid_text_parses (dp_lib P)" "time_json_roundtrips (dp_lib P)" "\<forall>ps. mset (dp_order P ps) = mset ps"
    and "sys_reachable P s" "api_row (sy_api s) i = Some r" "\<not> announced (dp_lib P) (sy_api s) i"
    and "(sys_step P)\<^sup>*\<^sup>* s s'"
  shows "\<not> announced (dp_lib P) (sy_api s') i
    \<and> (\<exists>r'. api_row (sy_api s') i = Some r' \<and> fixed_part r' = fixed_part r
         \<and> r_Status r' \<in> {StatusPending, StatusCancelled})
    \<and> sched_pending (sy_sched s') i = None
    \<and> (\<forall>ph m. OpenRun ph \<in># sy_open s' \<longrightarrow> in_hand ph = Some m \<longrightarrow>
         re_NotificationID (rm_Event m) \<noteq> uuid_text (dp_lib P) i)"
proof -
  have "sys_reachable P s'" using assms(7,4) by (rule reachable_steps)
  note c = causedD [OF reachable_caused [OF assms(1-3) this]]
  from unannounced_steps [OF assms(1-4) known_row [OF assms(5)] assms(6,7)]
  have k: "known (sy_api s') i (fixed_part r)" and n: "\<not> announced (dp_lib P) (sy_api s') i" by simp_all
  from k obtain r' where r': "api_row (sy_api s') i = Some r'" "fixed_part r = fixed_part r'" by (rule knownE)
  have "r_Status r' \<in> {StatusPending, StatusCancelled}" using c(1) n r'(1) unfolding rows_caused_def by blast
  moreover have "sched_pending (sy_sched s') i = None"
    using c(2) n unfolding sched_caused_def by (metis not_Some_eq)
  moreover have "re_NotificationID (rm_Event m) \<noteq> uuid_text (dp_lib P) i"
    if "OpenRun ph \<in># sy_open s'" "in_hand ph = Some m" for ph m
    using c(4) [OF that(1)] that(2) n by (auto simp: open_caused_def)
  ultimately show ?thesis using n r' by auto
qed

theorem unannounced_is_never_sent_witness:
  "\<exists>r'. api_row (sy_api (down_created\<lparr>sy_now := 1000\<rparr>)) (UUID 100) = Some r'
     \<and> r_Status r' \<in> {StatusPending, StatusCancelled}
     \<and> \<not> announced sample_lib (sy_api (down_created\<lparr>sy_now := 1000\<rparr>)) (UUID 100)"
proof -
  obtain r where r: "api_row (sy_api down_created) (UUID 100) = Some r" "api_sent (sy_api down_created) = []"
    by (rule down_row)
  have "\<not> announced (dp_lib sample_deployment) (sy_api down_created) (UUID 100)" by (simp add: announced_def r(2))
  moreover have "sys_step sample_deployment down_created (down_created\<lparr>sy_now := 1000\<rparr>)"
    by (rule sys_step.time_passes) (simp add: down_created_def down_start_def sample_start_def)
  ultimately show ?thesis
    using unannounced_is_never_sent [OF sample_deployment_ok down_reached r(1) _ r_into_rtranclp] by fastforce
qed

end
