(* ===== verification/Spec2Isabelle.thy ===== *)
theory Spec2Isabelle
  imports ListPages Lifecycle Tracing Progress
begin

text \<open>
  The notification service: three Go services that talk over one JetStream stream. The API
  (src/api) takes notifications over HTTP, stores them in Postgres and publishes an event for each;
  the processor (src/processor) takes ready events by priority, sends them to the provider under a
  lock and a rate limit, and publishes the result; the delivery scheduler (src/deliveryscheduler)
  keeps what is to be sent later and publishes due events, for which the API publishes ready events.

  \<^bold>\<open>Conventions.\<close> A service's surroundings are one state record that every operation takes and
  returns. Go errors are values (\<open>go_error\<close>, with wrapping, joining and the errors package), a result
  is \<open>go_error + 'a\<close>, a panic is a value of its own. Integers are \<open>int\<close>, with \<open>wrap64\<close> written where
  the code computes on them; instants and durations are nanoseconds; floating point is \<open>rat\<close> rounded
  by \<open>float64\<close>. What the surroundings answer (faults of the database, acknowledgements of the
  broker, the clock, the provider, random numbers) is a tape: a function of the number of the call,
  arbitrary in the theorems; where a theorem needs surroundings that answer, they answer from the state
  at hand on (\<open>constantly\<close>, \<open>steady\<close>), whatever they did before. What is not under src/ is a parameter: the UUID, mail, time and JSON
  libraries (\<open>golib\<close>), the configuration library (\<open>viper_lib\<close>), drivers and telemetry (\<open>infra\<close>,
  \<open>otel_sdk\<close>); the hypotheses on them are named definitions stating documented behaviour
  (\<open>uuid_text_parses\<close>, \<open>time_json_roundtrips\<close>, \<open>offset_plain\<close>, \<open>unset_reads\<close>, \<open>infra_ok\<close>), each met by a
  concrete instance (\<open>sample_lib\<close>, \<open>env_lib\<close>, \<open>sample_infra\<close>). An operation is first a function that runs
  without interruption; where it shares state with others, its calls are then steps of their own
  (Workers, System), and the whole function is shown to be one of the interleavings.

  \<^bold>\<open>Theories and the code they model.\<close>
  \<^item> Prelude, GoLib, GoErrors, GoJson: lists, tapes, 64-bit wrapping, the library record, the errors
    package, JSON values and the field codecs of encoding/json.
  \<^item> Domain: src/api/internal/domain/notification (setters, status transitions) with its invariant
    \<open>valid_notification\<close>. Events: src/api/public, src/processor/public, src/deliveryscheduler/public (topics,
    events, their JSON and its round trips).
  \<^item> Ports, Nats: src/shared/messaging. The locales of publishers (\<open>publisher_port\<close>, \<open>batch_publisher_port\<close>)
    and their interpretation on the JetStream publisher. Subscriber: the two pull subscriptions and
    the ForEach loops.
  \<^item> NotifStore, NotifRepo: the repository port as locale \<open>notif_store\<close> and the bun repository of
    src/api/internal/db as its interpretation (rows, SQL statements, pagination).
  \<^item> ApiService, ApiWorld: src/api/internal/service over any store and publisher (locale \<open>api_env\<close>), then
    on the Postgres store and the JetStream publisher.
  \<^item> HttpBase, HttpApi, HttpLaws, ListPages: src/shared/handler and src/api/internal/transport/http:
    writer, error handler, bodies, the five handlers, the routes, and what every request is answered.
  \<^item> ApiConsumers: src/api/internal/transport/messaging, the delivery result consumer and the consumer of
    due notifications (locale \<open>due_env\<close>).
  \<^item> Router, DeliveryServices, Pipeline, Processor: src/processor/internal (priority router; back-off,
    limiter, HTTP client, metrics, lock; the pipeline; the worker loop). Workers, PoolStop: the pool of workers as a concurrent program,
    call by call, with leases as locale \<open>lease_port\<close>; what its stop function waits for.
  \<^item> SchedRepo, Scheduler, SchedEvents: src/deliveryscheduler/internal (table with locked rows as locale
    \<open>schedule_store\<close>; the dispatcher's \<open>Tick\<close>; the two event handlers).
  \<^item> Tracing: carriers of trace contexts (locale \<open>text_map_carrier\<close>) and the spans of consumed messages.
  \<^item> Config, Telemetry, Deploy, DeployLaws, Process, Lifecycle: src/shared/config, logger, otel, bun,
    redis, the three internal/app packages and the three main functions: what each service opens,
    subscribes and closes, how its goroutines are started and joined, and how its process ends.
  \<^item> System, SystemApi, SystemLaws, SystemCalls, Book, SystemRun and this theory: the three services as
    one transition system (\<open>sys_step\<close>: handlers that make one statement as one step; cancellations,
    results, runs of the pipeline and ticks call by call, with anything in between; the broker may
    deliver any stored message at any time, any number of times), its invariant, its specification
    and one evaluated run. Causes: an invariant by which everything the services do about a notification
    goes back to a message that announces it. Progress: what can still happen from a reachable state. \<open>delivery_steps\<close> and \<open>tick_steps\<close> show that a whole \<open>processOne\<close> and a whole
    \<open>Tick\<close> are sequences of steps.

  \<^bold>\<open>What is shown.\<close>
  The whole system refines \<open>Book\<close>, an abstract book of notifications; stored rows are well formed; only
  due, stored notifications are sent; delivered means that the provider answered 202 (this theory). From every reachable state an announced
  notification can be brought to the provider once the surroundings answer, and one that was stored but
  not announced is never sent (Progress).
  The API: rows move along the transition table only and their data never changes, every branch of
  Create, Cancel, UpdateStatus and CreateBatch with its effects, every route gives exactly one
  response, validation accepts exactly the valid requests, cursor pages enumerate the list. The
  processor: what one message does to stream, provider and lock on every branch, that a message is
  settled within its attempts and the case where it is lost, the weighted order of the router, the
  bounds and the overflow of the back-off; that no two workers of the pool, nor another instance, are
  inside the pipeline for one notification while runs end within their lease, that the stop function
  returns with every message answered, and that \<open>processOne\<close> is what the pool's calls amount to. The scheduler: \<open>Tick\<close> terminates, loses no row unless
  putting back fails, publishes all due rows, takes the oldest first; the effects of its two events
  and of their order. Deployment: every topic has one consumer, events published by one service
  decode in the other, what each way out of a process releases, and that connections are closed only
  after the goroutines that use them have returned.

  \<^bold>\<open>Bounds and fuel.\<close> Only \<open>Tick\<close>, the ticker loop and \<open>finish\<close> (the calls of one run) take fuel. A turn
  of \<open>Tick\<close> removes at least one row from the table, so one turn more than there are rows is enough
  (\<open>tick_terminates\<close>); a run has five calls (\<open>finish_processOne\<close>). The worker and the subscription loops
  run over the finite list of what the broker delivers; a cancelled worker has at most seven steps left.

  \<^bold>\<open>Not modelled.\<close> Log lines except the request log; the HTTP library's dispatch; SQL below the
  statements the repositories issue; migrations other than the constraints the statements meet;
  latencies other than as clock readings. Metrics and spans are counted, not exported. A handler of the
  API that makes one statement that changes a table is one step of the system; that it publishes what it
  stored later makes no difference to the others, for which a message of the stream may be late anyway.
\<close>

section \<open>The services together\<close>

text \<open>
  C6: in every reachable state of the three services, whatever requests, redeliveries, faults and
  delays led there, a stored notification is well formed: it has a known channel and a recipient
  valid for it, content, a known priority (so its events go to one of the three priority topics), a
  positive number of attempts, and a status of the transition table.
\<close>

theorem rows_are_well_formed:
  assumes "uuid_text_parses (dp_lib P)" "time_json_roundtrips (dp_lib P)" "\<forall>ps. mset (dp_order P ps) = mset ps"
    and "sys_reachable P s" "api_row (sy_api s) i = Some r"
  shows "r_ID r = i \<and> r_Channel r \<in> {ChannelSMS, ChannelEmail, ChannelPush}
    \<and> valid_recipient (dp_lib P) (r_Channel r) (r_Recipient r) \<and> r_Content r \<noteq> ''''
    \<and> TopicByPriority (r_Priority r) \<in> {TopicHigh, TopicNormal, TopicLow}
    \<and> r_Priority r \<in> {PriorityHigh, PriorityNormal, PriorityLow} \<and> 0 < r_MaxAttempts r
    \<and> validTransitions (r_Status r) \<noteq> None"
proof -
  have "row_ok (dp_lib P) r"
    using reachable_inv [OF assms(1-4)] assms(5) by (simp add: sys_inv_def api_inv_def)
  then show ?thesis using api_row_id [OF assms(5)] by (auto simp: row_ok_def TopicByPriority_def)
qed

theorem rows_are_well_formed_witness:
  "\<exists>r. api_row (sy_api sample_end) (UUID 100) = Some r \<and> r_ID r = UUID 100 \<and> 0 < r_MaxAttempts r
     \<and> validTransitions (r_Status r) \<noteq> None"
proof -
  obtain r where r: "api_row (sy_api sample_end) (UUID 100) = Some r" by (rule sample_end_row)
  from rows_are_well_formed [OF sample_deployment_ok end_reached r] r show ?thesis by blast
qed

text \<open>
  C3: the provider is only ever sent what a client asked to send, and not before its time: every
  request posted in a reachable state carries the recipient, channel and content of a stored
  notification whose delivery time, if it has one, has come.
\<close>

theorem only_due_notifications_are_sent:
  assumes "uuid_text_parses (dp_lib P)" "time_json_roundtrips (dp_lib P)" "\<forall>ps. mset (dp_order P ps) = mset ps"
    and "sys_reachable P s" "(recipient, channel, content) \<in> set (requests (sy_proc s))"
  shows "\<exists>i r. api_row (sy_api s) i = Some r \<and> r_Recipient r = recipient \<and> r_Channel r = channel
    \<and> r_Content r = content \<and> (\<forall>t. r_DeliverAfter r = Some t \<longrightarrow> t \<le> sy_now s)"
proof -
  obtain i d where d: "known (sy_api s) i d" "(recipient, channel, content) = to_send d" "due_by d (sy_now s)"
    using reachable_inv [OF assms(1-4)] assms(5) unfolding sys_inv_def proc_inv_def by blast
  from d(1) obtain r where "api_row (sy_api s) i = Some r" "d = fixed_part r" by (rule knownE)
  with d(2,3) show ?thesis by (auto simp: to_send_def due_by_def intro!: exI [of _ i] exI [of _ r])
qed

theorem only_due_notifications_are_sent_witness:
  "\<exists>i r. api_row (sy_api sample_end) i = Some r \<and> r_Content r = ''hi''
     \<and> (\<forall>t. r_DeliverAfter r = Some t \<longrightarrow> t \<le> sy_now sample_end)"
proof -
  have "(''+905551234567'', ''sms'', ''hi'') \<in> set (requests (sy_proc sample_end))"
    by (simp add: sent_requests)
  from only_due_notifications_are_sent [OF sample_deployment_ok end_reached this] show ?thesis by blast
qed

text \<open>
  C2: a notification that the API reports as delivered was delivered: the provider was sent its
  recipient, channel and content, and answered that request with 202.
\<close>

theorem delivered_means_sent:
  assumes "uuid_text_parses (dp_lib P)" "time_json_roundtrips (dp_lib P)" "\<forall>ps. mset (dp_order P ps) = mset ps"
    and "sys_reachable P s" "api_row (sy_api s) i = Some r" "r_Status r = StatusDelivered"
  shows "\<exists>k < length (requests (sy_proc s)).
    requests (sy_proc s) ! k = (r_Recipient r, r_Channel r, r_Content r)
    \<and> tape_fun (pw_provider (sy_proc s)) k = Inr 202"
proof -
  have "accepted (sy_proc s) (to_send r)"
    using reachable_inv [OF assms(1-4)] assms(5,6) unfolding sys_inv_def proc_inv_def by blast
  then show ?thesis by (simp add: accepted_def to_send_def)
qed

theorem delivered_means_sent_witness:
  "\<exists>k < length (requests (sy_proc sample_end)). tape_fun (pw_provider (sy_proc sample_end)) k = Inr 202"
proof -
  obtain r where r: "api_row (sy_api sample_end) (UUID 100) = Some r" "r_Status r = StatusDelivered"
    by (rule sample_end_row)
  from delivered_means_sent [OF sample_deployment_ok end_reached r] show ?thesis by blast
qed



end
